(* ===== verification/CPrelude.thy ===== *)
theory CPrelude
  imports Main "HOL-Library.Word" "HOL-Library.Multiset" "HOL-Library.Monad_Syntax"
begin

text \<open>
  The part of C that every component of the program uses: bytes and 32-bit integers, the
  bytes of a shared memory segment, NUL-terminated strings in fixed arrays, and the decimal
  text that \<open>sprintf("%d")\<close> writes and \<open>atoi\<close> reads.  A C function of the program that may run
  into undefined behaviour (a buffer written past its end, a null pointer followed, a string
  without its NUL) is modelled with result type \<open>option\<close>: \<open>None\<close> is the undefined case.
\<close>

unbundle bit_operations_syntax

type_synonym byte = "8 word"
type_synonym cint = "32 word"
type_synonym mem = "nat \<Rightarrow> byte"

named_theorems mem_simps \<open>reading and writing the bytes of a segment\<close>
named_theorems cstr_simps \<open>C strings held in byte arrays\<close>
named_theorems codec_simps \<open>the byte layout of the structs of partition.h\<close>


section \<open>Bytes of a segment\<close>

definition mread :: "mem \<Rightarrow> nat \<Rightarrow> nat \<Rightarrow> byte list" where
  "mread m off n = map m [off ..< off + n]"

definition mwrite :: "mem \<Rightarrow> nat \<Rightarrow> byte list \<Rightarrow> mem" where
  "mwrite m off bs = (\<lambda>a. if off \<le> a \<and> a < off + length bs then bs ! (a - off) else m a)"

definition mset_bytes :: "mem \<Rightarrow> nat \<Rightarrow> byte \<Rightarrow> nat \<Rightarrow> mem" where
  "mset_bytes m off b n = (\<lambda>a. if off \<le> a \<and> a < off + n then b else m a)"

text \<open>\<open>memcpy\<close> of \<open>bs\<close> into an array of \<open>cap\<close> bytes at \<open>off\<close>.\<close>

definition memcpy_array :: "mem \<Rightarrow> nat \<Rightarrow> nat \<Rightarrow> byte list \<Rightarrow> mem option" where
  "memcpy_array m off cap bs = (if length bs \<le> cap then Some (mwrite m off bs) else None)"

lemma length_mread [simp]: "length (mread m off n) = n"
  by (simp add: mread_def)

lemma mread_0 [simp]: "mread m off 0 = []"
  by (simp add: mread_def)

lemma nth_mread [simp]: "i < n \<Longrightarrow> mread m off n ! i = m (off + i)"
  by (simp add: mread_def)

lemma mread_cong: "(\<And>a. off \<le> a \<Longrightarrow> a < off + n \<Longrightarrow> m a = m' a) \<Longrightarrow> mread m off n = mread m' off n"
  by (simp add: mread_def)

lemma mread_add: "mread m off (n + k) = mread m off n @ mread m (off + n) k"
  by (rule nth_equalityI) (auto simp: nth_append add.assoc)

lemma take_mread: "k \<le> n \<Longrightarrow> take k (mread m off n) = mread m off k"
  by (rule nth_equalityI) auto

lemma drop_mread: "k \<le> n \<Longrightarrow> drop k (mread m off n) = mread m (off + k) (n - k)"
  by (rule nth_equalityI) (auto simp: add.assoc)

lemma mread_mwrite_same [mem_simps]: "n = length bs \<Longrightarrow> mread (mwrite m off bs) off n = bs"
  by (rule nth_equalityI) (auto simp: mwrite_def)

lemma mread_mwrite_disjoint [mem_simps]:
  "off + n \<le> off' \<or> off' + length bs \<le> off \<Longrightarrow> mread (mwrite m off' bs) off n = mread m off n"
  by (rule mread_cong) (auto simp: mwrite_def)

lemma mread_mset_bytes_disjoint [mem_simps]:
  "off + n \<le> off' \<or> off' + k \<le> off \<Longrightarrow> mread (mset_bytes m off' b k) off n = mread m off n"
  by (rule mread_cong) (auto simp: mset_bytes_def)

lemma mread_mset_bytes_inside [mem_simps]:
  "off' \<le> off \<Longrightarrow> off + n \<le> off' + k \<Longrightarrow> mread (mset_bytes m off' b k) off n = replicate n b"
  by (rule nth_equalityI) (auto simp: mset_bytes_def)

lemma mread_mwrite_prefix:
  "mread (mwrite m off bs) off n = take n bs @ mread m (off + length bs) (n - length bs)"
  by (rule nth_equalityI) (auto simp: mwrite_def nth_append)

lemma mwrite_outside [mem_simps]:
  "a < off \<or> off + length bs \<le> a \<Longrightarrow> mwrite m off bs a = m a"
  by (auto simp: mwrite_def)

lemma mset_bytes_outside [mem_simps]:
  "a < off \<or> off + n \<le> a \<Longrightarrow> mset_bytes m off b n a = m a"
  by (auto simp: mset_bytes_def)

text \<open>What a \<open>memset\<close> followed by a shorter \<open>memcpy\<close> leaves in a slot.\<close>

lemma mread_mwrite_mset_bytes [mem_simps]:
  assumes "length bs \<le> n"
  shows "mread (mwrite (mset_bytes m off b n) off bs) off n = bs @ replicate (n - length bs) b"
proof -
  have "mread (mwrite (mset_bytes m off b n) off bs) off (length bs + (n - length bs)) =
        bs @ replicate (n - length bs) b"
    using assms unfolding mread_add by (simp add: mem_simps)
  with assms show ?thesis by simp
qed


section \<open>Little-endian 32-bit integers\<close>

definition le32 :: "cint \<Rightarrow> byte list" where
  "le32 w = [ucast w, ucast (drop_bit 8 w), ucast (drop_bit 16 w), ucast (drop_bit 24 w)]"

definition get32 :: "byte list \<Rightarrow> nat \<Rightarrow> cint" where
  "get32 bs i = ucast (bs ! i) OR push_bit 8 (ucast (bs ! (i + 1)))
     OR push_bit 16 (ucast (bs ! (i + 2))) OR push_bit 24 (ucast (bs ! (i + 3)))"

lemma length_le32 [simp]: "length (le32 w) = 4"
  by (simp add: le32_def)

lemma nth_le32:
  "le32 w ! 0 = ucast w" "le32 w ! 1 = ucast (drop_bit 8 w)"
  "le32 w ! 2 = ucast (drop_bit 16 w)" "le32 w ! 3 = ucast (drop_bit 24 w)"
  by (simp_all add: le32_def numeral_eq_Suc del: drop_bit_numeral_minus_bit1)

lemma get32_le32_0: "get32 (le32 w) 0 = w"
proof (rule bit_word_eqI)
  fix n assume "n < LENGTH(32)"
  then have "n < 8 \<or> (8 \<le> n \<and> n < 16) \<or> (16 \<le> n \<and> n < 24) \<or> (24 \<le> n \<and> n < 32)" by auto
  then show "bit (get32 (le32 w) 0) n = bit w n"
    unfolding get32_def add_0 nth_le32 by (auto simp: bit_simps)
qed

lemma get32_append [codec_simps]:
  assumes "length xs = i"
  shows "get32 (xs @ le32 w @ ys) i = w"
proof -
  have nth: "(xs @ le32 w @ ys) ! (i + k) = le32 w ! k" if "k < 4" for k
    using assms that by (simp add: nth_append)
  have "get32 (xs @ le32 w @ ys) i = get32 (le32 w) 0"
    using nth [of 0] nth [of 1] nth [of 2] nth [of 3] by (simp add: get32_def numeral_2_eq_2)
  then show ?thesis by (simp add: get32_le32_0)
qed

lemma get32_front [codec_simps]: "get32 (le32 w @ ys) 0 = w"
  using get32_append [of "[]" 0 w ys] by simp

lemma get32_take: "i + 4 \<le> n \<Longrightarrow> get32 (take n bs) i = get32 bs i"
  by (simp add: get32_def)


section \<open>C strings\<close>

definition bytes :: "string \<Rightarrow> byte list" where
  "bytes s = map (\<lambda>c. word_of_nat (of_char c)) s"

definition cstr :: "byte list \<Rightarrow> byte list" where
  "cstr bs = takeWhile (\<lambda>b. b \<noteq> 0) bs"

definition strlen :: "byte list \<Rightarrow> nat option" where
  "strlen bs = (if 0 \<in> set bs then Some (length (cstr bs)) else None)"

text \<open>An array handed to a function that reads it as a C string.\<close>

definition c_string :: "byte list \<Rightarrow> byte list option" where
  "c_string buf = (if 0 \<in> set buf then Some (cstr buf) else None)"

text \<open>\<open>strcmp(a, b) == 0\<close>, reading both arrays to the first difference or the common NUL.\<close>

fun strcmp_eq :: "byte list \<Rightarrow> byte list \<Rightarrow> bool option" where
  "strcmp_eq (x # xs) (y # ys) =
     (if x \<noteq> y then Some False else if x = 0 then Some True else strcmp_eq xs ys)"
| "strcmp_eq _ _ = None"

text \<open>\<open>strncpy(dst, src, n)\<close> with \<open>n \<le> strlen(src)\<close>: exactly \<open>n\<close> bytes are written, no NUL.\<close>

definition strncpy_exact :: "byte list \<Rightarrow> byte list \<Rightarrow> nat \<Rightarrow> byte list option" where
  "strncpy_exact dst src n = (if n \<le> length dst then Some (take n src @ drop n dst) else None)"

lemma length_bytes [simp]: "length (bytes s) = length s"
  by (simp add: bytes_def)

lemma bytes_inject [simp]: "bytes s = bytes t \<longleftrightarrow> s = t"
proof -
  have "inj (\<lambda>c. word_of_nat (of_char c) :: byte)"
  proof (rule injI)
    fix c d :: char assume "(word_of_nat (of_char c) :: byte) = word_of_nat (of_char d)"
    then have "(of_char c :: nat) mod 256 = of_char d mod 256"
      by (simp add: word_of_nat_eq_iff take_bit_eq_mod)
    then have "(of_char c :: nat) = of_char d" by simp
    then show "c = d" by simp
  qed
  then show ?thesis by (simp add: bytes_def inj_map_eq_map)
qed

lemma bytes_append: "bytes (s @ t) = bytes s @ bytes t"
  by (simp add: bytes_def)

lemma cstr_no_nul [cstr_simps]: "0 \<notin> set (cstr bs)"
  by (auto simp: cstr_def dest: set_takeWhileD)

lemma cstr_append_nul [cstr_simps]: "0 \<notin> set s \<Longrightarrow> cstr (s @ 0 # bs) = s"
  by (induction s) (auto simp: cstr_def)

lemma cstr_append_replicate [cstr_simps]:
  "0 \<notin> set s \<Longrightarrow> cstr (s @ replicate n 0) = s"
proof (cases n)
  case 0
  assume "0 \<notin> set s"
  then have "takeWhile (\<lambda>b. b \<noteq> 0) s = s" by (auto simp: takeWhile_eq_all_conv)
  with 0 show ?thesis by (simp add: cstr_def)
qed (simp add: cstr_append_nul)

lemma length_cstr_le: "length (cstr bs) \<le> length bs"
  by (simp add: cstr_def length_takeWhile_le)

lemma cstr_zeros [cstr_simps]: "cstr (xs @ replicate n 0) = cstr xs"
proof (induction xs)
  case Nil
  then show ?case by (cases n) (simp_all add: cstr_def)
qed (simp add: cstr_def)

lemma cstr_split: "0 \<in> set bs \<Longrightarrow> \<exists>rest. bs = cstr bs @ 0 # rest"
proof -
  assume "0 \<in> set bs"
  then have "dropWhile (\<lambda>b. b \<noteq> 0) bs \<noteq> []" by (auto simp: dropWhile_eq_Nil_conv)
  then obtain x rest where d: "dropWhile (\<lambda>b. b \<noteq> 0) bs = x # rest" by (cases "dropWhile (\<lambda>b. b \<noteq> 0) bs") auto
  then have "x = 0" using hd_dropWhile [of "\<lambda>b. b \<noteq> 0" bs] by auto
  with d have "bs = cstr bs @ 0 # rest" by (metis cstr_def takeWhile_dropWhile_id)
  then show ?thesis by blast
qed

lemma take_strlen: "strlen bs = Some n \<Longrightarrow> take n bs = cstr bs"
  by (auto simp: strlen_def cstr_def takeWhile_eq_take [symmetric] split: if_splits)

lemma strlen_Some [cstr_simps]: "0 \<in> set bs \<Longrightarrow> strlen bs = Some (length (cstr bs))"
  by (simp add: strlen_def)

lemma strcmp_eq_cstr [cstr_simps]:
  "0 \<in> set a \<Longrightarrow> 0 \<in> set b \<Longrightarrow> strcmp_eq a b = Some (cstr a = cstr b)"
  by (induction a b rule: strcmp_eq.induct) (auto simp: cstr_def)

lemma length_strncpy_exact: "strncpy_exact dst src n = Some r \<Longrightarrow> n \<le> length src \<Longrightarrow> length r = length dst"
  by (auto simp: strncpy_exact_def split: if_splits)


section \<open>Decimal text\<close>

text \<open>
  \<open>dec i\<close> is what \<open>sprintf(buf, "%d", i)\<close> writes before its NUL; \<open>sprintf_buf n\<close> is that text
  when it fits an array of \<open>n\<close> bytes, NUL included, and undefined when it does not.
  \<open>strtol\<close> reads base ten as the C library does; \<open>atoi\<close> is its result cut to 32 bits, which is
  how glibc defines it (every text the program reads this way fits 64 bits).
\<close>

definition digit :: "nat \<Rightarrow> byte" where
  "digit d = word_of_nat (48 + d)"

fun dec_nat :: "nat \<Rightarrow> byte list" where
  "dec_nat n = (if n < 10 then [digit n] else dec_nat (n div 10) @ [digit (n mod 10)])"

declare dec_nat.simps [simp del]

definition dec :: "int \<Rightarrow> byte list" where
  "dec i = (if i < 0 then 45 # dec_nat (nat (- i)) else dec_nat (nat i))"

definition sprintf_buf :: "nat \<Rightarrow> byte list \<Rightarrow> byte list option" where
  "sprintf_buf n txt = (if length txt < n then Some txt else None)"

lemma sprintf_buf_Some: "sprintf_buf n t = Some t' \<longleftrightarrow> t' = t \<and> length t < n"
  by (auto simp: sprintf_buf_def)

definition is_digit :: "byte \<Rightarrow> bool" where
  "is_digit b \<longleftrightarrow> 48 \<le> b \<and> b \<le> 57"

definition is_space :: "byte \<Rightarrow> bool" where
  "is_space b \<longleftrightarrow> b = 32 \<or> (9 \<le> b \<and> b \<le> 13)"

fun digits_val :: "int \<Rightarrow> byte list \<Rightarrow> int" where
  "digits_val acc [] = acc"
| "digits_val acc (b # bs) = (if is_digit b then digits_val (acc * 10 + (uint b - 48)) bs else acc)"

definition strtol :: "byte list \<Rightarrow> int" where
  "strtol bs = (case dropWhile is_space bs of
      [] \<Rightarrow> 0
    | c # cs \<Rightarrow> if c = 45 then - digits_val 0 cs
                else if c = 43 then digits_val 0 cs
                else digits_val 0 (c # cs))"

definition atoi :: "byte list \<Rightarrow> cint" where
  "atoi bs = word_of_int (strtol bs)"

lemma unat_digit: "d < 10 \<Longrightarrow> unat (digit d) = 48 + d"
  unfolding digit_def by (simp only: unat_of_nat) simp

lemma uint_digit: "d < 10 \<Longrightarrow> uint (digit d) = 48 + int d"
  using unat_digit [of d] by (simp add: uint_nat)

lemma is_digit_digit [simp]: "d < 10 \<Longrightarrow> is_digit (digit d)"
  using unat_digit [of d] by (simp add: is_digit_def word_le_nat_alt)

lemma dec_nat_digits: "b \<in> set (dec_nat n) \<Longrightarrow> is_digit b"
  by (induction n rule: dec_nat.induct) (subst (asm) (2) dec_nat.simps, auto split: if_splits)

lemma dec_nat_nonempty [simp]: "dec_nat n \<noteq> []"
  by (subst dec_nat.simps) simp

lemma digits_val_append: "\<forall>b \<in> set xs. is_digit b \<Longrightarrow> digits_val acc (xs @ ys) = digits_val (digits_val acc xs) ys"
  by (induction xs arbitrary: acc) auto

lemma digits_val_dec_nat: "digits_val 0 (dec_nat n) = int n"
proof (induction n rule: dec_nat.induct)
  case (1 n)
  show ?case
  proof (cases "n < 10")
    case True
    then show ?thesis
      by (subst dec_nat.simps) (simp add: uint_digit)
  next
    case False
    with 1 have IH: "digits_val 0 (dec_nat (n div 10)) = int (n div 10)" by simp
    have "digits_val 0 (dec_nat n) = digits_val (digits_val 0 (dec_nat (n div 10))) [digit (n mod 10)]"
      using False by (subst dec_nat.simps) (simp add: digits_val_append dec_nat_digits)
    also have "\<dots> = int (n div 10) * 10 + int (n mod 10)"
      using IH by (simp add: uint_digit)
    also have "\<dots> = int (n div 10 * 10 + n mod 10)" by (simp only: of_nat_add of_nat_mult of_nat_numeral)
    also have "\<dots> = int n" by (simp only: div_mult_mod_eq)
    finally show ?thesis .
  qed
qed

lemma digit_bounds: "is_digit b \<Longrightarrow> \<not> is_space b \<and> b \<noteq> 45 \<and> b \<noteq> 43 \<and> b \<noteq> 0"
proof -
  assume "is_digit b"
  then have "48 \<le> unat b" by (simp add: is_digit_def word_le_nat_alt)
  then show ?thesis by (auto simp: is_space_def word_le_nat_alt)
qed

lemma strtol_dec: "strtol (dec i) = i"
proof (cases "i < 0")
  case True
  have "\<not> is_space 45" by (simp add: is_space_def)
  with True show ?thesis by (simp add: strtol_def dec_def digits_val_dec_nat)
next
  case False
  obtain b bs where b: "dec_nat (nat i) = b # bs" by (cases "dec_nat (nat i)") auto
  then have "is_digit b" using dec_nat_digits [of b "nat i"] by simp
  then have "\<not> is_space b" "b \<noteq> 45" "b \<noteq> 43" using digit_bounds by auto
  then show ?thesis using False b digits_val_dec_nat [of "nat i"]
    by (simp add: strtol_def dec_def)
qed

lemma atoi_dec [codec_simps]: "atoi (dec i) = word_of_int i"
  by (simp add: atoi_def strtol_dec)

lemma dec_no_nul [cstr_simps]: "0 \<notin> set (dec i)"
  using dec_nat_digits [of 0] digit_bounds [of 0] by (auto simp: dec_def)

lemma dec_inject: "dec i = dec j \<longleftrightarrow> i = j"
  using strtol_dec by metis

lemma length_dec_nat: "n < 10 ^ k \<Longrightarrow> 0 < k \<Longrightarrow> length (dec_nat n) \<le> k"
proof (induction n arbitrary: k rule: dec_nat.induct)
  case (1 n)
  show ?case
  proof (cases "n < 10")
    case True
    with 1 show ?thesis by (subst dec_nat.simps) simp
  next
    case False
    have "k \<noteq> 1" using 1 False by auto
    with 1 obtain k' where k: "k = Suc k'" "0 < k'" by (cases k) auto
    with 1 False have "length (dec_nat (n div 10)) \<le> k'" by (auto simp: less_mult_imp_div_less mult.commute)
    with False k show ?thesis by (subst dec_nat.simps) simp
  qed
qed

lemma length_dec_nat_ge: "10 ^ k \<le> n \<Longrightarrow> Suc k \<le> length (dec_nat n)"
proof (induction k arbitrary: n)
  case 0
  then show ?case by (subst dec_nat.simps) simp
next
  case (Suc k)
  then have "10 ^ k \<le> n div 10" by (simp add: less_eq_div_iff_mult_less_eq mult.commute)
  moreover have "(10 :: nat) * 1 \<le> 10 * 10 ^ k" by (rule mult_le_mono2) (rule one_le_power, simp)
  then have "10 \<le> n" using Suc.prems unfolding power_Suc by linarith
  ultimately show ?case using Suc.IH [of "n div 10"] by (subst dec_nat.simps) simp
qed

lemma length_dec: "- (10 ^ k) < i \<Longrightarrow> i < 10 ^ (Suc k) \<Longrightarrow> 0 < k \<Longrightarrow> length (dec i) \<le> Suc k"
proof (cases "i < 0")
  case True
  assume a: "- (10 ^ k) < i" "0 < k"
  then have "- i < 10 ^ k" by simp
  with True have "nat (- i) < 10 ^ k" by (simp add: nat_less_iff)
  with a True show ?thesis using length_dec_nat [of "nat (- i)" k] by (simp add: dec_def)
next
  case False
  assume a: "i < 10 ^ Suc k"
  with False have "nat i < 10 ^ Suc k" by (simp add: nat_less_iff)
  with False show ?thesis using length_dec_nat [of "nat i" "Suc k"] by (simp add: dec_def)
qed


lemma length_dec_byte: "length (dec (uint (b :: byte))) \<le> 3"
proof -
  have "- (10 ^ 2) < uint b" by (rule less_le_trans [OF _ uint_ge_0]) simp
  moreover have "uint b < 10 ^ Suc 2" using uint_bounded [of b] by simp
  ultimately show ?thesis using length_dec [of 2 "uint b"] by simp
qed


lemma sum_list_pos: "\<forall>x \<in> set xs. 0 < (x :: int) \<Longrightarrow> 0 \<le> sum_list xs \<and> (xs \<noteq> [] \<longrightarrow> 0 < sum_list xs)"
  by (induction xs) auto


section \<open>Semaphores\<close>

text \<open>\<open>sem_wait\<close> of a semaphore at 0 does not return until another process posts it.\<close>

definition sem_wait :: "nat \<Rightarrow> nat option" where
  "sem_wait n = (if n = 0 then None else Some (n - 1))"

definition sem_post :: "nat \<Rightarrow> nat" where
  "sem_post n = n + 1"


section \<open>Lists of lists\<close>

lemma mset_concat_update:
  "i < length cs \<Longrightarrow> mset (concat (cs[i := xs])) + mset (cs ! i) = mset (concat cs) + mset xs"
proof (induction cs arbitrary: i)
  case (Cons c cs)
  then show ?case by (cases i) (simp_all add: add.assoc add.commute add.left_commute)
qed simp

lemma distinct_concat_nth:
  "distinct (concat cs) \<Longrightarrow> i < length cs \<Longrightarrow> j < length cs \<Longrightarrow> i \<noteq> j \<Longrightarrow> set (cs ! i) \<inter> set (cs ! j) = {}"
proof (induction cs arbitrary: i j)
  case (Cons c cs)
  then show ?case by (cases i; cases j) (auto, (metis IntI Union_iff emptyE nth_mem imageI)+)
qed simp

lemma set_nth_concat: "i < length cs \<Longrightarrow> a \<in> set (cs ! i) \<Longrightarrow> a \<in> set (concat cs)"
  by (auto simp: set_conv_nth [of cs])

lemma distinct_nth_concat: "distinct (concat cs) \<Longrightarrow> i < length cs \<Longrightarrow> distinct (cs ! i)"
  by (auto simp: distinct_concat_iff)

lemma sint_small: "unat (w :: cint) < 2 ^ 31 \<Longrightarrow> sint w = int (unat w)"
proof -
  assume a: "unat w < 2 ^ 31"
  then have "uint w < 2 ^ 31" using of_nat_less_iff [of "unat w" "2 ^ 31", where 'a = int] by simp
  moreover have "- (2 ^ 31) \<le> uint w" by (rule order_trans [OF _ uint_ge_0]) simp
  ultimately have "signed_take_bit 31 (uint w) = uint w"
    by (intro signed_take_bit_int_eq_self)
  then show ?thesis by (simp add: sint_uint)
qed

lemma sint_word_of_int: "- (2 ^ 31) \<le> i \<Longrightarrow> i < 2 ^ 31 \<Longrightarrow> sint (word_of_int i :: cint) = i"
  by (simp add: sint_sbintrunc' signed_take_bit_int_eq_self)

lemma unat_minus_1: "unat (w :: cint) = Suc n \<Longrightarrow> unat (w - 1) = n"
proof -
  assume w: "unat w = Suc n"
  then have "(1 :: cint) \<le> w" by (simp add: word_le_nat_alt)
  from unat_sub [OF this] w show ?thesis by simp
qed

lemma unat_plus_1: "unat (w :: cint) = n \<Longrightarrow> Suc n < 2 ^ 32 \<Longrightarrow> unat (w + 1) = Suc n"
  by (simp add: unat_word_ariths)

end
