(* ===== verification/Hashtable.thy ===== *)
theory Hashtable
  imports CPrelude
begin

text \<open>
  The table of \<open>hashtable.c\<close>, in which the receiver keeps the message size agreed with each IP
  address: an array of chains of nodes, and a pool of free nodes that \<open>hput\<close> takes from and
  \<open>hdel\<close> gives back to.  The model keeps the pointers: a node is an address into the heap
  \<open>nodes\<close>, a \<open>datanode **\<close> is a \<open>slot\<close>, the place a pointer is stored in.  Following a null or
  dangling pointer, running past a key without a NUL and writing past \<open>key[20]\<close> are \<open>None\<close>.

  The lemmas show that the chains and the pool always partition the nodes that
  \<open>hcreate_table\<close> allocated, that the table is a finite map as long as no node is recycled, and
  what goes wrong when one is.
\<close>

section \<open>Data and operations\<close>

definition hash_seed :: cint where
  "hash_seed = 1009"

record datanode =
  nkey :: "byte list"
  nvalue :: cint
  nnext :: "nat option"

record hashtable =
  table :: "nat option list"
  nodepool :: "nat option"
  available_node_count :: cint
  table_size :: cint
  nodes :: "nat \<rightharpoonup> datanode"

text \<open>A \<open>datanode **\<close>: an entry of the pointer array, or the \<open>next\<close> field of a node.\<close>

datatype slot = Table nat | Next nat

fun load :: "hashtable \<Rightarrow> slot \<Rightarrow> nat option option" where
  "load h (Table i) = (if i < length (table h) then Some (table h ! i) else None)"
| "load h (Next a) = map_option nnext (nodes h a)"

fun store :: "hashtable \<Rightarrow> slot \<Rightarrow> nat option \<Rightarrow> hashtable option" where
  "store h (Table i) p =
     (if i < length (table h) then Some (h\<lparr>table := (table h)[i := p]\<rparr>) else None)"
| "store h (Next a) p =
     map_option (\<lambda>n. h\<lparr>nodes := (nodes h)(a \<mapsto> n\<lparr>nnext := p\<rparr>)\<rparr>) (nodes h a)"

text \<open>The loop of \<open>hget_hash\<close>: 32-bit arithmetic that wraps, \<open>key[i]\<close> a signed char.\<close>

fun hash_loop :: "cint \<Rightarrow> byte list \<Rightarrow> cint" where
  "hash_loop hash [] = hash"
| "hash_loop hash (c # cs) = hash_loop ((push_bit 5 hash + hash) + scast c) cs"

text \<open>\<open>hash % htable->table_size\<close> is unsigned, as \<open>table_size\<close> is; by 0 it is undefined.\<close>

definition hget_hash :: "hashtable \<Rightarrow> byte list \<Rightarrow> int option" where
  "hget_hash h key = do {
     n \<leftarrow> strlen key;
     if table_size h = 0 then None
     else Some (sint (hash_loop hash_seed (take n key) mod table_size h)) }"

text \<open>\<open>&htable->table[hash]\<close>.\<close>

definition table_slot :: "hashtable \<Rightarrow> int \<Rightarrow> slot option" where
  "table_slot h hash = (if 0 \<le> hash \<and> nat hash < length (table h) then Some (Table (nat hash)) else None)"

text \<open>The two walks along a chain; a walk that meets a cycle does not return.\<close>

partial_function (option) walk_end :: "hashtable \<Rightarrow> slot \<Rightarrow> slot option" where
  "walk_end h temp = do {
     p \<leftarrow> load h temp;
     case p of None \<Rightarrow> Some temp | Some a \<Rightarrow> walk_end h (Next a) }"

partial_function (option) walk_key :: "hashtable \<Rightarrow> byte list \<Rightarrow> slot \<Rightarrow> slot option" where
  "walk_key h key temp = do {
     p \<leftarrow> load h temp;
     case p of
       None \<Rightarrow> Some temp
     | Some a \<Rightarrow> do {
         n \<leftarrow> nodes h a;
         same \<leftarrow> strcmp_eq (nkey n) key;
         if same then Some temp else walk_key h key (Next a) } }"

declare walk_end.simps [code] walk_key.simps [code]

definition hput :: "hashtable \<Rightarrow> byte list \<Rightarrow> cint \<Rightarrow> (int \<times> hashtable) option" where
  "hput h key value =
     (if available_node_count h < 1 then Some (-1, h)
      else do {
        hash \<leftarrow> hget_hash h key;
        if hash = -1 then Some (-2, h)
        else do {
          chain_start \<leftarrow> table_slot h hash;
          temp \<leftarrow> walk_end h chain_start;
          h1 \<leftarrow> store h temp (nodepool h);
          first \<leftarrow> nodepool h1;
          firstnode \<leftarrow> nodes h1 first;
          let h2 = h1\<lparr>nodepool := nnext firstnode\<rparr>;
          p \<leftarrow> load h2 temp;
          a \<leftarrow> p;
          n \<leftarrow> nodes h2 a;
          len \<leftarrow> strlen key;
          newkey \<leftarrow> strncpy_exact (nkey n) key len;
          let h3 = h2\<lparr>nodes := (nodes h2)(a \<mapsto> n\<lparr>nkey := newkey, nvalue := value, nnext := None\<rparr>)\<rparr>;
          Some (0, h3\<lparr>available_node_count := available_node_count h3 - 1\<rparr>) } })"

definition hget :: "hashtable \<Rightarrow> byte list \<Rightarrow> int option" where
  "hget h key = do {
     hash \<leftarrow> hget_hash h key;
     if hash = -1 then Some (-1)
     else do {
       chain_start \<leftarrow> table_slot h hash;
       temp \<leftarrow> walk_key h key chain_start;
       p \<leftarrow> load h temp;
       case p of
         None \<Rightarrow> Some (-2)
       | Some a \<Rightarrow> do { n \<leftarrow> nodes h a; Some (sint (nvalue n)) } } }"

definition hdel :: "hashtable \<Rightarrow> byte list \<Rightarrow> (int \<times> hashtable) option" where
  "hdel h key = do {
     hash \<leftarrow> hget_hash h key;
     if hash = -1 then Some (-1, h)
     else do {
       chain_start \<leftarrow> table_slot h hash;
       temp \<leftarrow> walk_key h key chain_start;
       p \<leftarrow> load h temp;
       case p of
         None \<Rightarrow> Some (-2, h)
       | Some freed_node \<Rightarrow> do {
           n \<leftarrow> nodes h freed_node;
           h1 \<leftarrow> store h temp (nnext n);
           let h2 = h1\<lparr>available_node_count := available_node_count h1 + 1\<rparr>;
           h3 \<leftarrow> store h2 (Next freed_node) (nodepool h2);
           Some (0, h3\<lparr>nodepool := Some freed_node\<rparr>) } } }"

text \<open>
  \<open>hcreate_table\<close>, given what its \<open>calloc\<close> calls return: whether the pointer array was
  allocated, and for each node its address or \<open>None\<close> for NULL.  \<open>temp\<close> is the last node linked.
\<close>

definition calloc_node :: datanode where
  "calloc_node = \<lparr>nkey = replicate 20 0, nvalue = 0, nnext = None\<rparr>"

fun create_nodes ::
  "nat \<Rightarrow> nat option list \<Rightarrow> nat option \<Rightarrow> hashtable \<Rightarrow> (int \<times> hashtable) option" where
  "create_nodes 0 callocs temp h = Some (0, h)"
| "create_nodes (Suc n) [] temp h = None"
| "create_nodes (Suc n) (None # callocs) temp h = Some (-2, h)"
| "create_nodes (Suc n) (Some newnode # callocs) temp h =
     (let h1 = h\<lparr>nodes := (nodes h)(newnode \<mapsto> calloc_node)\<rparr> in
      case temp of
        None \<Rightarrow> create_nodes n callocs (Some newnode) (h1\<lparr>nodepool := Some newnode\<rparr>)
      | Some t \<Rightarrow> do {
          h2 \<leftarrow> store h1 (Next t) (Some newnode);
          t' \<leftarrow> load h2 (Next t);
          create_nodes n callocs t' h2 })"

definition hcreate_table ::
  "bool \<Rightarrow> nat option list \<Rightarrow> hashtable \<Rightarrow> cint \<Rightarrow> (int \<times> hashtable) option" where
  "hcreate_table table_ok callocs h sz =
     (let h1 = h\<lparr>available_node_count := sz, table_size := sz\<rparr> in
      if \<not> table_ok then Some (-1, h1\<lparr>table := []\<rparr>)
      else create_nodes (unat sz) callocs None (h1\<lparr>table := replicate (unat sz) None\<rparr>))"


section \<open>Chains\<close>

text \<open>The addresses met from a pointer, in order, ending with the null pointer.\<close>

fun chain :: "(nat \<rightharpoonup> datanode) \<Rightarrow> nat option \<Rightarrow> nat list \<Rightarrow> bool" where
  "chain ns p [] = (p = None)"
| "chain ns p (a # as) = (p = Some a \<and> (case ns a of None \<Rightarrow> False | Some n \<Rightarrow> chain ns (nnext n) as))"

text \<open>The place where the pointer that ends a walk over \<open>pre\<close> is stored.\<close>

definition end_slot :: "slot \<Rightarrow> nat list \<Rightarrow> slot" where
  "end_slot t pre = (if pre = [] then t else Next (last pre))"

lemma end_slot_simps [simp]: "end_slot t [] = t" "end_slot t (a # as) = end_slot (Next a) as"
  by (simp_all add: end_slot_def)

lemma chain_node: "chain ns p as \<Longrightarrow> a \<in> set as \<Longrightarrow> \<exists>n. ns a = Some n"
  by (induction as arbitrary: p) (auto split: option.splits)

lemma chain_cong:
  "chain ns p as \<Longrightarrow> (\<And>a. a \<in> set as \<Longrightarrow> map_option nnext (ns' a) = map_option nnext (ns a))
   \<Longrightarrow> chain ns' p as"
proof (induction as arbitrary: p)
  case (Cons a as)
  from Cons.prems(1) obtain n where n: "p = Some a" "ns a = Some n" "chain ns (nnext n) as"
    by (auto split: option.splits)
  from n Cons.prems(2) [of a] obtain n' where "ns' a = Some n'" "nnext n' = nnext n" by auto
  with n Cons show ?case by auto
qed simp

lemma chain_upd_other [simp]: "a \<notin> set as \<Longrightarrow> chain (ns(a \<mapsto> n)) p as = chain ns p as"
  by (induction as arbitrary: p) (auto split: option.splits)

lemma chain_suffix: "chain ns p (pre @ a # rest) \<Longrightarrow> chain ns (Some a) (a # rest)"
  by (induction pre arbitrary: p) (auto split: option.split_asm)

lemma chain_unique: "chain ns p as \<Longrightarrow> chain ns p bs \<Longrightarrow> as = bs"
proof (induction as arbitrary: p bs)
  case Nil
  then show ?case by (cases bs) auto
next
  case (Cons a as)
  then show ?case by (cases bs) (auto split: option.splits)
qed

lemma chain_update_last:
  "chain ns p (pre @ l # rest) \<Longrightarrow> l \<notin> set pre \<Longrightarrow>
   chain (ns(l \<mapsto> n)) p (pre @ l # rest') = chain (ns(l \<mapsto> n)) (nnext n) rest'"
  by (induction pre arbitrary: p) (auto split: option.splits)

lemma walk_end_chain:
  "load h t = Some p \<Longrightarrow> chain (nodes h) p as \<Longrightarrow> walk_end h t = Some (end_slot t as)"
proof (induction as arbitrary: t p)
  case Nil
  then show ?case by (simp add: walk_end.simps)
next
  case (Cons a as)
  then have "walk_end h (Next a) = Some (end_slot (Next a) as)"
    by (auto split: option.splits)
  with Cons.prems show ?case by (subst walk_end.simps) simp
qed

text \<open>The walk for a key ends before the first node that holds it.\<close>

definition holds :: "hashtable \<Rightarrow> byte list \<Rightarrow> nat \<Rightarrow> bool" where
  "holds h s a = (case nodes h a of None \<Rightarrow> False | Some n \<Rightarrow> cstr (nkey n) = s)"

lemma walk_key_chain:
  "load h t = Some p \<Longrightarrow> chain (nodes h) p as \<Longrightarrow> 0 \<in> set key \<Longrightarrow>
   (\<And>a. a \<in> set as \<Longrightarrow> \<exists>n. nodes h a = Some n \<and> 0 \<in> set (nkey n)) \<Longrightarrow>
   walk_key h key t = Some (end_slot t (takeWhile (\<lambda>a. \<not> holds h (cstr key) a) as))"
proof (induction as arbitrary: t p)
  case Nil
  then show ?case by (simp add: walk_key.simps)
next
  case (Cons a as)
  obtain n where n: "nodes h a = Some n" "0 \<in> set (nkey n)" using Cons.prems(4) [of a] by auto
  have p: "p = Some a" "chain (nodes h) (nnext n) as" using Cons.prems(2) n by auto
  have IH: "walk_key h key (Next a) =
      Some (end_slot (Next a) (takeWhile (\<lambda>a. \<not> holds h (cstr key) a) as))"
    by (rule Cons.IH [where p = "nnext n"]) (use Cons.prems n p in auto)
  show ?case
    by (subst walk_key.simps) (use Cons.prems n p IH in \<open>auto simp: holds_def strcmp_eq_cstr\<close>)
qed

lemma load_end_slot:
  "load h t = Some p \<Longrightarrow> chain (nodes h) p (pre @ rest) \<Longrightarrow>
   load h (end_slot t pre) = Some (case rest of [] \<Rightarrow> None | a # _ \<Rightarrow> Some a)"
proof (induction pre arbitrary: t p)
  case Nil
  then show ?case by (cases rest) auto
next
  case (Cons a pre)
  then show ?case by (auto split: option.splits)
qed


section \<open>The invariant\<close>

text \<open>
  \<open>rep h cs pool\<close>: the pointer array starts the chains \<open>cs\<close>, \<open>nodepool\<close> starts \<open>pool\<close>, together
  they are \<open>table_size\<close> different nodes, the free count is the length of the pool, and every key
  array has its 20 bytes, the last one never written.
\<close>

definition rep :: "hashtable \<Rightarrow> nat list list \<Rightarrow> nat list \<Rightarrow> bool" where
  "rep h cs pool \<longleftrightarrow>
     0 < table_size h \<and> unat (table_size h) < 2 ^ 31 \<and>
     length (table h) = unat (table_size h) \<and> length cs = length (table h) \<and>
     (\<forall>i < length cs. chain (nodes h) (table h ! i) (cs ! i)) \<and>
     chain (nodes h) (nodepool h) pool \<and>
     distinct (concat cs @ pool) \<and>
     length (concat cs @ pool) = unat (table_size h) \<and>
     unat (available_node_count h) = length pool \<and>
     (\<forall>a \<in> set (concat cs @ pool). case nodes h a of None \<Rightarrow> False
        | Some n \<Rightarrow> length (nkey n) = 20 \<and> nkey n ! 19 = 0)"

fun nodes_from :: "nat \<Rightarrow> (nat \<rightharpoonup> datanode) \<Rightarrow> nat option \<Rightarrow> nat list" where
  "nodes_from (Suc k) ns (Some a) =
     (case ns a of None \<Rightarrow> [] | Some n \<Rightarrow> a # nodes_from k ns (nnext n))"
| "nodes_from _ _ _ = []"

definition chains :: "hashtable \<Rightarrow> nat list list" where
  "chains h = map (nodes_from (unat (table_size h)) (nodes h)) (table h)"

definition pool_of :: "hashtable \<Rightarrow> nat list" where
  "pool_of h = nodes_from (unat (table_size h)) (nodes h) (nodepool h)"

definition ht_wf :: "hashtable \<Rightarrow> bool" where
  "ht_wf h \<longleftrightarrow> rep h (chains h) (pool_of h)"

lemma nodes_from_chain: "chain ns p as \<Longrightarrow> length as \<le> k \<Longrightarrow> nodes_from k ns p = as"
proof (induction as arbitrary: p k)
  case (Cons a as)
  then show ?case by (cases k) (auto split: option.splits)
qed (cases k; auto)

lemma length_nth_concat: "i < length cs \<Longrightarrow> length (cs ! i) \<le> length (concat cs)"
  by (induction cs arbitrary: i) (auto simp: nth_Cons split: nat.splits intro: trans_le_add2)

lemma rep_chains: "rep h cs pool \<Longrightarrow> cs = chains h \<and> pool = pool_of h"
proof -
  assume r: "rep h cs pool"
  have "chains h ! i = cs ! i" if "i < length cs" for i
    using r that length_nth_concat [OF that] nodes_from_chain [of "nodes h" "table h ! i" "cs ! i"]
    by (auto simp: rep_def chains_def)
  then have "cs = chains h" using r by (intro nth_equalityI) (auto simp: rep_def chains_def)
  moreover have "pool = pool_of h"
    using r nodes_from_chain [of "nodes h" "nodepool h" pool] by (auto simp: rep_def pool_of_def)
  ultimately show ?thesis ..
qed

lemma rep_wf: "rep h cs pool \<Longrightarrow> ht_wf h"
  using rep_chains ht_wf_def by metis

lemma key_nul: "length k = 20 \<Longrightarrow> k ! 19 = 0 \<Longrightarrow> (0::byte) \<in> set k"
  using nth_mem [of 19 k] by simp

lemma rep_node:
  assumes "rep h cs pool" "a \<in> set (concat cs @ pool)"
  shows "\<exists>n. nodes h a = Some n \<and> length (nkey n) = 20 \<and> nkey n ! 19 = 0 \<and> 0 \<in> set (nkey n)"
proof -
  have "case nodes h a of None \<Rightarrow> False | Some n \<Rightarrow> length (nkey n) = 20 \<and> nkey n ! 19 = 0"
    using assms unfolding rep_def by blast
  then show ?thesis by (cases "nodes h a") (auto intro: key_nul)
qed

text \<open>Every operation that only moves nodes between chains and pool keeps the invariant.\<close>

lemma rep_move:
  assumes "rep h cs pool"
    and "table_size h' = table_size h" "length (table h') = length (table h)" "length cs' = length cs"
    and "mset (concat cs' @ pool') = mset (concat cs @ pool)"
    and "unat (available_node_count h') = length pool'"
    and "\<And>i. i < length cs \<Longrightarrow> chain (nodes h') (table h' ! i) (cs' ! i)"
    and "chain (nodes h') (nodepool h') pool'"
    and "\<And>a. a \<in> set (concat cs @ pool) \<Longrightarrow>
           \<exists>n. nodes h' a = Some n \<and> length (nkey n) = 20 \<and> nkey n ! 19 = 0"
  shows "rep h' cs' pool'"
proof -
  have s: "set (concat cs' @ pool') = set (concat cs @ pool)" using assms(5) by (rule mset_eq_setD)
  have d: "distinct (concat cs' @ pool')"
    using assms(1) assms(5) mset_eq_imp_distinct_iff unfolding rep_def by metis
  have l: "length (concat cs' @ pool') = length (concat cs @ pool)"
    using assms(5) by (rule mset_eq_length)
  have n: "\<forall>a \<in> set (concat cs' @ pool'). case nodes h' a of None \<Rightarrow> False
        | Some n \<Rightarrow> length (nkey n) = 20 \<and> nkey n ! 19 = 0"
    unfolding s using assms(9) by fastforce
  show ?thesis using assms(1-4,6-8) d l n unfolding rep_def by simp
qed


section \<open>The bucket of a key\<close>

definition bucket :: "hashtable \<Rightarrow> byte list \<Rightarrow> nat" where
  "bucket h s = unat (hash_loop hash_seed s mod table_size h)"

lemma bucket_less: "rep h cs pool \<Longrightarrow> bucket h s < length cs"
proof -
  assume r: "rep h cs pool"
  then have "hash_loop hash_seed s mod table_size h < table_size h"
    by (auto simp: rep_def intro: word_mod_less_divisor)
  then show ?thesis using r by (simp add: rep_def bucket_def word_less_nat_alt)
qed

lemma hget_hash_bucket:
  assumes "rep h cs pool" "0 \<in> set key"
  shows "hget_hash h key = Some (int (bucket h (cstr key)))"
proof -
  have len: "strlen key = Some (length (cstr key))" using assms(2) by (rule strlen_Some)
  have "bucket h (cstr key) < 2 ^ 31" using bucket_less [OF assms(1), of "cstr key"] assms(1) by (simp add: rep_def)
  then have "sint (hash_loop hash_seed (cstr key) mod table_size h) = int (bucket h (cstr key))"
    unfolding bucket_def by (rule sint_small)
  then show ?thesis using assms(1) len take_strlen [OF len] by (auto simp: hget_hash_def rep_def)
qed

lemma table_slot_bucket:
  "rep h cs pool \<Longrightarrow> table_slot h (int (bucket h s)) = Some (Table (bucket h s))"
  using bucket_less [of h cs pool s] by (simp add: table_slot_def rep_def)

lemma load_bucket: "rep h cs pool \<Longrightarrow> load h (Table (bucket h s)) = Some (table h ! bucket h s)"
  using bucket_less [of h cs pool s] by (simp add: rep_def)

text \<open>The first node of the key's chain that holds the key, and its value.\<close>

definition ht_find :: "hashtable \<Rightarrow> byte list \<Rightarrow> nat option" where
  "ht_find h s = find (holds h s) (chains h ! bucket h s)"

definition value_at :: "hashtable \<Rightarrow> nat \<Rightarrow> cint" where
  "value_at h a = (case nodes h a of None \<Rightarrow> 0 | Some n \<Rightarrow> nvalue n)"

text \<open>
  The abstract table: the values bound to a key, oldest first.  \<open>hget\<close> sees only the first.
\<close>

definition ht_bindings :: "hashtable \<Rightarrow> byte list \<Rightarrow> cint list" where
  "ht_bindings h s = map (value_at h) (filter (holds h s) (chains h ! bucket h s))"

lemma ht_bindings_find:
  "ht_bindings h s = [] \<longleftrightarrow> ht_find h s = None"
  "ht_find h s = Some a \<Longrightarrow> hd (ht_bindings h s) = value_at h a"
proof -
  show "ht_bindings h s = [] \<longleftrightarrow> ht_find h s = None"
    by (auto simp: ht_bindings_def ht_find_def find_None_iff filter_empty_conv)
  show "hd (ht_bindings h s) = value_at h a" if "ht_find h s = Some a"
  proof -
    have "hd (map (value_at h) (filter (holds h s) xs)) = value_at h a" if "find (holds h s) xs = Some a" for xs
      using that by (induction xs) (auto split: if_splits)
    with that show ?thesis by (simp add: ht_bindings_def ht_find_def)
  qed
qed

lemma find_takeWhile_split:
  "find P xs = Some a \<Longrightarrow> \<exists>post. xs = takeWhile (\<lambda>x. \<not> P x) xs @ a # post \<and> P a"
  by (induction xs) (auto split: if_splits)

lemma find_takeWhile_None: "find P xs = None \<Longrightarrow> takeWhile (\<lambda>x. \<not> P x) xs = xs"
  by (induction xs) (auto split: if_splits)

lemma walk_key_bucket:
  assumes r: "rep h cs pool" and k: "0 \<in> set key"
  defines "c \<equiv> cs ! bucket h (cstr key)"
  shows "walk_key h key (Table (bucket h (cstr key))) =
           Some (end_slot (Table (bucket h (cstr key))) (takeWhile (\<lambda>a. \<not> holds h (cstr key) a) c))"
    and "load h (end_slot (Table (bucket h (cstr key))) (takeWhile (\<lambda>a. \<not> holds h (cstr key) a) c)) =
           Some (ht_find h (cstr key))"
proof -
  let ?t = "Table (bucket h (cstr key))" and ?pre = "takeWhile (\<lambda>a. \<not> holds h (cstr key) a) c"
  have i: "bucket h (cstr key) < length cs" by (rule bucket_less [OF r])
  have ld: "load h ?t = Some (table h ! bucket h (cstr key))" by (rule load_bucket [OF r])
  have ch: "chain (nodes h) (table h ! bucket h (cstr key)) c" using r i by (simp add: rep_def c_def)
  have nd: "\<exists>n. nodes h a = Some n \<and> 0 \<in> set (nkey n)" if "a \<in> set c" for a
    using rep_node [OF r, of a] set_nth_concat [OF i, of a] that by (auto simp: c_def)
  show "walk_key h key ?t = Some (end_slot ?t ?pre)"
    by (rule walk_key_chain [OF ld ch k]) (rule nd)
  have c: "chains h ! bucket h (cstr key) = c" using rep_chains [OF r] by (simp add: c_def)
  show "load h (end_slot ?t ?pre) = Some (ht_find h (cstr key))"
  proof (cases "find (holds h (cstr key)) c")
    case None
    then have "chain (nodes h) (table h ! bucket h (cstr key)) (?pre @ [])"
      using ch by (simp only: find_takeWhile_None [OF None] append_Nil2)
    from load_end_slot [OF ld this] None c show ?thesis by (simp add: ht_find_def)
  next
    case (Some a)
    then obtain post where "c = ?pre @ a # post" using find_takeWhile_split by fast
    then have "chain (nodes h) (table h ! bucket h (cstr key)) (?pre @ a # post)" using ch by simp
    from load_end_slot [OF ld this] Some c show ?thesis by (simp add: ht_find_def)
  qed
qed

lemma ht_find_node:
  assumes r: "rep h cs pool" and f: "ht_find h s = Some a"
  shows "a \<in> set (cs ! bucket h s)" and "\<exists>n. nodes h a = Some n \<and> cstr (nkey n) = s"
proof -
  from rep_chains [OF r] f have f': "find (holds h s) (cs ! bucket h s) = Some a" by (simp add: ht_find_def)
  show "a \<in> set (cs ! bucket h s)" using find_takeWhile_split [OF f'] by (metis in_set_conv_decomp)
  show "\<exists>n. nodes h a = Some n \<and> cstr (nkey n) = s"
    using find_takeWhile_split [OF f'] by (auto simp: holds_def split: option.splits)
qed

text \<open>What \<open>hget\<close> returns on every key.\<close>

lemma hget_bindings:
  assumes "ht_wf h" "0 \<in> set key"
  shows "hget h key = Some (case ht_bindings h (cstr key) of [] \<Rightarrow> -2 | v # _ \<Rightarrow> sint v)"
proof -
  have r: "rep h (chains h) (pool_of h)" using assms(1) by (simp add: ht_wf_def)
  have "hget h key = Some (case ht_find h (cstr key) of None \<Rightarrow> -2 | Some a \<Rightarrow> sint (value_at h a))"
    using walk_key_bucket [OF r assms(2)] hget_hash_bucket [OF r assms(2)] table_slot_bucket [OF r]
      ht_find_node [OF r, of "cstr key"]
    by (auto simp: hget_def value_at_def split: option.splits)
  then show ?thesis
    using ht_bindings_find [of h "cstr key"]
    by (cases "ht_find h (cstr key)"; cases "ht_bindings h (cstr key)") auto
qed

section \<open>hput\<close>

lemma hput_full: "unat (available_node_count h) = 0 \<Longrightarrow> hput h key v = Some (-1, h)"
  by (simp add: hput_def unat_eq_0 word_less_nat_alt)

text \<open>The pool's first node goes to the end of the key's chain.\<close>

lemma hput_room:
  assumes r: "rep h cs (a # pool)" and k: "0 \<in> set key" and len: "length (cstr key) < 20"
  defines "i \<equiv> bucket h (cstr key)"
  shows "\<exists>h' n. hput h key v = Some (0, h') \<and> rep h' (cs[i := cs ! i @ [a]]) pool \<and>
    table_size h' = table_size h \<and> nodes h a = Some n \<and>
    nodes h' a = Some (n\<lparr>nkey := cstr key @ drop (length (cstr key)) (nkey n), nvalue := v, nnext := None\<rparr>) \<and>
    (\<forall>b. b \<noteq> a \<longrightarrow> map_option (\<lambda>n. (nkey n, nvalue n)) (nodes h' b) =
                 map_option (\<lambda>n. (nkey n, nvalue n)) (nodes h b))"
proof -
  have i: "i < length cs" unfolding i_def by (rule bucket_less [OF r])
  have it: "i < length (table h)" using r i by (simp add: rep_def)
  have avail: "\<not> available_node_count h < 1"
    using r by (auto simp: rep_def word_less_nat_alt)
  obtain n where n: "nodes h a = Some n" "length (nkey n) = 20" "nkey n ! 19 = 0"
    using rep_node [OF r, of a] by auto
  have chs: "chain (nodes h) (table h ! j) (cs ! j)" if "j < length cs" for j
    using r that by (simp add: rep_def)
  note ch = chs [OF i]
  have pl: "nodepool h = Some a" "chain (nodes h) (nnext n) pool" using r n by (auto simp: rep_def)
  have dist: "distinct (concat cs @ a # pool)" using r by (simp add: rep_def)
  have a_new: "a \<notin> set (cs ! j)" if "j < length cs" for j
    using dist set_nth_concat [OF that, of a] by auto
  have walk: "walk_end h (Table i) = Some (end_slot (Table i) (cs ! i))"
    by (rule walk_end_chain [OF _ ch]) (simp add: it)
  note hash = hget_hash_bucket [OF r k, folded i_def] table_slot_bucket [OF r, of "cstr key", folded i_def]
  let ?key = "cstr key @ drop (length (cstr key)) (nkey n)"
  have cp: "strncpy_exact (nkey n) key (length (cstr key)) = Some ?key"
    using len n take_strlen [OF strlen_Some [OF k]] by (simp add: strncpy_exact_def)
  have key20: "length ?key = 20" "?key ! 19 = 0" using len n by (auto simp: nth_append)
  let ?new = "n\<lparr>nkey := ?key, nvalue := v, nnext := None\<rparr>"
  have cnt: "unat (available_node_count h - 1) = length pool"
    by (rule unat_minus_1) (use r in \<open>simp add: rep_def\<close>)
  have ms: "mset (concat (cs[i := cs ! i @ [a]]) @ pool) = mset (concat cs @ a # pool)"
    using mset_concat_update [OF i, of "cs ! i @ [a]"] by simp
  show ?thesis
  proof (cases "cs ! i" rule: rev_cases)
    case Nil
    let ?h' = "h\<lparr>table := (table h)[i := Some a], nodepool := nnext n,
      nodes := (nodes h)(a \<mapsto> ?new), available_node_count := available_node_count h - 1\<rparr>"
    have put: "hput h key v = Some (0, ?h')"
      using avail hash walk Nil it pl n cp strlen_Some [OF k] by (simp add: hput_def)
    have "rep ?h' (cs[i := cs ! i @ [a]]) pool"
    proof (rule rep_move [OF r])
      fix j assume j: "j < length cs"
      show "chain (nodes ?h') (table ?h' ! j) (cs[i := cs ! i @ [a]] ! j)"
        using chs [OF j] i it a_new [OF j] Nil by (cases "j = i") simp_all
    next
      show "chain (nodes ?h') (nodepool ?h') pool" using pl dist by simp
    next
      fix b assume "b \<in> set (concat cs @ a # pool)"
      then show "\<exists>n. nodes ?h' b = Some n \<and> length (nkey n) = 20 \<and> nkey n ! 19 = 0"
        using rep_node [OF r, of b] key20 by (cases "b = a") auto
    qed (use cnt ms in auto)
    with put n show ?thesis by auto
  next
    case (snoc pre l)
    then have l: "l \<noteq> a" "l \<notin> set pre" "l \<in> set (cs ! i)"
      using a_new [OF i] distinct_nth_concat [of cs i] dist i by auto
    obtain m where m: "nodes h l = Some m" "length (nkey m) = 20" "nkey m ! 19 = 0"
      using rep_node [OF r, of l] set_nth_concat [OF i l(3)] by auto
    let ?h' = "h\<lparr>nodepool := nnext n,
      nodes := (nodes h)(l \<mapsto> m\<lparr>nnext := Some a\<rparr>, a \<mapsto> ?new),
      available_node_count := available_node_count h - 1\<rparr>"
    have put: "hput h key v = Some (0, ?h')"
      using avail hash walk snoc pl n m l cp strlen_Some [OF k] by (simp add: hput_def end_slot_def)
    have "rep ?h' (cs[i := cs ! i @ [a]]) pool"
    proof (rule rep_move [OF r])
      fix j assume j: "j < length cs"
      show "chain (nodes ?h') (table ?h' ! j) (cs[i := cs ! i @ [a]] ! j)"
      proof (cases "j = i")
        case True
        have "chain ((nodes h)(a \<mapsto> ?new)) (table h ! i) (pre @ l # [])"
          using ch snoc a_new [OF i] by simp
        from chain_update_last [OF this l(2), of "m\<lparr>nnext := Some a\<rparr>" "[a]"] l
        show ?thesis using True snoc i it by (simp add: fun_upd_twist)
      next
        case False
        then have "l \<notin> set (cs ! j)"
          using distinct_concat_nth [of cs i j] dist i j l by auto
        with False chs [OF j] a_new [OF j] show ?thesis by simp
      qed
    next
      have "l \<notin> set pool" using dist set_nth_concat [OF i l(3)] by auto
      then show "chain (nodes ?h') (nodepool ?h') pool" using pl dist by simp
    next
      fix b assume "b \<in> set (concat cs @ a # pool)"
      then show "\<exists>n. nodes ?h' b = Some n \<and> length (nkey n) = 20 \<and> nkey n ! 19 = 0"
        using rep_node [OF r, of b] key20 m by (cases "b = a"; cases "b = l") auto
    qed (use cnt ms in auto)
    with put n l m show ?thesis by auto
  qed
qed


text \<open>
  The key that ends up in the node: \<open>strncpy\<close> copies \<open>strlen(key)\<close> bytes and no NUL, so what is
  left of the node's previous key still follows.
\<close>

definition stored_key :: "hashtable \<Rightarrow> byte list \<Rightarrow> byte list" where
  "stored_key h s = (case pool_of h of [] \<Rightarrow> s
     | a # _ \<Rightarrow> (case nodes h a of None \<Rightarrow> s | Some n \<Rightarrow> cstr (s @ drop (length s) (nkey n))))"

definition pool_clean :: "hashtable \<Rightarrow> bool" where
  "pool_clean h \<longleftrightarrow> (\<forall>a \<in> set (pool_of h). case nodes h a of None \<Rightarrow> False | Some n \<Rightarrow> nkey n = replicate 20 0)"

lemma holds_value_cong:
  assumes "map_option (\<lambda>n. (nkey n, nvalue n)) (nodes h' b) = map_option (\<lambda>n. (nkey n, nvalue n)) (nodes h b)"
  shows "holds h' s b = holds h s b" "value_at h' b = value_at h b"
  using assms by (cases "nodes h b"; cases "nodes h' b"; simp add: holds_def value_at_def)+

lemma bindings_of_cong:
  assumes "\<And>b. b \<in> set xs \<Longrightarrow>
    map_option (\<lambda>n. (nkey n, nvalue n)) (nodes h' b) = map_option (\<lambda>n. (nkey n, nvalue n)) (nodes h b)"
  shows "map (value_at h') (filter (holds h' s) xs) = map (value_at h) (filter (holds h s) xs)"
  using assms
proof (induction xs)
  case (Cons b xs)
  then show ?case using holds_value_cong [of h' b h] by simp
qed simp

lemma hput_bindings:
  assumes wf: "ht_wf h" and room: "0 < unat (available_node_count h)"
    and k: "0 \<in> set key" and len: "length (cstr key) < 20"
  shows "\<exists>h'. hput h key v = Some (0, h') \<and> ht_wf h' \<and>
    available_node_count h' = available_node_count h - 1 \<and> pool_of h' = tl (pool_of h) \<and>
    table_size h' = table_size h \<and> (pool_clean h \<longrightarrow> pool_clean h') \<and>
    (\<forall>s. ht_bindings h' s =
       (if s = stored_key h (cstr key) \<and> bucket h s = bucket h (cstr key)
        then ht_bindings h s @ [v] else ht_bindings h s))"
proof -
  have r: "rep h (chains h) (pool_of h)" using wf by (simp add: ht_wf_def)
  with room obtain a pool where pl: "pool_of h = a # pool" by (cases "pool_of h") (auto simp: rep_def)
  define i where "i = bucket h (cstr key)"
  obtain h' n where h': "hput h key v = Some (0, h')"
    "rep h' ((chains h)[i := chains h ! i @ [a]]) pool" "table_size h' = table_size h" "nodes h a = Some n"
    "nodes h' a = Some (n\<lparr>nkey := cstr key @ drop (length (cstr key)) (nkey n), nvalue := v, nnext := None\<rparr>)"
    and same: "\<And>b. b \<noteq> a \<Longrightarrow> map_option (\<lambda>n. (nkey n, nvalue n)) (nodes h' b) =
                 map_option (\<lambda>n. (nkey n, nvalue n)) (nodes h b)"
    using hput_room [OF r [unfolded pl] k len] unfolding i_def by blast
  have i: "i < length (chains h)" unfolding i_def by (rule bucket_less [OF r])
  have dist: "distinct (concat (chains h) @ a # pool)" using r pl by (simp add: rep_def)
  have ch': "chains h' = (chains h)[i := chains h ! i @ [a]]" and pl': "pool_of h' = pool"
    using rep_chains [OF h'(2)] by auto
  have bk: "bucket h' s = bucket h s" for s by (simp add: bucket_def h'(3))
  have av: "available_node_count h' = available_node_count h - 1"
  proof (rule word_unat_eq_iff [THEN iffD2])
    have "unat (available_node_count h) = Suc (length pool)" using r pl by (simp add: rep_def)
    from unat_minus_1 [OF this] h'(2) show "unat (available_node_count h') = unat (available_node_count h - 1)"
      by (simp add: rep_def)
  qed
  have a_holds: "holds h' s a = (s = stored_key h (cstr key))" for s
    using h'(4,5) pl by (auto simp: holds_def stored_key_def)
  have a_new: "a \<notin> set (chains h ! j)" if "j < length (chains h)" for j
    using dist set_nth_concat [OF that, of a] by auto
  have "ht_bindings h' s =
       (if s = stored_key h (cstr key) \<and> bucket h s = bucket h (cstr key)
        then ht_bindings h s @ [v] else ht_bindings h s)" for s
  proof -
    have old: "map (value_at h') (filter (holds h' s) (chains h ! bucket h s)) = ht_bindings h s"
      unfolding ht_bindings_def
      by (rule bindings_of_cong, rule same) (use a_new [OF bucket_less [OF r]] in auto)
    have va: "value_at h' a = v" by (simp add: value_at_def h'(5))
    show ?thesis
    proof (cases "bucket h s = i")
      case True
      then show ?thesis using old i by (auto simp: ht_bindings_def ch' bk a_holds va i_def)
    next
      case False
      then show ?thesis using old by (auto simp: ht_bindings_def ch' bk i_def)
    qed
  qed
  moreover have "pool_clean h'" if "pool_clean h"
    unfolding pool_clean_def pl'
  proof
    fix b assume b: "b \<in> set pool"
    with dist have "b \<noteq> a" by auto
    moreover have "case nodes h b of None \<Rightarrow> False | Some n \<Rightarrow> nkey n = replicate 20 0"
      using that b pl by (simp add: pool_clean_def)
    ultimately show "case nodes h' b of None \<Rightarrow> False | Some n \<Rightarrow> nkey n = replicate 20 0"
      using same [of b] by (cases "nodes h b"; cases "nodes h' b") auto
  qed
  ultimately show ?thesis using h'(1,3) rep_wf [OF h'(2)] av pl pl' by auto
qed

lemma stored_key_clean:
  "ht_wf h \<Longrightarrow> pool_clean h \<Longrightarrow> 0 \<notin> set s \<Longrightarrow> stored_key h s = s"
  unfolding stored_key_def pool_clean_def
  by (auto simp: cstr_append_replicate split: list.splits option.splits)


section \<open>hdel\<close>

lemma hdel_missing:
  assumes wf: "ht_wf h" and k: "0 \<in> set key" and none: "ht_bindings h (cstr key) = []"
  shows "hdel h key = Some (-2, h)"
proof -
  have r: "rep h (chains h) (pool_of h)" using wf by (simp add: ht_wf_def)
  have "ht_find h (cstr key) = None" using none by (simp add: ht_bindings_find)
  then show ?thesis
    using walk_key_bucket [OF r k] hget_hash_bucket [OF r k] table_slot_bucket [OF r]
    by (simp add: hdel_def)
qed

text \<open>The first node with the key leaves its chain and becomes the head of the pool.\<close>

lemma hdel_found:
  assumes r: "rep h cs pool" and k: "0 \<in> set key" and f: "ht_find h (cstr key) = Some a"
  defines "i \<equiv> bucket h (cstr key)"
  defines "pre \<equiv> takeWhile (\<lambda>b. \<not> holds h (cstr key) b) (cs ! i)"
  shows "\<exists>h' post. hdel h key = Some (0, h') \<and> cs ! i = pre @ a # post \<and>
    rep h' (cs[i := pre @ post]) (a # pool) \<and> table_size h' = table_size h \<and>
    (\<forall>b. map_option (\<lambda>n. (nkey n, nvalue n)) (nodes h' b) =
         map_option (\<lambda>n. (nkey n, nvalue n)) (nodes h b))"
proof -
  have i: "i < length cs" unfolding i_def by (rule bucket_less [OF r])
  have it: "i < length (table h)" using r i by (simp add: rep_def)
  have f': "find (holds h (cstr key)) (cs ! i) = Some a"
    using f rep_chains [OF r] by (simp add: ht_find_def i_def)
  then obtain post where post: "cs ! i = pre @ a # post" using find_takeWhile_split [OF f'] pre_def by auto
  have dist: "distinct (concat cs @ pool)" using r by (simp add: rep_def)
  have dci: "distinct (pre @ a # post)" using distinct_nth_concat [OF _ i] dist post by auto
  have chs: "chain (nodes h) (table h ! j) (cs ! j)" if "j < length cs" for j
    using r that by (simp add: rep_def)
  have in_c: "b \<in> set (concat cs)" if "b \<in> set (pre @ a # post)" for b
    using that post set_nth_concat [OF i, of b] by simp
  have a_other: "b \<notin> set (cs ! j)" if "j < length cs" "j \<noteq> i" "b \<in> set (pre @ a # post)" for j b
    using distinct_concat_nth [of cs i j] dist i that post by auto
  have not_pool: "b \<notin> set pool" if "b \<in> set (pre @ a # post)" for b
    using in_c [OF that] dist by auto
  obtain n where n: "nodes h a = Some n" using rep_node [OF r, of a] in_c [of a] by auto
  have start: "hget_hash h key = Some (int i)" "table_slot h (int i) = Some (Table i)"
    unfolding i_def by (rule hget_hash_bucket [OF r k], rule table_slot_bucket [OF r])
  have walk: "walk_key h key (Table i) = Some (end_slot (Table i) pre)"
    "load h (end_slot (Table i) pre) = Some (Some a)"
    using walk_key_bucket [OF r k] f by (simp_all add: i_def pre_def)
  have pl: "chain (nodes h) (nodepool h) pool" using r by (simp add: rep_def)
  have cnt: "unat (available_node_count h + 1) = Suc (length pool)"
    by (rule unat_plus_1) (use r in \<open>auto simp: rep_def\<close>)
  have ms: "mset (concat (cs[i := pre @ post]) @ a # pool) = mset (concat cs @ pool)"
    using mset_concat_update [OF i, of "pre @ post"] post by simp
  show ?thesis
  proof (cases pre rule: rev_cases)
    case Nil
    let ?h' = "h\<lparr>table := (table h)[i := nnext n], nodepool := Some a,
      nodes := (nodes h)(a \<mapsto> n\<lparr>nnext := nodepool h\<rparr>),
      available_node_count := available_node_count h + 1\<rparr>"
    have del: "hdel h key = Some (0, ?h')" using start walk Nil it n by (simp add: hdel_def)
    have "rep ?h' (cs[i := pre @ post]) (a # pool)"
    proof (rule rep_move [OF r])
      fix j assume j: "j < length cs"
      show "chain (nodes ?h') (table ?h' ! j) (cs[i := pre @ post] ! j)"
        using chs [OF j] chs [OF i] i it a_other [OF j, of a] Nil post n dci
        by (cases "j = i") simp_all
    next
      show "chain (nodes ?h') (nodepool ?h') (a # pool)" using pl not_pool [of a] by simp
    next
      fix b assume "b \<in> set (concat cs @ pool)"
      then show "\<exists>n. nodes ?h' b = Some n \<and> length (nkey n) = 20 \<and> nkey n ! 19 = 0"
        using rep_node [OF r, of b] n by (cases "b = a") auto
    qed (use cnt ms in auto)
    with del n post show ?thesis by auto
  next
    case (snoc pre' l)
    obtain m where m: "nodes h l = Some m" "length (nkey m) = 20" "nkey m ! 19 = 0"
      using rep_node [OF r, of l] in_c [of l] snoc by auto
    have l: "l \<noteq> a" "l \<notin> set pre'" "a \<notin> set (pre' @ l # post)" using dci snoc by auto
    let ?h' = "h\<lparr>nodepool := Some a,
      nodes := (nodes h)(l \<mapsto> m\<lparr>nnext := nnext n\<rparr>, a \<mapsto> n\<lparr>nnext := nodepool h\<rparr>),
      available_node_count := available_node_count h + 1\<rparr>"
    have del: "hdel h key = Some (0, ?h')"
      using start walk snoc n m l by (simp add: hdel_def end_slot_def)
    have ci: "chain (nodes h) (table h ! i) (pre' @ l # a # post)" using chs [OF i] post snoc by simp
    have "rep ?h' (cs[i := pre @ post]) (a # pool)"
    proof (rule rep_move [OF r])
      fix j assume j: "j < length cs"
      show "chain (nodes ?h') (table ?h' ! j) (cs[i := pre @ post] ! j)"
      proof (cases "j = i")
        case True
        have "chain (nodes h) (Some a) (a # post)"
          using chain_suffix [of "nodes h" "table h ! i" "pre' @ [l]" a post] ci by simp
        then have "chain (nodes h) (nnext n) post" using n by simp
        then have "chain ((nodes h)(l \<mapsto> m\<lparr>nnext := nnext n\<rparr>)) (table h ! i) (pre' @ l # post)"
          using chain_update_last [OF ci l(2), of "m\<lparr>nnext := nnext n\<rparr>" post] dci snoc by simp
        then show ?thesis using True snoc i l by simp
      next
        case False
        then show ?thesis using chs [OF j] a_other [OF j False, of a] a_other [OF j False, of l] snoc by simp
      qed
    next
      show "chain (nodes ?h') (nodepool ?h') (a # pool)"
        using pl not_pool [of a] not_pool [of l] snoc by simp
    next
      fix b assume "b \<in> set (concat cs @ pool)"
      then show "\<exists>n. nodes ?h' b = Some n \<and> length (nkey n) = 20 \<and> nkey n ! 19 = 0"
        using rep_node [OF r, of b] n m by (cases "b = a"; cases "b = l") auto
    qed (use cnt ms in auto)
    with del n m l post show ?thesis by auto
  qed
qed


lemma hdel_bindings:
  assumes wf: "ht_wf h" and k: "0 \<in> set key" and some: "ht_bindings h (cstr key) \<noteq> []"
  shows "\<exists>h'. hdel h key = Some (0, h') \<and> ht_wf h' \<and>
    length (pool_of h') = Suc (length (pool_of h)) \<and> table_size h' = table_size h \<and>
    (\<forall>s. ht_bindings h' s = (if s = cstr key then tl (ht_bindings h s) else ht_bindings h s))"
proof -
  have r: "rep h (chains h) (pool_of h)" using wf by (simp add: ht_wf_def)
  define i where "i = bucket h (cstr key)"
  obtain a where f: "ht_find h (cstr key) = Some a" using some ht_bindings_find(1) by (cases "ht_find h (cstr key)") auto
  define pre where "pre = takeWhile (\<lambda>b. \<not> holds h (cstr key) b) (chains h ! i)"
  obtain h' post where h': "hdel h key = Some (0, h')" "chains h ! i = pre @ a # post"
    "rep h' ((chains h)[i := pre @ post]) (a # pool_of h)" "table_size h' = table_size h"
    and same: "\<And>b. map_option (\<lambda>n. (nkey n, nvalue n)) (nodes h' b) =
         map_option (\<lambda>n. (nkey n, nvalue n)) (nodes h b)"
    using hdel_found [OF r k f] unfolding i_def pre_def by blast
  have i: "i < length (chains h)" unfolding i_def by (rule bucket_less [OF r])
  have ch': "chains h' = (chains h)[i := pre @ post]" and pl': "pool_of h' = a # pool_of h"
    using rep_chains [OF h'(3)] by auto
  have bk: "bucket h' s = bucket h s" for s by (simp add: bucket_def h'(4))
  have old: "map (value_at h') (filter (holds h' s) xs) = map (value_at h) (filter (holds h s) xs)" for s xs
    by (rule bindings_of_cong) (rule same)
  have pre_none: "filter (holds h (cstr key)) pre = []"
    using set_takeWhileD by (fastforce simp: pre_def filter_empty_conv)
  have a_key: "holds h s a = (s = cstr key)" for s
    using ht_find_node(2) [OF r f] by (auto simp: holds_def)
  have "ht_bindings h' s = (if s = cstr key then tl (ht_bindings h s) else ht_bindings h s)" for s
  proof (cases "bucket h s = i")
    case True
    then show ?thesis using i h'(2) pre_none by (auto simp: ht_bindings_def ch' bk old a_key)
  next
    case False
    then have "s \<noteq> cstr key" by (auto simp: i_def)
    with False show ?thesis by (simp add: ht_bindings_def ch' bk old)
  qed
  with h'(1,4) rep_wf [OF h'(3)] pl' show ?thesis by auto
qed


section \<open>Creating the table\<close>

definition all_zero_keys :: "hashtable \<Rightarrow> nat list \<Rightarrow> bool" where
  "all_zero_keys h as \<longleftrightarrow> (\<forall>a \<in> set as. case nodes h a of None \<Rightarrow> False | Some n \<Rightarrow> nkey n = replicate 20 0)"

lemma create_nodes_chain:
  assumes "chain (nodes h) (nodepool h) done" "all_zero_keys h done"
    and "distinct (done @ as)" "temp = (if done = [] then None else Some (last done))"
  shows "\<exists>h'. create_nodes (length as) (map Some as) temp h = Some (0, h') \<and>
    (as = [] \<longrightarrow> h' = h) \<and> chain (nodes h') (if done @ as = [] then None else nodepool h') (done @ as) \<and>
    all_zero_keys h' (done @ as) \<and> table h' = table h \<and> table_size h' = table_size h \<and>
    available_node_count h' = available_node_count h"
  using assms
proof (induction as arbitrary: h "done" temp)
  case Nil
  then show ?case by auto
next
  case (Cons a as)
  let ?h1 = "h\<lparr>nodes := (nodes h)(a \<mapsto> calloc_node)\<rparr>"
  have a: "a \<notin> set done" "distinct (done @ [a])" using Cons.prems(3) by auto
  show ?case
  proof (cases "done" rule: rev_cases)
    case Nil
    let ?h2 = "?h1\<lparr>nodepool := Some a\<rparr>"
    have z: "all_zero_keys ?h2 [a]" by (simp add: all_zero_keys_def calloc_node_def)
    have c: "chain (nodes ?h2) (nodepool ?h2) [a]" by (simp add: calloc_node_def)
    show ?thesis
      using Cons.IH [OF c z, of "Some a"] Cons.prems Nil by auto
  next
    case (snoc d t)
    obtain m where m: "nodes h t = Some m"
      using Cons.prems(1) snoc chain_node [of "nodes h" "nodepool h" "done" t] by auto
    have t: "t \<noteq> a" "t \<notin> set d" using a snoc by auto
    let ?h2 = "?h1\<lparr>nodes := (nodes h)(a \<mapsto> calloc_node, t \<mapsto> m\<lparr>nnext := Some a\<rparr>)\<rparr>"
    have "chain ((nodes h)(a \<mapsto> calloc_node)) (nodepool h) (d @ t # [])"
      using Cons.prems(1) snoc a by simp
    from chain_update_last [OF this t(2), of "m\<lparr>nnext := Some a\<rparr>" "[a]"] t
    have c: "chain (nodes ?h2) (nodepool ?h2) (done @ [a])" using snoc by (simp add: calloc_node_def)
    have z: "all_zero_keys ?h2 (done @ [a])"
      using Cons.prems(2) m snoc t by (auto simp: all_zero_keys_def calloc_node_def split: option.splits)
    show ?thesis
      using Cons.IH [OF c z, of "Some a"] Cons.prems snoc m t by auto
  qed
qed

lemma sum_replicate_nil: "concat (replicate n []) = []"
  by (induction n) auto

lemma hcreate_ok:
  assumes "length as = unat sz" "0 < sz" "unat sz < 2 ^ 31" "distinct as"
  shows "\<exists>h'. hcreate_table True (map Some as) h sz = Some (0, h') \<and> ht_wf h' \<and> pool_clean h' \<and>
    pool_of h' = as \<and> table_size h' = sz \<and> (\<forall>s. ht_bindings h' s = [])"
proof -
  let ?h0 = "h\<lparr>available_node_count := sz, table_size := sz, table := replicate (unat sz) None\<rparr>"
  have ne: "as \<noteq> []" using assms by (auto simp: word_less_nat_alt)
  obtain a as' where as: "as = a # as'" using ne by (cases as) auto
  let ?h1 = "?h0\<lparr>nodes := (nodes h)(a \<mapsto> calloc_node), nodepool := Some a\<rparr>"
  have "\<exists>h'. create_nodes (length as') (map Some as') (Some a) ?h1 = Some (0, h') \<and>
    (as' = [] \<longrightarrow> h' = ?h1) \<and> chain (nodes h') (if [a] @ as' = [] then None else nodepool h') ([a] @ as') \<and>
    all_zero_keys h' ([a] @ as') \<and> table h' = table ?h1 \<and> table_size h' = table_size ?h1 \<and>
    available_node_count h' = available_node_count ?h1"
    by (rule create_nodes_chain) (use assms(4) as in \<open>auto simp: calloc_node_def all_zero_keys_def\<close>)
  then obtain h' where h': "create_nodes (length as') (map Some as') (Some a) ?h1 = Some (0, h')"
    "chain (nodes h') (nodepool h') as" "all_zero_keys h' as" "table h' = replicate (unat sz) None"
    "table_size h' = sz" "available_node_count h' = sz"
    using as by auto
  have cr: "hcreate_table True (map Some as) h sz = Some (0, h')"
    using h'(1) assms(1) as by (simp add: hcreate_table_def del: length_greater_0_conv flip: assms(1))
  have r: "rep h' (replicate (unat sz) []) as"
    unfolding rep_def using assms h' by (auto simp: sum_replicate_nil all_zero_keys_def split: option.splits)
  have "pool_clean h'" using h'(3) rep_chains [OF r] by (simp add: pool_clean_def all_zero_keys_def)
  moreover have "ht_bindings h' s = []" for s
  proof -
    have "chains h' ! bucket h' s = []"
      using rep_chains [OF r] bucket_less [OF r, of s] by (metis length_replicate nth_replicate)
    then show ?thesis by (simp add: ht_bindings_def)
  qed
  ultimately show ?thesis using cr rep_wf [OF r] rep_chains [OF r] h'(5) by auto
qed

lemma create_nodes_null:
  "length as < k \<Longrightarrow> distinct as \<Longrightarrow> (\<forall>t. temp = Some t \<longrightarrow> nodes h t \<noteq> None) \<Longrightarrow>
   \<exists>h'. create_nodes k (map Some as @ None # rest) temp h = Some (-2, h')"
proof (induction as arbitrary: k temp h)
  case Nil
  then show ?case by (cases k) auto
next
  case (Cons a as)
  then obtain k' where k: "k = Suc k'" "length as < k'" by (cases k) auto
  let ?h1 = "h\<lparr>nodes := (nodes h)(a \<mapsto> calloc_node)\<rparr>"
  show ?case
  proof (cases temp)
    case None
    with Cons.IH [of k' "Some a" "?h1\<lparr>nodepool := Some a\<rparr>"] Cons.prems k show ?thesis by simp
  next
    case (Some t)
    then obtain m where m: "nodes ?h1 t = Some m" using Cons.prems(3) by (cases "t = a") auto
    let ?h2 = "?h1\<lparr>nodes := (nodes ?h1)(t \<mapsto> m\<lparr>nnext := Some a\<rparr>)\<rparr>"
    have "nodes ?h2 a \<noteq> None" by (cases "t = a") auto
    with Cons.IH [of k' "Some a" ?h2] Cons.prems k Some m show ?thesis
      by (auto simp: Let_def)
  qed
qed


section \<open>The interface the receiver relies on\<close>

text \<open>
  A table that is only put to and read from: each key has the list of its values, oldest first,
  \<open>put\<close> adds one while there is room, \<open>get\<close> reads the oldest.  \<open>key_of\<close> is the string an array
  argument holds, \<open>reads\<close> the integer a stored value is read back as.
\<close>

fun put_all :: "('s \<Rightarrow> 'a \<Rightarrow> 'v \<Rightarrow> (int \<times> 's) option) \<Rightarrow> 's \<Rightarrow> ('a \<times> 'v) list \<Rightarrow> 's option" where
  "put_all put s [] = Some s"
| "put_all put s ((a, v) # kvs) = do { (_, s') \<leftarrow> put s a v; put_all put s' kvs }"

locale binding_table =
  fixes invar :: "'s \<Rightarrow> bool"
    and bindings :: "'s \<Rightarrow> 'k \<Rightarrow> 'v list"
    and room :: "'s \<Rightarrow> nat"
    and key_of :: "'a \<Rightarrow> 'k"
    and okkey :: "'a \<Rightarrow> bool"
    and put :: "'s \<Rightarrow> 'a \<Rightarrow> 'v \<Rightarrow> (int \<times> 's) option"
    and get :: "'s \<Rightarrow> 'a \<Rightarrow> int option"
    and reads :: "'v \<Rightarrow> int"
  assumes put_full: "invar s \<Longrightarrow> room s = 0 \<Longrightarrow> put s a v = Some (-1, s)"
    and put_room: "invar s \<Longrightarrow> okkey a \<Longrightarrow> 0 < room s \<Longrightarrow>
      \<exists>s'. put s a v = Some (0, s') \<and> invar s' \<and> room s = Suc (room s') \<and>
        bindings s' = (bindings s)(key_of a := bindings s (key_of a) @ [v])"
    and get_oldest: "invar s \<Longrightarrow> okkey a \<Longrightarrow>
      get s a = Some (case bindings s (key_of a) of [] \<Rightarrow> -2 | v # _ \<Rightarrow> reads v)"
begin

lemma put_all_bindings:
  assumes "invar s" "\<forall>(a, v) \<in> set kvs. okkey a" "length kvs \<le> room s"
  shows "\<exists>s'. put_all put s kvs = Some s' \<and> invar s' \<and> room s = room s' + length kvs \<and>
    (\<forall>k. bindings s' k = bindings s k @ map snd (filter (\<lambda>(a, v). key_of a = k) kvs))"
  using assms
proof (induction kvs arbitrary: s)
  case (Cons kv kvs)
  obtain a v where kv: "kv = (a, v)" by (cases kv)
  obtain s1 where s1: "put s a v = Some (0, s1)" "invar s1" "room s = Suc (room s1)"
    "bindings s1 = (bindings s)(key_of a := bindings s (key_of a) @ [v])"
    using put_room [of s a v] Cons.prems kv by auto
  with Cons.IH [of s1] Cons.prems kv show ?case by auto
qed simp

lemma get_after_put_all:
  assumes "invar s" "\<forall>(a, v) \<in> set kvs. okkey a" "length kvs \<le> room s" "okkey b"
  shows "\<exists>s'. put_all put s kvs = Some s' \<and> invar s' \<and>
    get s' b = Some (case bindings s (key_of b) @ map snd (filter (\<lambda>(a, v). key_of a = key_of b) kvs) of
      [] \<Rightarrow> -2 | v # _ \<Rightarrow> reads v)"
proof -
  obtain s' where "put_all put s kvs = Some s'" "invar s'"
    "\<forall>k. bindings s' k = bindings s k @ map snd (filter (\<lambda>(a, v). key_of a = k) kvs)"
    using put_all_bindings [OF assms(1-3)] by blast
  with get_oldest [of s' b] assms(4) show ?thesis by simp
qed

lemma get_after_put:
  assumes "invar s" "okkey a" "okkey b" "0 < room s"
  shows "\<exists>s'. put s a v = Some (0, s') \<and> invar s' \<and>
    get s' b = (if key_of b = key_of a \<and> bindings s (key_of a) = [] then Some (reads v) else get s b)"
proof -
  obtain s' where "put s a v = Some (0, s')" "invar s'"
    "bindings s' = (bindings s)(key_of a := bindings s (key_of a) @ [v])"
    using put_room [OF assms(1,2,4)] by auto
  then show ?thesis
    using get_oldest assms(1,3) by (auto split: list.splits)
qed

end

interpretation ht: binding_table
  "\<lambda>h. ht_wf h \<and> pool_clean h" ht_bindings "\<lambda>h. unat (available_node_count h)"
  cstr "\<lambda>a. 0 \<in> set a \<and> length (cstr a) < 20" hput hget sint
proof unfold_locales
  fix h and a :: "byte list" and v
  assume h: "ht_wf h \<and> pool_clean h" and a: "0 \<in> set a \<and> length (cstr a) < 20"
  show "hget h a = Some (case ht_bindings h (cstr a) of [] \<Rightarrow> -2 | v # _ \<Rightarrow> sint v)"
    using hget_bindings h a by blast
  assume room: "0 < unat (available_node_count h)"
  have st: "stored_key h (cstr a) = cstr a" using h stored_key_clean cstr_no_nul by blast
  obtain h' where h': "hput h a v = Some (0, h')" "ht_wf h'"
    "available_node_count h' = available_node_count h - 1" "pool_clean h'"
    and b: "\<forall>s. ht_bindings h' s =
       (if s = stored_key h (cstr a) \<and> bucket h s = bucket h (cstr a)
        then ht_bindings h s @ [v] else ht_bindings h s)"
    using hput_bindings [OF _ room, of a v] h a by blast
  obtain n where n: "unat (available_node_count h) = Suc n" using room by (cases "unat (available_node_count h)") auto
  have "ht_bindings h' = (ht_bindings h)(cstr a := ht_bindings h (cstr a) @ [v])"
    using b st by auto
  then show "\<exists>h'. hput h a v = Some (0, h') \<and> (ht_wf h' \<and> pool_clean h') \<and>
      unat (available_node_count h) = Suc (unat (available_node_count h')) \<and>
      ht_bindings h' = (ht_bindings h)(cstr a := ht_bindings h (cstr a) @ [v])"
    using h' n unat_minus_1 [OF n] by auto
qed (simp add: hput_full)


section \<open>Properties\<close>

text \<open>Two nodes at the addresses 7 and 9, as the receiver's start makes a thousand of them.\<close>

definition no_table :: hashtable where
  "no_table = \<lparr>table = [], nodepool = None, available_node_count = 0, table_size = 0, nodes = Map.empty\<rparr>"

definition two_nodes :: hashtable where
  "two_nodes = (case hcreate_table True [Some 7, Some 9] no_table 2 of Some (_, h) \<Rightarrow> h | None \<Rightarrow> no_table)"

lemma two_nodes_ok:
  "hcreate_table True [Some 7, Some 9] no_table 2 = Some (0, two_nodes)"
  "ht_wf two_nodes" "pool_clean two_nodes" "pool_of two_nodes = [7, 9]"
  "available_node_count two_nodes = 2" "ht_bindings two_nodes s = []"
proof -
  obtain h where h: "hcreate_table True (map Some [7, 9]) no_table 2 = Some (0, h)" "ht_wf h" "pool_clean h"
    "pool_of h = [7, 9]" "\<forall>s. ht_bindings h s = []"
    using hcreate_ok [of "[7, 9]" 2 no_table] by (auto simp: word_less_nat_alt)
  then have t: "two_nodes = h" by (simp add: two_nodes_def)
  have "unat (available_node_count h) = 2" using h(2,4) by (simp add: ht_wf_def rep_def)
  then have "available_node_count h = 2" by (simp add: word_unat_eq_iff)
  with h t show "hcreate_table True [Some 7, Some 9] no_table 2 = Some (0, two_nodes)"
    "ht_wf two_nodes" "pool_clean two_nodes" "pool_of two_nodes = [7, 9]"
    "available_node_count two_nodes = 2" "ht_bindings two_nodes s = []"
    by auto
qed





text \<open>
  \<open>hdel\<close> of a key the table holds returns 0, gives one node back to the pool, and
  uncovers the next older value put for that key (or -2), leaving every other key's as it was;
  of a key it does not hold, it returns -2 and changes nothing.
\<close>

theorem hdel_uncovers_next:
  assumes "ht_wf h" "0 \<in> set key" "0 \<in> set b"
  shows "if ht_bindings h (cstr key) = [] then hdel h key = Some (-2, h)
    else \<exists>h'. hdel h key = Some (0, h') \<and> ht_wf h' \<and> length (pool_of h') = Suc (length (pool_of h)) \<and>
      hget h' b = (if cstr b = cstr key
        then Some (case tl (ht_bindings h (cstr key)) of [] \<Rightarrow> -2 | v # _ \<Rightarrow> sint v) else hget h b)"
proof (cases "ht_bindings h (cstr key) = []")
  case True
  with hdel_missing [OF assms(1,2)] show ?thesis by simp
next
  case False
  obtain h' where "hdel h key = Some (0, h')" "ht_wf h'" "length (pool_of h') = Suc (length (pool_of h))"
    "\<forall>s. ht_bindings h' s = (if s = cstr key then tl (ht_bindings h s) else ht_bindings h s)"
    using hdel_bindings [OF assms(1,2) False] by blast
  then show ?thesis using False hget_bindings [of h' b] hget_bindings [of h b] assms by simp
qed

theorem hdel_uncovers_next_witness:
  "hdel two_nodes [49, 50, 0] = Some (-2, two_nodes)"
  using hdel_uncovers_next [of two_nodes "[49, 50, 0]" "[51, 0]"] two_nodes_ok by simp

text \<open>Runs of the two operations that change the table.\<close>

datatype table_op = Put "byte list" cint | Del "byte list"

fun table_step :: "hashtable \<Rightarrow> table_op \<Rightarrow> hashtable option" where
  "table_step h (Put k v) = map_option snd (hput h k v)"
| "table_step h (Del k) = map_option snd (hdel h k)"

fun table_run :: "hashtable \<Rightarrow> table_op list \<Rightarrow> hashtable option" where
  "table_run h [] = Some h"
| "table_run h (x # xs) = do { h' \<leftarrow> table_step h x; table_run h' xs }"

fun op_key :: "table_op \<Rightarrow> byte list" where
  "op_key (Put k v) = k" | "op_key (Del k) = k"

lemma table_step_wf:
  assumes "ht_wf h" "0 \<in> set (op_key x)" "length (cstr (op_key x)) < 20"
  shows "\<exists>h'. table_step h x = Some h' \<and> ht_wf h' \<and> table_size h' = table_size h"
proof (cases x)
  case (Put k v)
  with assms hput_full [of h k v] hput_bindings [OF assms(1), of k v] show ?thesis
    by (cases "unat (available_node_count h) = 0") force+
next
  case (Del k)
  with assms hdel_missing [OF assms(1), of k] hdel_bindings [OF assms(1), of k] show ?thesis
    by (cases "ht_bindings h (cstr k) = []") force+
qed

text \<open>
  Claim C32: on a well-formed table every sequence of \<open>hput\<close> and \<open>hdel\<close> with keys that fit
  \<open>key[20]\<close> runs to its end (no walk loops, no bad pointer is followed), keeps the table
  well-formed, and loses no node: those in chains and the free count add up to \<open>table_size\<close>.
\<close>

theorem table_run_conserves_nodes:
  assumes "ht_wf h" "\<forall>x \<in> set xs. 0 \<in> set (op_key x) \<and> length (cstr (op_key x)) < 20"
  shows "\<exists>h'. table_run h xs = Some h' \<and> ht_wf h' \<and>
    length (concat (chains h')) + unat (available_node_count h') = unat (table_size h)"
  using assms
proof (induction xs arbitrary: h)
  case Nil
  then show ?case by (simp add: ht_wf_def rep_def)
next
  case (Cons x xs)
  obtain h1 where "table_step h x = Some h1" "ht_wf h1" "table_size h1 = table_size h"
    using table_step_wf [of h x] Cons.prems by auto
  with Cons.IH [of h1] Cons.prems show ?case by auto
qed

theorem table_run_conserves_nodes_witness:
  "\<exists>h'. table_run two_nodes [Put [49, 50, 0] 5, Del [49, 50, 0], Put [51, 0] 6] = Some h' \<and> ht_wf h' \<and>
    length (concat (chains h')) + unat (available_node_count h') = unat (table_size two_nodes)"
  by (rule table_run_conserves_nodes) (simp_all add: two_nodes_ok cstr_def)

text \<open>
  A recycled node can lose the key put into it.  When the first free node still holds a
  longer previous key, \<open>hput\<close> of a new key returns 0 and uses the node up, and \<open>hget\<close> of that key
  still returns -2: the copied key runs on into the old one.
\<close>

theorem hput_recycled_key_lost:
  assumes "ht_wf h" "0 \<in> set key" "length (cstr key) < 20" "ht_bindings h (cstr key) = []"
    and "pool_of h = a # pool" "nodes h a = Some n" "nkey n ! length (cstr key) \<noteq> 0"
  shows "\<exists>h'. hput h key v = Some (0, h') \<and> hget h' key = Some (-2) \<and> pool_of h' = pool"
proof -
  have r: "rep h (chains h) (a # pool)" using assms(1,5) by (simp add: ht_wf_def)
  then have room: "0 < unat (available_node_count h)" by (simp add: rep_def)
  have "length (nkey n) = 20" using rep_node [OF r, of a] assms(6) by simp
  then have d: "drop (length (cstr key)) (nkey n) \<noteq> []" "hd (drop (length (cstr key)) (nkey n)) \<noteq> 0"
    using assms(3,7) by (simp_all add: hd_drop_conv_nth)
  then obtain x xs where x: "drop (length (cstr key)) (nkey n) = x # xs" "x \<noteq> 0"
    by (cases "drop (length (cstr key)) (nkey n)") auto
  have "takeWhile (\<lambda>b. b \<noteq> 0) (cstr key @ x # xs) = cstr key @ takeWhile (\<lambda>b. b \<noteq> 0) (x # xs)"
    using cstr_no_nul by (intro takeWhile_append2) auto
  then have "stored_key h (cstr key) \<noteq> cstr key"
    using assms(5,6) x by (simp add: stored_key_def cstr_def)
  with hput_bindings [OF assms(1) room assms(2,3), of v] assms(4)
  obtain h' where "hput h key v = Some (0, h')" "ht_wf h'" "pool_of h' = pool" "ht_bindings h' (cstr key) = []"
    using assms(5) by auto
  then show ?thesis using hget_bindings [of h' key] assms(2) by auto
qed


text \<open>A table in which the node 7 was given the key "12", freed, and is first in the pool.\<close>

definition recycled :: hashtable where
  "recycled = (case table_run two_nodes [Put [49, 50, 0] 5, Del [49, 50, 0]] of Some h \<Rightarrow> h | None \<Rightarrow> no_table)"

lemma recycled_ok:
  "ht_wf recycled" "pool_of recycled = [7, 9]"
  "map_option nkey (nodes recycled 7) = Some ([49, 50] @ replicate 18 0)"
  "ht_bindings recycled [51] = []"
proof -
  obtain h1 where h1: "table_step two_nodes (Put [49, 50, 0] 5) = Some h1" "ht_wf h1"
    using table_step_wf [of two_nodes "Put [49, 50, 0] 5"] two_nodes_ok(2) by (auto simp: cstr_def)
  obtain h2 where h2: "table_step h1 (Del [49, 50, 0]) = Some h2" "ht_wf h2"
    using table_step_wf [of h1 "Del [49, 50, 0]"] h1(2) by (auto simp: cstr_def)
  have "recycled = h2" using h1(1) h2(1) by (simp add: recycled_def del: table_step.simps)
  with h2 show "ht_wf recycled" by simp
  show "pool_of recycled = [7, 9]" by code_simp
  show "map_option nkey (nodes recycled 7) = Some ([49, 50] @ replicate 18 0)" by code_simp
  show "ht_bindings recycled [51] = []" by code_simp
qed

theorem hput_recycled_key_lost_witness:
  "\<exists>h'. hput recycled [51, 0] 6 = Some (0, h') \<and> hget h' [51, 0] = Some (-2) \<and> pool_of h' = [9]"
proof -
  obtain n where n: "nodes recycled 7 = Some n" "nkey n = [49, 50] @ replicate 18 0"
    using recycled_ok(3) by auto
  show ?thesis
    by (rule hput_recycled_key_lost [of recycled "[51, 0]" 7 "[9]" n 6])
      (use n recycled_ok in \<open>auto simp: cstr_def\<close>)
qed

text \<open>
  \<open>hcreate_table\<close> returns -1 when the pointer array is not allocated, -2 when one of the
  \<open>table_size\<close> nodes is not, and otherwise 0 with a well-formed empty table whose pool is those
  nodes, in the order they were allocated.
\<close>

theorem hcreate_table_outcomes:
  assumes "0 < sz" "unat sz < 2 ^ 31" "distinct as"
  shows "(\<exists>h'. hcreate_table False callocs h sz = Some (-1, h') \<and> table h' = []) \<and>
    (length as < unat sz \<longrightarrow> (\<exists>h'. hcreate_table True (map Some as @ None # rest) h sz = Some (-2, h'))) \<and>
    (length as = unat sz \<longrightarrow> (\<exists>h'. hcreate_table True (map Some as) h sz = Some (0, h') \<and> ht_wf h' \<and>
      pool_of h' = as \<and> (\<forall>key. 0 \<in> set key \<longrightarrow> hget h' key = Some (-2))))"
proof (intro conjI impI)
  show "\<exists>h'. hcreate_table False callocs h sz = Some (-1, h') \<and> table h' = []"
    by (simp add: hcreate_table_def)
  show "\<exists>h'. hcreate_table True (map Some as @ None # rest) h sz = Some (-2, h')" if "length as < unat sz"
    using create_nodes_null [OF that assms(3)] by (simp add: hcreate_table_def)
  assume "length as = unat sz"
  from hcreate_ok [OF this assms, of h] hget_bindings
  show "\<exists>h'. hcreate_table True (map Some as) h sz = Some (0, h') \<and> ht_wf h' \<and>
      pool_of h' = as \<and> (\<forall>key. 0 \<in> set key \<longrightarrow> hget h' key = Some (-2))"
    by fastforce
qed

theorem hcreate_table_outcomes_witness:
  "(\<exists>h'. hcreate_table True (map Some [7] @ None # []) no_table 2 = Some (-2, h')) \<and>
   (\<exists>h'. hcreate_table True (map Some [7, 9]) no_table 2 = Some (0, h') \<and> ht_wf h' \<and>
      pool_of h' = [7, 9] \<and> (\<forall>key. 0 \<in> set key \<longrightarrow> hget h' key = Some (-2)))"
  using hcreate_table_outcomes [of 2 "[7]" "[]" no_table "[]"]
    hcreate_table_outcomes [of 2 "[7, 9]" "[]" no_table "[]"]
  by (simp add: word_less_nat_alt)

end
