(* ===== verification/Partition.thy ===== *)
theory Partition
  imports CPrelude
begin

text \<open>
  \<open>partition.c\<close>: a shared block starts with a bitmap of \<open>TOTAL_PARTITIONS\<close> bits, one per slot;
  a set bit marks a slot that holds a message not read yet.  \<open>get_subblock\<close> looks for the first
  slot in a given state, \<open>toggle_bit\<close> flips one, and \<open>set_all_bits\<close>, \<open>unset_all_bits\<close> write
  half or all of the bitmap.  The lemmas reduce the byte and shift arithmetic to the predicate
  \<open>used\<close> on slot numbers, which is all the other theories see.
\<close>

section \<open>The code\<close>

definition TOTAL_PARTITIONS :: nat where
  "TOTAL_PARTITIONS = 80"

text \<open>\<open>(bmap[i] >> j) & 1\<close>: the char is signed, widened to int before the shift.\<close>

definition shifted_bit :: "byte \<Rightarrow> nat \<Rightarrow> cint" where
  "shifted_bit b j = signed_drop_bit j (scast b :: cint) AND 1"

function scan_bits :: "byte \<Rightarrow> int \<Rightarrow> nat \<Rightarrow> nat option" where
  "scan_bits b state j =
     (if j < 8 then if state = sint (shifted_bit b j) then Some j else scan_bits b state (Suc j)
      else None)"
  by pat_completeness auto
termination
  by (relation "measure (\<lambda>(b, state, j). 8 - j)") auto

function scan_bytes :: "byte list \<Rightarrow> int \<Rightarrow> nat \<Rightarrow> nat \<Rightarrow> nat option" where
  "scan_bytes bmap state i end_i =
     (if i < end_i then
        case scan_bits (bmap ! i) state 0 of
          Some j \<Rightarrow> Some (i * 8 + j)
        | None \<Rightarrow> scan_bytes bmap state (Suc i) end_i
      else None)"
  by pat_completeness auto
termination
  by (relation "measure (\<lambda>(bmap, state, i, end_i). end_i - i)") auto

declare scan_bits.simps [simp del] scan_bytes.simps [simp del]

definition get_subblock :: "mem \<Rightarrow> int \<Rightarrow> int \<Rightarrow> int" where
  "get_subblock block state type =
     (let bmap_size = TOTAL_PARTITIONS div 8;
          bmap = mread block 0 bmap_size;
          begin_i = (if type = 1 then 0 else if type = 2 then bmap_size div 2 else 0);
          end_i = (if type = 1 then bmap_size div 2 else bmap_size)
      in case scan_bytes bmap state begin_i end_i of Some k \<Rightarrow> int k | None \<Rightarrow> -1)"

text \<open>An index outside the bitmap array is undefined; the xor is done at int width.\<close>

definition toggle_bit :: "int \<Rightarrow> mem \<Rightarrow> mem option" where
  "toggle_bit idx block =
     (let bmap_size = TOTAL_PARTITIONS div 8;
          bmap = mread block 0 bmap_size;
          i = nat idx div 8
      in if 0 \<le> idx \<and> i < bmap_size
         then Some (mwrite block 0 (bmap[i := ucast ((scast (bmap ! i) :: cint) XOR push_bit (nat idx mod 8) 1)]))
         else None)"

text \<open>\<open>memset\<close> writes its value as an unsigned char: \<open>0xFFFFFFFF\<close> becomes 255.\<close>

definition set_all_bits :: "mem \<Rightarrow> int \<Rightarrow> mem" where
  "set_all_bits block type =
     (if type = 1 then mset_bytes block 0 255 5
      else if type = 2 then mset_bytes block 5 255 5
      else if type = 3 then mset_bytes block 0 255 10
      else block)"

definition unset_all_bits :: "mem \<Rightarrow> int \<Rightarrow> mem" where
  "unset_all_bits block type =
     (if type = 1 then mset_bytes block 0 0 5
      else if type = 2 then mset_bytes block 5 0 5
      else if type = 3 then mset_bytes block 0 0 10
      else block)"


section \<open>Slots\<close>

definition used :: "mem \<Rightarrow> nat \<Rightarrow> bool" where
  "used block k = bit (block (k div 8)) (k mod 8)"

text \<open>The slots each type of call looks at.\<close>

definition slots :: "int \<Rightarrow> nat list" where
  "slots type = (if type = 1 then [0 ..< 40] else if type = 2 then [40 ..< 80] else [0 ..< 80])"

lemma set_slots: "set (slots type) = (if type = 1 then {0 ..< 40} else if type = 2 then {40 ..< 80} else {0 ..< 80})"
  by (simp add: slots_def del: upt_rec_numeral)

lemma slots_less: "k \<in> set (slots type) \<Longrightarrow> k < 80"
  by (auto simp: slots_def split: if_splits)

lemma distinct_slots: "distinct (slots type)"
  by (simp add: slots_def)

lemma shifted_bit_bit: "j < 8 \<Longrightarrow> shifted_bit b j = (if bit b j then 1 else 0)"
  unfolding shifted_bit_def
proof (rule bit_word_eqI)
  fix n
  assume "j < 8" "n < LENGTH(32)"
  then show "bit (signed_drop_bit j (scast b :: cint) AND 1) n = bit (if bit b j then 1 else 0 :: cint) n"
    by (cases n; cases "j = 7") (auto simp: bit_simps min_def)
qed

lemma find_append: "find P (xs @ ys) = (case find P xs of None \<Rightarrow> find P ys | Some x \<Rightarrow> Some x)"
  by (induction xs) auto

lemma scan_bits_find:
  "state = 0 \<or> state = 1 \<Longrightarrow> scan_bits b state j = find (\<lambda>j. bit b j = (state = 1)) [j ..< 8]"
proof (induction b state j rule: scan_bits.induct)
  case (1 b state j)
  show ?case
  proof (cases "j < 8")
    case True
    then have "[j ..< 8] = j # [Suc j ..< 8]" by (simp add: upt_conv_Cons)
    then show ?thesis using 1 True by (subst scan_bits.simps) (auto simp: shifted_bit_bit)
  next
    case False
    then show ?thesis by (subst scan_bits.simps) simp
  qed
qed

lemma find_map_shift: "find P (map ((+) c) xs) = map_option ((+) c) (find (\<lambda>x. P (c + x)) xs)"
  by (induction xs) auto

lemma find_cong_set: "(\<And>x. x \<in> set xs \<Longrightarrow> P x = Q x) \<Longrightarrow> find P xs = find Q xs"
  by (induction xs) auto

lemma upt_bytes: "i < n \<Longrightarrow> [i * 8 ..< n * 8] = map ((+) (i * 8)) [0 ..< 8] @ [Suc i * 8 ..< n * 8]"
proof -
  assume "i < n"
  then have "[i * 8 ..< n * 8] = [i * 8 ..< Suc i * 8] @ [Suc i * 8 ..< n * 8]"
    using upt_add_eq_append [of "i * 8" "Suc i * 8" "n * 8 - Suc i * 8"] by simp
  moreover have "[i * 8 ..< Suc i * 8] = map ((+) (i * 8)) [0 ..< 8]"
    by (rule nth_equalityI) auto
  ultimately show ?thesis by simp
qed

lemma scan_bytes_find:
  assumes st: "state = 0 \<or> state = 1" and "end_i \<le> 10"
  shows "scan_bytes (mread block 0 10) state i end_i =
         find (\<lambda>k. used block k = (state = 1)) [i * 8 ..< end_i * 8]"
proof (induction "end_i - i" arbitrary: i)
  case 0
  then show ?case by (subst scan_bytes.simps) simp
next
  case (Suc d)
  then have i: "i < end_i" "d = end_i - Suc i" by auto
  have b: "mread block 0 10 ! i = block i" using i assms(2) by simp
  have f: "find (\<lambda>k. used block k = (state = 1)) (map ((+) (i * 8)) [0 ..< 8]) =
           map_option ((+) (i * 8)) (scan_bits (block i) state 0)"
    unfolding find_map_shift scan_bits_find [OF st]
    by (intro arg_cong [where f = "map_option _"] find_cong_set) (auto simp: used_def)
  show ?case
    unfolding upt_bytes [OF i(1)] find_append f
    using i b Suc.hyps(1) [OF i(2)]
    by (subst scan_bytes.simps) (simp split: option.splits)
qed

lemma get_subblock_find:
  assumes "state = 0 \<or> state = 1"
  shows "get_subblock block state type =
    (case find (\<lambda>k. used block k = (state = 1)) (slots type) of None \<Rightarrow> -1 | Some k \<Rightarrow> int k)"
  using scan_bytes_find [OF assms, of 5 block 0] scan_bytes_find [OF assms, of 10 block 5]
    scan_bytes_find [OF assms, of 10 block 0]
  by (auto simp: get_subblock_def slots_def TOTAL_PARTITIONS_def Let_def split: option.splits)

lemma get_subblock_cases:
  assumes "state = 0 \<or> state = 1"
  obtains (none) "get_subblock block state type = -1" "\<forall>k \<in> set (slots type). used block k \<noteq> (state = 1)"
  | (some) k where "get_subblock block state type = int k" "k \<in> set (slots type)" "k < 80"
      "used block k = (state = 1)" "\<forall>j \<in> set (slots type). used block j = (state = 1) \<longrightarrow> k \<le> j"
proof (cases "find (\<lambda>k. used block k = (state = 1)) (slots type)")
  case None
  then have "\<forall>k \<in> set (slots type). used block k \<noteq> (state = 1)" by (simp add: find_None_iff)
  moreover have "get_subblock block state type = -1" using None assms by (simp add: get_subblock_find)
  ultimately show thesis by (rule none [rotated])
next
  case (Some k)
  then obtain i where i: "i < length (slots type)" "slots type ! i = k" "used block k = (state = 1)"
    "\<forall>j < i. used block (slots type ! j) \<noteq> (state = 1)"
    by (auto simp: find_Some_iff)
  have "k \<le> j" if j: "j \<in> set (slots type)" "used block j = (state = 1)" for j
  proof -
    obtain i' where i': "i' < length (slots type)" "slots type ! i' = j" using j(1) by (auto simp: in_set_conv_nth)
    with i j have "i \<le> i'" by (metis not_le)
    moreover have "sorted (slots type)" by (simp add: slots_def)
    ultimately show ?thesis using i i' sorted_nth_mono by metis
  qed
  then show thesis using some [of k] Some i assms slots_less by (auto simp: get_subblock_find)
qed

definition flip :: "nat \<Rightarrow> mem \<Rightarrow> mem" where
  "flip k block = block(k div 8 := block (k div 8) XOR push_bit (k mod 8) 1)"

lemma xor_int_width: "k < 8 \<Longrightarrow> ucast ((scast (b :: byte) :: cint) XOR push_bit k 1) = b XOR push_bit k 1"
proof (rule bit_word_eqI)
  fix n
  assume "k < 8" "n < LENGTH(8)"
  then show "bit (ucast ((scast b :: cint) XOR push_bit k 1) :: byte) n = bit (b XOR push_bit k 1) n"
    by (auto simp: bit_simps)
qed

lemma toggle_bit_flip: "k < 80 \<Longrightarrow> toggle_bit (int k) block = Some (flip k block)"
proof -
  assume "k < 80"
  then have k: "k div 8 < 10" by simp
  have "mwrite block 0 ((mread block 0 10)[k div 8 := block (k div 8) XOR push_bit (k mod 8) 1]) a = flip k block a" for a
    using k by (cases "a < 10") (auto simp: mwrite_def flip_def nth_list_update)
  then have "mwrite block 0 ((mread block 0 10)[k div 8 := block (k div 8) XOR push_bit (k mod 8) 1]) = flip k block"
    by (rule ext)
  then show ?thesis using k
    by (simp add: toggle_bit_def TOTAL_PARTITIONS_def xor_int_width Let_def del: push_bit_of_1)
qed

lemma used_flip [simp]: "used (flip k block) j = (used block j \<noteq> (j = k))"
proof -
  have "j = k \<longleftrightarrow> j div 8 = k div 8 \<and> j mod 8 = k mod 8" by (metis div_mult_mod_eq)
  then show ?thesis by (auto simp: used_def flip_def bit_simps)
qed

lemma flip_outside [mem_simps]: "k < 80 \<Longrightarrow> 10 \<le> a \<Longrightarrow> flip k block a = block a"
  by (auto simp: flip_def)

lemma flip_flip [simp]: "flip k (flip k block) = block"
  by (rule ext) (simp add: flip_def xor.assoc)

lemma mread_flip [mem_simps]: "k < 80 \<Longrightarrow> 10 \<le> off \<Longrightarrow> mread (flip k block) off n = mread block off n"
  by (rule mread_cong) (simp add: flip_outside)

lemma used_cong: "(\<And>a. a < 10 \<Longrightarrow> b' a = b a) \<Longrightarrow> k < 80 \<Longrightarrow> used b' k = used b k"
  by (simp add: used_def)

lemma used_mwrite [simp]: "10 \<le> off \<Longrightarrow> k < 80 \<Longrightarrow> used (mwrite block off bs) k = used block k"
  by (rule used_cong) (auto simp: mwrite_def)

lemma used_mset_bytes [simp]: "10 \<le> off \<Longrightarrow> k < 80 \<Longrightarrow> used (mset_bytes block off b n) k = used block k"
  by (rule used_cong) (auto simp: mset_bytes_def)

lemma get_subblock_cong:
  "(\<And>k. k < 80 \<Longrightarrow> used b' k = used b k) \<Longrightarrow> state = 0 \<or> state = 1 \<Longrightarrow>
   get_subblock b' state type = get_subblock b state type"
  using find_cong_set [of "slots type" "\<lambda>k. used b' k = (state = 1)" "\<lambda>k. used b k = (state = 1)"] slots_less
  by (auto simp: get_subblock_find)

lemma bit_255: "bit (255 :: byte) n \<longleftrightarrow> n < 8"
proof -
  have "(255 :: byte) = mask 8" by (simp add: mask_eq_exp_minus_1)
  then show ?thesis by (simp only: bit_mask_iff) simp
qed

text \<open>The slots each type of \<open>set_all_bits\<close> and \<open>unset_all_bits\<close> writes.\<close>

definition bulk :: "int \<Rightarrow> nat set" where
  "bulk type = (if type = 1 then {0 ..< 40} else if type = 2 then {40 ..< 80}
                else if type = 3 then {0 ..< 80} else {})"

lemma used_unset_all_bits: "k < 80 \<Longrightarrow> used (unset_all_bits block type) k = (used block k \<and> k \<notin> bulk type)"
  by (auto simp: used_def unset_all_bits_def mset_bytes_def bulk_def)

lemma used_set_all_bits: "k < 80 \<Longrightarrow> used (set_all_bits block type) k = (used block k \<or> k \<in> bulk type)"
proof -
  assume "k < 80"
  moreover have "bit (255 :: byte) (k mod 8)" by (simp only: bit_255)
  ultimately show ?thesis by (auto simp: used_def set_all_bits_def mset_bytes_def bulk_def)
qed


section \<open>Properties\<close>

text \<open>
  \<open>get_subblock\<close> returns the least slot of its half (types 1 and 2) or of the whole
  bitmap whose bit equals \<open>state\<close>, and -1 exactly when there is none.
\<close>

theorem get_subblock_least:
  assumes "state = 0 \<or> state = 1"
  shows "get_subblock block state type =
    (let S = {k \<in> set (slots type). used block k = (state = 1)} in if S = {} then -1 else int (Min S))"
  using assms
proof (cases rule: get_subblock_cases [where block = block and type = type])
  case none
  then show ?thesis by (auto simp: Let_def)
next
  case (some k)
  then have "Min {k \<in> set (slots type). used block k = (state = 1)} = k" by (intro Min_eqI) auto
  with some show ?thesis by (auto simp: Let_def)
qed

theorem get_subblock_least_witness:
  "get_subblock ((\<lambda>_. 0)(6 := 4)) 1 2 = 50 \<and> get_subblock ((\<lambda>_. 0)(6 := 4)) 1 1 = -1"
proof -
  have "{k \<in> set (slots 2). used ((\<lambda>_. 0)(6 := 4)) k = ((1 :: int) = 1)} = {50}"
    by (auto simp: slots_def used_def)
  moreover have "{k \<in> set (slots 1). used ((\<lambda>_. 0)(6 := 4)) k = ((1 :: int) = 1)} = {}"
    by (auto simp: slots_def used_def)
  ultimately show ?thesis
    using get_subblock_least [of 1 "(\<lambda>_. 0)(6 := 4)" 2] get_subblock_least [of 1 "(\<lambda>_. 0)(6 := 4)" 1]
    by (simp add: Let_def)
qed


text \<open>
  \<open>toggle_bit\<close> of a slot number flips the state of that slot and of no other, touches no
  byte after the bitmap, and undoes itself; of an index outside the bitmap it is undefined.
\<close>

theorem toggle_bit_exact:
  "(case toggle_bit idx block of
      None \<Rightarrow> idx < 0 \<or> 80 \<le> idx
    | Some block' \<Rightarrow> 0 \<le> idx \<and> idx < 80 \<and>
        (\<forall>j < 80. used block' j = (used block j \<noteq> (int j = idx))) \<and>
        (\<forall>a \<ge> 10. block' a = block a) \<and> toggle_bit idx block' = Some block)"
proof (cases "0 \<le> idx \<and> idx < 80")
  case True
  then obtain k where "idx = int k" "k < 80" by (metis nat_less_iff nat_int zero_le_imp_eq_int of_nat_numeral of_nat_less_iff)
  then show ?thesis by (simp add: toggle_bit_flip flip_outside)
next
  case False
  then have "nat idx div 8 \<ge> 10 \<or> idx < 0" by auto
  then show ?thesis using False by (auto simp: toggle_bit_def TOTAL_PARTITIONS_def)
qed

theorem toggle_bit_exact_witness:
  "toggle_bit 50 ((\<lambda>_. 0)(6 := 4)) \<noteq> None \<and> toggle_bit 80 ((\<lambda>_. 0)(6 := 4)) = None"
  using toggle_bit_exact [of 50 "(\<lambda>_. 0)(6 := 4)"] toggle_bit_exact [of 80 "(\<lambda>_. 0)(6 := 4)"]
  by (auto split: option.splits)

text \<open>
  \<open>unset_all_bits\<close> and \<open>set_all_bits\<close> with type 1 write the first 40 slots, with type 2
  the last 40, with type 3 all 80, and leave every other slot and every byte after the bitmap as it
  was: after \<open>unset_all_bits(block, t)\<close> a search of type \<open>t\<close> for a used slot finds none, and after
  \<open>set_all_bits\<close> a search for a free one finds none.
\<close>

theorem bulk_bits_exact:
  assumes "type \<in> {1, 2, 3}"
  shows "(\<forall>k < 80. used (unset_all_bits block type) k = (used block k \<and> k \<notin> set (slots type))) \<and>
    (\<forall>k < 80. used (set_all_bits block type) k = (used block k \<or> k \<in> set (slots type))) \<and>
    (\<forall>a \<ge> 10. unset_all_bits block type a = block a \<and> set_all_bits block type a = block a) \<and>
    get_subblock (unset_all_bits block type) 1 type = -1 \<and>
    get_subblock (set_all_bits block type) 0 type = -1"
proof -
  have b: "bulk type = set (slots type)" using assms by (auto simp: bulk_def set_slots)
  have u: "\<forall>k < 80. used (unset_all_bits block type) k = (used block k \<and> k \<notin> set (slots type))"
    and s: "\<forall>k < 80. used (set_all_bits block type) k = (used block k \<or> k \<in> set (slots type))"
    by (simp_all add: used_unset_all_bits used_set_all_bits b)
  have "get_subblock (unset_all_bits block type) 1 type = -1"
    by (rule get_subblock_cases [of 1 "unset_all_bits block type" type]) (use u slots_less in auto)
  moreover have "get_subblock (set_all_bits block type) 0 type = -1"
    by (rule get_subblock_cases [of 0 "set_all_bits block type" type]) (use s slots_less in auto)
  ultimately show ?thesis
    using u s assms by (auto simp: unset_all_bits_def set_all_bits_def mset_bytes_outside)
qed

theorem bulk_bits_exact_witness:
  "get_subblock (unset_all_bits (\<lambda>_. 255) 1) 1 1 = -1 \<and> get_subblock (set_all_bits (\<lambda>_. 0) 3) 0 3 = -1"
  using bulk_bits_exact [of 1 "\<lambda>_. 255"] bulk_bits_exact [of 3 "\<lambda>_. 0"] by simp

end
