(* ===== verification/SharedMemory.thy ===== *)
theory SharedMemory
  imports CPrelude
begin

text \<open>
  \<open>shared_memory.c\<close>: naming, creating, attaching and removing the System V segments.  The kernel's
  calls are parameters, the fields of \<open>shm_api\<close>, on an abstract kernel state \<open>'o\<close>; what is the
  program's own is the order of the calls, the error returns and the rounding of the size to pages.
\<close>

type_synonym size_t = "64 word"

record 'o shm_api =
  ftok :: "byte list \<Rightarrow> int \<Rightarrow> int"
  page_size :: size_t
  shmget :: "int \<Rightarrow> size_t \<Rightarrow> 'o \<Rightarrow> int \<times> 'o"
  shmat :: "int \<Rightarrow> 'o \<Rightarrow> int \<times> 'o"
  shmdt :: "int \<Rightarrow> 'o \<Rightarrow> int \<times> 'o"
  shmctl_rmid :: "int \<Rightarrow> 'o \<Rightarrow> int \<times> 'o"

definition get_key :: "'o shm_api \<Rightarrow> byte list \<Rightarrow> int \<Rightarrow> int" where
  "get_key os filename project_id = ftok os filename project_id"

text \<open>The arithmetic of \<open>size_t\<close>: 64 bits, wrapping; the \<open>int\<close> size is sign-extended to it.\<close>

definition rounded_size :: "size_t \<Rightarrow> cint \<Rightarrow> size_t" where
  "rounded_size page sz = ((scast sz + page - 1) div page) * page"

definition get_shared_block :: "'o shm_api \<Rightarrow> byte list \<Rightarrow> cint \<Rightarrow> byte \<Rightarrow> 'o \<Rightarrow> int \<times> 'o" where
  "get_shared_block os filename sz project_id s =
     (let key = get_key os filename (sint project_id) in
      if key = -1 then (-1, s)
      else shmget os key (rounded_size (page_size os) sz) s)"

text \<open>\<open>None\<close> is the null pointer.\<close>

definition attach_memory_block ::
  "'o shm_api \<Rightarrow> byte list \<Rightarrow> cint \<Rightarrow> byte \<Rightarrow> 'o \<Rightarrow> int option \<times> 'o" where
  "attach_memory_block os filename sz project_id s =
     (let (shared_block_id, s1) = get_shared_block os filename sz project_id s in
      if shared_block_id = -1 then (None, s1)
      else let (result, s2) = shmat os shared_block_id s1 in
           if result = -1 then (None, s2) else (Some result, s2))"

definition detach_memory_block :: "'o shm_api \<Rightarrow> int \<Rightarrow> 'o \<Rightarrow> int \<times> 'o" where
  "detach_memory_block os block s =
     (let (r, s1) = shmdt os block s in (if r \<noteq> -1 then 1 else 0, s1))"

definition destroy_memory_block :: "'o shm_api \<Rightarrow> byte list \<Rightarrow> byte \<Rightarrow> 'o \<Rightarrow> int \<times> 'o" where
  "destroy_memory_block os filename project_id s =
     (let (shared_block_id, s1) = get_shared_block os filename 0 project_id s in
      if shared_block_id = -1 then (-1, s1)
      else let (r, s2) = shmctl_rmid os shared_block_id s1 in (if r \<noteq> -1 then 1 else 0, s2))"


section \<open>Rounding\<close>

lemma unat_scast_nonneg: "unat (sz :: cint) < 2 ^ 31 \<Longrightarrow> unat (scast sz :: size_t) = unat sz"
proof -
  assume "unat sz < 2 ^ 31"
  then have "sint sz = int (unat sz)" by (rule sint_small)
  moreover have "(scast sz :: size_t) = word_of_int (sint sz)" by simp
  ultimately have "(scast sz :: size_t) = of_nat (unat sz)" by simp
  then show ?thesis using \<open>unat sz < 2 ^ 31\<close> by (simp only: unat_of_nat) simp
qed

lemma unat_rounded_size:
  assumes "unat sz < 2 ^ 31" "0 < unat page" "unat page < 2 ^ 31"
  shows "unat (rounded_size page sz) = ((unat sz + unat page - 1) div unat page) * unat page"
proof -
  define s where "s = (scast sz :: size_t)"
  have s: "unat s = unat sz" unfolding s_def by (rule unat_scast_nonneg [OF assms(1)])
  have "unat (s + page) = unat sz + unat page" using assms s by (simp add: unat_word_ariths)
  moreover have "1 \<le> s + page" using assms calculation by (simp add: word_le_nat_alt)
  ultimately have n: "unat (s + page - 1) = unat sz + unat page - 1" by (simp add: unat_sub)
  have "(unat sz + unat page - 1) div unat page * unat page \<le> unat sz + unat page - 1"
    by (rule div_times_less_eq_dividend)
  moreover have b: "unat sz + unat page - 1 < 2 ^ 64" using assms by simp
  ultimately have q: "(unat sz + unat page - 1) div unat page * unat page < 2 ^ 64" by (rule le_less_trans)
  have "unat ((s + page - 1) div page) = (unat sz + unat page - 1) div unat page"
    using n by (simp add: unat_div)
  with q show ?thesis
    unfolding rounded_size_def s_def [symmetric] by (simp add: unat_word_ariths)
qed

text \<open>
  For a block size that fits a positive \<open>int\<close>, \<open>attach_memory_block\<close> asks the kernel for
  the smallest whole number of pages that holds it, and returns the null pointer exactly when the
  key, the segment or the attachment fails.
\<close>

theorem attach_memory_block_pages:
  assumes "unat sz < 2 ^ 31" "0 < unat (page_size os)" "unat (page_size os) < 2 ^ 31"
  shows "let r = rounded_size (page_size os) sz; p = unat (page_size os) in
    unat sz \<le> unat r \<and> unat r < unat sz + p \<and> p dvd unat r \<and>
    fst (attach_memory_block os filename sz pid s) =
      (let key = ftok os filename (sint pid); (seg, s1) = shmget os key r s; a = fst (shmat os seg s1) in
       if key = -1 \<or> seg = -1 \<or> a = -1 then None else Some a)"
proof -
  define p n where "p = unat (page_size os)" and "n = unat sz"
  have p: "0 < p" using assms by (simp add: p_def)
  have r: "unat (rounded_size (page_size os) sz) = (n + p - 1) div p * p"
    unfolding p_def n_def by (rule unat_rounded_size [OF assms])
  have "(n + p - 1) div p * p + (n + p - 1) mod p = n + p - 1" by (rule div_mult_mod_eq)
  moreover have "(n + p - 1) mod p < p" using p by simp
  ultimately have "n \<le> (n + p - 1) div p * p" "(n + p - 1) div p * p < n + p" using p by linarith+
  moreover have "fst (attach_memory_block os filename sz pid s) =
      (let key = ftok os filename (sint pid); (seg, s1) = shmget os key (rounded_size (page_size os) sz) s;
           a = fst (shmat os seg s1)
       in if key = -1 \<or> seg = -1 \<or> a = -1 then None else Some a)"
    by (auto simp: attach_memory_block_def get_shared_block_def get_key_def Let_def split: prod.splits)
  ultimately show ?thesis
    unfolding p_def [symmetric] n_def [symmetric] r [symmetric] by (simp add: Let_def r)
qed

text \<open>A kernel that numbers the segments asked for and maps segment \<open>k\<close> at \<open>4096 * k\<close>.\<close>

definition demo_shm :: "nat shm_api" where
  "demo_shm = \<lparr>ftok = (\<lambda>f i. i), page_size = 4096, shmget = (\<lambda>k r s. (int s, Suc s)),
     shmat = (\<lambda>i s. (4096 * i, s)), shmdt = (\<lambda>b s. (0, s)), shmctl_rmid = (\<lambda>i s. (0, s))\<rparr>"

theorem attach_memory_block_pages_witness:
  "unat (rounded_size 4096 10489450) = 10489856 \<and>
   fst (attach_memory_block demo_shm (bytes ''processor_s'') 10489450 13 3) = Some 12288"
proof
  show "unat (rounded_size 4096 10489450) = 10489856"
    using unat_rounded_size [of 10489450 4096] by simp
  have "fst (attach_memory_block demo_shm (bytes ''processor_s'') 10489450 13 (3 :: nat)) =
      (let key = ftok demo_shm (bytes ''processor_s'') 13;
           (seg, s1) = shmget demo_shm key (rounded_size (page_size demo_shm) 10489450) 3;
           a = fst (shmat demo_shm seg s1)
       in if key = -1 \<or> seg = -1 \<or> a = -1 then None else Some a)"
    using attach_memory_block_pages [of 10489450 demo_shm "bytes ''processor_s''" 13 3]
    by (simp add: demo_shm_def Let_def)
  then show "fst (attach_memory_block demo_shm (bytes ''processor_s'') 10489450 13 3) = Some 12288"
    by (simp add: demo_shm_def Let_def)
qed

end
