(* ===== verification/Messages.thy ===== *)
theory Messages
  imports CPrelude
begin

text \<open>
  The structs of \<open>partition.h\<close> that the processes exchange through shared memory.  Each is a
  record, with the bytes the compiler lays it out in (x86-64: little-endian, int at 4-byte
  boundaries, trailing padding to a multiple of 4); \<open>enc\<close> writes a struct whose padding is
  zero, \<open>dec\<close> is the cast of a \<open>char *\<close> to a pointer to the struct.  The locale \<open>codec\<close> is the
  contract all of them share: the encoding has the size \<open>sizeof\<close> gives, and the cast recovers
  every field, whatever follows in memory.
\<close>

section \<open>Sizes\<close>

definition MESSAGE_SIZE :: nat where "MESSAGE_SIZE = 1024 * 128"
definition DPARTITION_SIZE :: nat where "DPARTITION_SIZE = MESSAGE_SIZE + 46"
definition DATA_BLOCK_SIZE :: nat where "DATA_BLOCK_SIZE = DPARTITION_SIZE * 80 + 10"
definition CPARTITION_SIZE :: nat where "CPARTITION_SIZE = 50"
definition COMM_BLOCK_SIZE :: nat where "COMM_BLOCK_SIZE = CPARTITION_SIZE * 80 + 10"

lemmas size_defs = MESSAGE_SIZE_def DPARTITION_SIZE_def DATA_BLOCK_SIZE_def CPARTITION_SIZE_def COMM_BLOCK_SIZE_def


section \<open>Structs\<close>

record capacity_info =
  ci_capacity :: cint
  ci_ipaddress :: "byte list"

record receivers_message =
  rm_fd :: cint
  rm_ipaddr :: cint
  rm_status :: cint

record newmsg_data =
  nm_data1 :: cint
  nm_data2 :: cint
  nm_data :: "byte list"

record open_connection =
  oc_type :: cint
  oc_port :: cint
  oc_ipaddress :: cint
  oc_scommid :: cint

record close_connection =
  cc_type :: cint
  cc_fd :: cint
  cc_ipaddress :: cint
  cc_scommid :: cint

record connection_status =
  cs_type :: cint
  cs_fd :: cint
  cs_ipaddress :: cint
  cs_scommid :: cint

record send_message =
  sm_size :: cint
  sm_fd :: cint
  sm_uuid :: "byte list"
  sm_data :: "byte list"

record message_status =
  ms_type :: cint
  ms_status :: cint
  ms_uuid :: "byte list"

definition enc_capacity_info :: "capacity_info \<Rightarrow> byte list" where
  "enc_capacity_info r = le32 (ci_capacity r) @ ci_ipaddress r @ replicate 3 0"

definition dec_capacity_info :: "byte list \<Rightarrow> capacity_info" where
  "dec_capacity_info bs = \<lparr>ci_capacity = get32 bs 0, ci_ipaddress = take 17 (drop 4 bs)\<rparr>"

definition wf_capacity_info :: "capacity_info \<Rightarrow> bool" where
  "wf_capacity_info r \<longleftrightarrow> length (ci_ipaddress r) = 17"

definition enc_receivers_message :: "receivers_message \<Rightarrow> byte list" where
  "enc_receivers_message r = le32 (rm_fd r) @ le32 (rm_ipaddr r) @ le32 (rm_status r)"

definition dec_receivers_message :: "byte list \<Rightarrow> receivers_message" where
  "dec_receivers_message bs = \<lparr>rm_fd = get32 bs 0, rm_ipaddr = get32 bs 4, rm_status = get32 bs 8\<rparr>"

definition enc_newmsg_data :: "newmsg_data \<Rightarrow> byte list" where
  "enc_newmsg_data r = le32 (nm_data1 r) @ le32 (nm_data2 r) @ nm_data r"

definition dec_newmsg_data :: "byte list \<Rightarrow> newmsg_data" where
  "dec_newmsg_data bs = \<lparr>nm_data1 = get32 bs 0, nm_data2 = get32 bs 4, nm_data = take MESSAGE_SIZE (drop 8 bs)\<rparr>"

definition wf_newmsg_data :: "newmsg_data \<Rightarrow> bool" where
  "wf_newmsg_data r \<longleftrightarrow> length (nm_data r) = MESSAGE_SIZE"

definition enc_open_connection :: "open_connection \<Rightarrow> byte list" where
  "enc_open_connection r = le32 (oc_type r) @ le32 (oc_port r) @ le32 (oc_ipaddress r) @ le32 (oc_scommid r)"

definition dec_open_connection :: "byte list \<Rightarrow> open_connection" where
  "dec_open_connection bs =
     \<lparr>oc_type = get32 bs 0, oc_port = get32 bs 4, oc_ipaddress = get32 bs 8, oc_scommid = get32 bs 12\<rparr>"

definition enc_close_connection :: "close_connection \<Rightarrow> byte list" where
  "enc_close_connection r = le32 (cc_type r) @ le32 (cc_fd r) @ le32 (cc_ipaddress r) @ le32 (cc_scommid r)"

definition dec_close_connection :: "byte list \<Rightarrow> close_connection" where
  "dec_close_connection bs =
     \<lparr>cc_type = get32 bs 0, cc_fd = get32 bs 4, cc_ipaddress = get32 bs 8, cc_scommid = get32 bs 12\<rparr>"

definition enc_connection_status :: "connection_status \<Rightarrow> byte list" where
  "enc_connection_status r = le32 (cs_type r) @ le32 (cs_fd r) @ le32 (cs_ipaddress r) @ le32 (cs_scommid r)"

definition dec_connection_status :: "byte list \<Rightarrow> connection_status" where
  "dec_connection_status bs =
     \<lparr>cs_type = get32 bs 0, cs_fd = get32 bs 4, cs_ipaddress = get32 bs 8, cs_scommid = get32 bs 12\<rparr>"

definition enc_send_message :: "send_message \<Rightarrow> byte list" where
  "enc_send_message r = le32 (sm_size r) @ le32 (sm_fd r) @ sm_uuid r @ sm_data r"

definition dec_send_message :: "byte list \<Rightarrow> send_message" where
  "dec_send_message bs = \<lparr>sm_size = get32 bs 0, sm_fd = get32 bs 4, sm_uuid = take 37 (drop 8 bs),
     sm_data = take MESSAGE_SIZE (drop 45 bs)\<rparr>"

definition wf_send_message :: "send_message \<Rightarrow> bool" where
  "wf_send_message r \<longleftrightarrow> length (sm_uuid r) = 37 \<and> length (sm_data r) = MESSAGE_SIZE"

definition enc_message_status :: "message_status \<Rightarrow> byte list" where
  "enc_message_status r = le32 (ms_type r) @ le32 (ms_status r) @ ms_uuid r @ replicate 3 0"

definition dec_message_status :: "byte list \<Rightarrow> message_status" where
  "dec_message_status bs = \<lparr>ms_type = get32 bs 0, ms_status = get32 bs 4, ms_uuid = take 37 (drop 8 bs)\<rparr>"

definition wf_message_status :: "message_status \<Rightarrow> bool" where
  "wf_message_status r \<longleftrightarrow> length (ms_uuid r) = 37"

lemmas enc_defs = enc_capacity_info_def enc_receivers_message_def enc_newmsg_data_def enc_open_connection_def
  enc_close_connection_def enc_connection_status_def enc_send_message_def enc_message_status_def

lemmas dec_defs = dec_capacity_info_def dec_receivers_message_def dec_newmsg_data_def dec_open_connection_def
  dec_close_connection_def dec_connection_status_def dec_send_message_def dec_message_status_def

lemmas wf_defs = wf_capacity_info_def wf_newmsg_data_def wf_send_message_def wf_message_status_def

text \<open>\<open>sizeof\<close>; for \<open>send_message\<close> the 131117 bytes of its fields are padded to a multiple of 4.\<close>

definition sizeof_capacity_info :: nat where "sizeof_capacity_info = 24"
definition sizeof_receivers_message :: nat where "sizeof_receivers_message = 12"
definition sizeof_newmsg_data :: nat where "sizeof_newmsg_data = MESSAGE_SIZE + 8"
definition sizeof_connection :: nat where "sizeof_connection = 16"
definition sizeof_send_message :: nat where "sizeof_send_message = MESSAGE_SIZE + 48"
definition sizeof_message_status :: nat where "sizeof_message_status = 48"

lemmas sizeof_defs = sizeof_capacity_info_def sizeof_receivers_message_def sizeof_newmsg_data_def
  sizeof_connection_def sizeof_send_message_def sizeof_message_status_def


section \<open>The contract of a message layout\<close>

locale codec =
  fixes enc :: "'a \<Rightarrow> byte list"
    and dec :: "byte list \<Rightarrow> 'a"
    and wf :: "'a \<Rightarrow> bool"
    and len :: nat
  assumes enc_length: "wf x \<Longrightarrow> length (enc x) = len"
    and dec_enc_append: "wf x \<Longrightarrow> dec (enc x @ rest) = x"
begin

lemma dec_enc: "wf x \<Longrightarrow> dec (enc x) = x"
  using dec_enc_append [of x "[]"] by simp

lemma enc_inject: "wf x \<Longrightarrow> wf y \<Longrightarrow> enc x = enc y \<longleftrightarrow> x = y"
  using dec_enc by metis

lemma enc_prefix_free: "wf x \<Longrightarrow> wf y \<Longrightarrow> enc x @ r = enc y @ s \<Longrightarrow> x = y \<and> r = s"
  using enc_length by auto (metis dec_enc)

text \<open>A struct copied into zeroed memory and read back through the cast.\<close>

lemma dec_copied:
  assumes "wf x" "len \<le> n"
  shows "dec (mread (mwrite (mset_bytes m off 0 n) off (enc x)) off n) = x"
  using assms enc_length [OF assms(1)] by (simp add: mread_mwrite_mset_bytes dec_enc_append)

end

lemma get32_at: "length xs = i \<Longrightarrow> get32 (xs @ le32 w @ ys) i = w"
  by (rule get32_append)

lemma get32_2: "get32 (le32 a @ le32 b @ ys) 4 = b"
  using get32_at [of "le32 a" 4 b ys] by simp

lemma get32_3: "get32 (le32 a @ le32 b @ le32 c @ ys) 8 = c"
  using get32_at [of "le32 a @ le32 b" 8 c ys] by simp

lemma get32_4: "get32 (le32 a @ le32 b @ le32 c @ le32 d @ ys) 12 = d"
  using get32_at [of "le32 a @ le32 b @ le32 c" 12 d ys] by simp

lemmas get32_fields = get32_front get32_2 get32_3 get32_4

interpretation capacity_info: codec enc_capacity_info dec_capacity_info wf_capacity_info 24
  by unfold_locales (auto simp: enc_defs dec_defs wf_defs get32_fields)

interpretation receivers_message: codec enc_receivers_message dec_receivers_message "\<lambda>_. True" 12
  by unfold_locales (auto simp: enc_defs dec_defs get32_fields)

interpretation newmsg_data: codec enc_newmsg_data dec_newmsg_data wf_newmsg_data "MESSAGE_SIZE + 8"
  by unfold_locales (auto simp: enc_defs dec_defs wf_defs get32_fields)

interpretation open_connection: codec enc_open_connection dec_open_connection "\<lambda>_. True" 16
  by unfold_locales (auto simp: enc_defs dec_defs get32_fields)

interpretation close_connection: codec enc_close_connection dec_close_connection "\<lambda>_. True" 16
  by unfold_locales (auto simp: enc_defs dec_defs get32_fields)

interpretation connection_status: codec enc_connection_status dec_connection_status "\<lambda>_. True" 16
  by unfold_locales (auto simp: enc_defs dec_defs get32_fields)

interpretation send_message: codec enc_send_message dec_send_message wf_send_message "MESSAGE_SIZE + 45"
  by unfold_locales (auto simp: enc_defs dec_defs wf_defs get32_fields)

interpretation message_status: codec enc_message_status dec_message_status wf_message_status 48
  by unfold_locales (auto simp: enc_defs dec_defs wf_defs get32_fields)

text \<open>The first int of every message on the sender's side is its type.\<close>

lemma type_field:
  "get32 (enc_open_connection oc @ r) 0 = oc_type oc"
  "get32 (enc_close_connection cc @ r) 0 = cc_type cc"
  "get32 (enc_connection_status cs @ r) 0 = cs_type cs"
  "get32 (enc_message_status ms @ r) 0 = ms_type ms"
  by (simp_all add: enc_defs get32_fields)

text \<open>
  Every struct written into a zeroed slot of the block it travels in fits the slot, and the
  reader's cast gives back exactly the struct written.
\<close>

theorem structs_fit_and_round_trip:
  "(\<forall>x m off. wf_capacity_info x \<longrightarrow> length (enc_capacity_info x) \<le> CPARTITION_SIZE \<and>
      dec_capacity_info (mread (mwrite (mset_bytes m off 0 CPARTITION_SIZE) off (enc_capacity_info x)) off CPARTITION_SIZE) = x) \<and>
   (\<forall>x m off. length (enc_receivers_message x) \<le> CPARTITION_SIZE \<and>
      dec_receivers_message (mread (mwrite (mset_bytes m off 0 CPARTITION_SIZE) off (enc_receivers_message x)) off CPARTITION_SIZE) = x) \<and>
   (\<forall>x m off. wf_newmsg_data x \<longrightarrow> length (enc_newmsg_data x) \<le> DPARTITION_SIZE \<and>
      dec_newmsg_data (mread (mwrite (mset_bytes m off 0 DPARTITION_SIZE) off (enc_newmsg_data x)) off DPARTITION_SIZE) = x) \<and>
   (\<forall>x m off. length (enc_connection_status x) \<le> CPARTITION_SIZE \<and>
      dec_connection_status (mread (mwrite (mset_bytes m off 0 CPARTITION_SIZE) off (enc_connection_status x)) off CPARTITION_SIZE) = x) \<and>
   (\<forall>x m off. wf_message_status x \<longrightarrow> length (enc_message_status x) \<le> CPARTITION_SIZE \<and>
      dec_message_status (mread (mwrite (mset_bytes m off 0 CPARTITION_SIZE) off (enc_message_status x)) off CPARTITION_SIZE) = x) \<and>
   (\<forall>x m off. wf_send_message x \<longrightarrow> length (enc_send_message x) \<le> DPARTITION_SIZE \<and>
      dec_send_message (mread (mwrite (mset_bytes m off 0 DPARTITION_SIZE) off (enc_send_message x)) off DPARTITION_SIZE) = x)"
  by (simp add: capacity_info.dec_copied capacity_info.enc_length receivers_message.dec_copied
      receivers_message.enc_length newmsg_data.dec_copied newmsg_data.enc_length
      connection_status.dec_copied connection_status.enc_length message_status.dec_copied
      message_status.enc_length send_message.dec_copied send_message.enc_length size_defs)

theorem structs_fit_and_round_trip_witness:
  "dec_message_status (mread (mwrite (mset_bytes (\<lambda>_. 7) 60 0 CPARTITION_SIZE) 60
     (enc_message_status \<lparr>ms_type = 4, ms_status = 1, ms_uuid = replicate 37 65\<rparr>)) 60 CPARTITION_SIZE)
   = \<lparr>ms_type = 4, ms_status = 1, ms_uuid = replicate 37 65\<rparr>"
proof -
  have "wf_message_status \<lparr>ms_type = 4, ms_status = 1, ms_uuid = replicate 37 65\<rparr>"
    by (simp add: wf_message_status_def)
  then show ?thesis using structs_fit_and_round_trip by blast
qed

text \<open>
  \<open>sizeof(send_message)\<close> is larger than the slot it is copied from; the copy the sender
  makes from slot \<open>k\<close> runs two bytes into slot \<open>k + 1\<close>, or for the last slot past the size asked of
  \<open>attach_memory_block\<close>, while the bytes of every field lie inside the slot.
\<close>

theorem send_message_overruns_slot:
  "sizeof_send_message = DPARTITION_SIZE + 2 \<and>
   10 + 79 * DPARTITION_SIZE + sizeof_send_message = DATA_BLOCK_SIZE + 2 \<and>
   (\<forall>bs. sizeof_send_message \<le> length bs \<longrightarrow> dec_send_message bs = dec_send_message (take (DPARTITION_SIZE - 1) bs))"
  by (auto simp: sizeof_send_message_def size_defs dec_send_message_def get32_take drop_take)

theorem send_message_overruns_slot_witness:
  "dec_send_message (replicate sizeof_send_message 3) = dec_send_message (take (DPARTITION_SIZE - 1) (replicate sizeof_send_message 3))"
  using send_message_overruns_slot by (metis length_replicate order_refl)

end
