(* ===== verification/Channel.thy ===== *)
theory Channel
  imports Partition Messages
begin

text \<open>
  A shared block as a message channel.  Writers and readers all follow the same pattern: find a slot
  with \<open>get_subblock\<close>, fill or copy its bytes, flip its bit.  The abstraction of a block is the
  multiset of the bytes of its used slots; the locale \<open>mailbox\<close> states what such a channel
  promises, and is interpreted on the three ways the program uses a block: the two halves of a
  communication block and the data block.
\<close>

section \<open>Slots of a block\<close>

lemmas free_slot_cases = get_subblock_cases [of 0, simplified, case_names none some]
lemmas used_slot_cases = get_subblock_cases [of 1, simplified, case_names none some]

text \<open>\<open>block + (TOTAL_PARTITIONS/8) + k * size\<close>.\<close>

definition slot_addr :: "nat \<Rightarrow> nat \<Rightarrow> nat" where
  "slot_addr psize k = TOTAL_PARTITIONS div 8 + k * psize"

definition slot_bytes :: "nat \<Rightarrow> mem \<Rightarrow> nat \<Rightarrow> byte list" where
  "slot_bytes psize block k = mread block (slot_addr psize k) psize"

definition used_slots :: "int \<Rightarrow> mem \<Rightarrow> nat set" where
  "used_slots type block = {k \<in> set (slots type). used block k}"

definition contents :: "nat \<Rightarrow> int \<Rightarrow> mem \<Rightarrow> byte list multiset" where
  "contents psize type block = image_mset (slot_bytes psize block) (mset_set (used_slots type block))"

lemma slot_addr_ge [simp]: "10 \<le> slot_addr psize k"
  by (simp add: slot_addr_def TOTAL_PARTITIONS_def)

lemma slot_addr_disjoint: "j \<noteq> k \<Longrightarrow> slot_addr psize j + psize \<le> slot_addr psize k \<or> slot_addr psize k + psize \<le> slot_addr psize j"
proof -
  assume "j \<noteq> k"
  then have "Suc j * psize \<le> k * psize \<or> Suc k * psize \<le> j * psize"
    by (metis mult_le_mono1 Suc_leI linorder_neqE_nat)
  then show ?thesis by (auto simp: slot_addr_def)
qed

lemma slot_addr_bound: "k < 80 \<Longrightarrow> slot_addr psize k + psize \<le> 10 + 80 * psize"
proof -
  assume "k < 80"
  then have "Suc k * psize \<le> 80 * psize" by (intro mult_le_mono1) simp
  then show ?thesis by (simp add: slot_addr_def TOTAL_PARTITIONS_def)
qed

lemma finite_used_slots [simp]: "finite (used_slots type block)"
  by (simp add: used_slots_def)

lemma used_slots_less: "k \<in> used_slots type block \<Longrightarrow> k < 80"
  by (auto simp: used_slots_def slots_less)

lemma card_used_slots_le: "card (used_slots type block) \<le> length (slots type)"
  using card_mono [of "set (slots type)" "used_slots type block"] distinct_card [OF distinct_slots [of type]]
  by (auto simp: used_slots_def)

lemma size_contents [simp]: "size (contents psize type block) = card (used_slots type block)"
  by (simp add: contents_def)

lemma contents_empty_iff: "contents psize type block = {#} \<longleftrightarrow> used_slots type block = {}"
  by (simp add: contents_def mset_set_empty_iff)

text \<open>Two blocks that agree outside slot \<open>k\<close>: what any code that fills a slot guarantees.\<close>

definition same_but :: "nat \<Rightarrow> nat \<Rightarrow> mem \<Rightarrow> mem \<Rightarrow> bool" where
  "same_but psize k b b' \<longleftrightarrow> (\<forall>a. a < slot_addr psize k \<or> slot_addr psize k + psize \<le> a \<longrightarrow> b' a = b a)"

lemma same_but_refl [simp, intro]: "same_but psize k b b"
  by (simp add: same_but_def)

lemma same_but_trans: "same_but psize k a b \<Longrightarrow> same_but psize k b c \<Longrightarrow> same_but psize k a c"
  by (simp add: same_but_def)

lemma same_but_mset_bytes [intro]: "same_but psize k b b' \<Longrightarrow> same_but psize k b (mset_bytes b' (slot_addr psize k) x psize)"
  by (auto simp: same_but_def mset_bytes_def)

lemma same_but_mwrite [intro]:
  "same_but psize k b b' \<Longrightarrow> slot_addr psize k \<le> a \<Longrightarrow> a + length bs \<le> slot_addr psize k + psize \<Longrightarrow>
   same_but psize k b (mwrite b' a bs)"
  by (auto simp: same_but_def mwrite_def)

lemma same_but_used: "same_but psize k b b' \<Longrightarrow> j < 80 \<Longrightarrow> used b' j = used b j"
proof -
  assume s: "same_but psize k b b'" and "j < 80"
  have "b' a = b a" if "a < 10" for a
    using s that slot_addr_ge [of psize k] unfolding same_but_def by (meson less_le_trans)
  with \<open>j < 80\<close> show ?thesis by (rule used_cong [rotated])
qed

lemma same_but_used_slots: "same_but psize k b b' \<Longrightarrow> used_slots type b' = used_slots type b"
  by (auto simp: used_slots_def same_but_used slots_less)

lemma same_but_slot_bytes: "same_but psize k b b' \<Longrightarrow> j \<noteq> k \<Longrightarrow> slot_bytes psize b' j = slot_bytes psize b j"
  unfolding slot_bytes_def
  using slot_addr_disjoint [of j k psize] by (intro mread_cong) (auto simp: same_but_def)

lemma same_but_contents:
  assumes "same_but psize k b b'" "\<not> used b k"
  shows "contents psize type b' = contents psize type b"
  unfolding contents_def same_but_used_slots [OF assms(1)]
proof (intro image_mset_cong)
  fix x assume "x \<in># mset_set (used_slots type b)"
  then have "x \<noteq> k" using assms(2) by (auto simp: used_slots_def)
  then show "slot_bytes psize b' x = slot_bytes psize b x" by (rule same_but_slot_bytes [OF assms(1)])
qed

lemma slot_bytes_flip: "k < 80 \<Longrightarrow> slot_bytes psize (flip k b) = slot_bytes psize b"
  by (rule ext) (simp add: slot_bytes_def mread_flip)

lemma used_slots_flip:
  "used_slots type (flip k b) =
     (if k \<notin> set (slots type) then used_slots type b
      else if used b k then used_slots type b - {k} else insert k (used_slots type b))"
  by (auto simp: used_slots_def)

lemma contents_flip_other: "k < 80 \<Longrightarrow> k \<notin> set (slots type) \<Longrightarrow> contents psize type (flip k b) = contents psize type b"
  by (simp add: contents_def used_slots_flip slot_bytes_flip)

lemma contents_fill:
  assumes "same_but psize k b b'" "k \<in> set (slots type)" "\<not> used b k"
  shows "contents psize type (flip k b') = add_mset (slot_bytes psize b' k) (contents psize type b)"
proof -
  have k: "k < 80" using assms(2) by (rule slots_less)
  have "\<not> used b' k" using assms k by (simp add: same_but_used)
  moreover have "k \<notin> used_slots type b" using assms(3) by (simp add: used_slots_def)
  ultimately show ?thesis
    using same_but_contents [OF assms(1,3), of type] assms(2) k
    by (simp add: contents_def used_slots_flip same_but_used_slots [OF assms(1)] slot_bytes_flip)
qed

lemma contents_take:
  assumes "k \<in> set (slots type)" "used b k"
  shows "slot_bytes psize b k \<in># contents psize type b"
    and "contents psize type (flip k b) = contents psize type b - {#slot_bytes psize b k#}"
proof -
  have k: "k < 80" "k \<in> used_slots type b" using assms by (auto simp: slots_less used_slots_def)
  then show "slot_bytes psize b k \<in># contents psize type b" by (auto simp: contents_def)
  have "mset_set (used_slots type b) = add_mset k (mset_set (used_slots type b - {k}))"
    using k by (simp add: mset_set.remove)
  then show "contents psize type (flip k b) = contents psize type b - {#slot_bytes psize b k#}"
    using assms k by (simp add: contents_def used_slots_flip slot_bytes_flip)
qed

lemma get_subblock_free_iff: "get_subblock block 0 type = -1 \<longleftrightarrow> card (used_slots type block) = length (slots type)"
proof (cases rule: free_slot_cases [where block = block and type = type])
  case none
  then have "used_slots type block = set (slots type)" by (auto simp: used_slots_def)
  with none show ?thesis by (simp add: distinct_card distinct_slots)
next
  case (some k)
  then have "used_slots type block \<subset> set (slots type)" by (auto simp: used_slots_def)
  then have "card (used_slots type block) < card (set (slots type))" by (intro psubset_card_mono) auto
  with some show ?thesis by (simp add: distinct_card distinct_slots)
qed

lemma get_subblock_used_iff: "get_subblock block 1 type = -1 \<longleftrightarrow> used_slots type block = {}"
  by (cases rule: used_slot_cases [where block = block and type = type]) (auto simp: used_slots_def)


section \<open>Writing to and reading from a channel\<close>

text \<open>
  The two patterns of the code.  \<open>ch_put\<close> clears a free slot, copies the message to its start and
  sets its bit; \<open>ch_get\<close> copies the bytes of a used slot and clears its bit.  \<open>None\<close> is the case
  \<open>subblock_position == -1\<close>.
\<close>

definition ch_put :: "nat \<Rightarrow> int \<Rightarrow> byte list \<Rightarrow> mem \<Rightarrow> mem option" where
  "ch_put psize type bs block =
     (let k = get_subblock block 0 type in
      if k = -1 then None
      else let p = slot_addr psize (nat k) in toggle_bit k (mwrite (mset_bytes block p 0 psize) p bs))"

definition ch_get :: "nat \<Rightarrow> int \<Rightarrow> mem \<Rightarrow> (byte list \<times> mem) option" where
  "ch_get psize type block =
     (let k = get_subblock block 1 type in
      if k = -1 then None
      else map_option (Pair (slot_bytes psize block (nat k))) (toggle_bit k block))"

definition padded :: "nat \<Rightarrow> byte list \<Rightarrow> byte list" where
  "padded psize bs = bs @ replicate (psize - length bs) 0"

lemma ch_put_cases:
  assumes "length bs \<le> psize"
  obtains (full) "ch_put psize type bs block = None" "card (used_slots type block) = length (slots type)"
  | (put) k b' where "ch_put psize type bs block = Some (flip k b')" "get_subblock block 0 type = int k"
      "k \<in> set (slots type)" "\<not> used block k" "same_but psize k block b'" "slot_bytes psize b' k = padded psize bs"
proof (cases rule: free_slot_cases [where block = block and type = type])
  case none
  then show thesis using full by (simp add: ch_put_def get_subblock_free_iff [symmetric])
next
  case (some k)
  let ?b = "mwrite (mset_bytes block (slot_addr psize k) 0 psize) (slot_addr psize k) bs"
  have "ch_put psize type bs block = Some (flip k ?b)" using some by (simp add: ch_put_def Let_def toggle_bit_flip)
  moreover have "same_but psize k block ?b" using assms by (intro same_but_mwrite same_but_mset_bytes) auto
  moreover have "slot_bytes psize ?b k = padded psize bs"
    using assms by (simp add: slot_bytes_def mread_mwrite_mset_bytes padded_def)
  ultimately show thesis using put some by auto
qed

lemma ch_get_cases:
  obtains (empty) "ch_get psize type block = None" "used_slots type block = {}"
  | (get) k where "ch_get psize type block = Some (slot_bytes psize block k, flip k block)"
      "get_subblock block 1 type = int k" "k \<in> set (slots type)" "used block k"
proof (cases rule: used_slot_cases [where block = block and type = type])
  case none
  then show thesis using empty by (simp add: ch_get_def get_subblock_used_iff [symmetric])
next
  case (some k)
  then show thesis using get [of k] by (simp add: ch_get_def Let_def toggle_bit_flip)
qed


text \<open>An empty block with one message put into it.\<close>

definition box_with :: "nat \<Rightarrow> int \<Rightarrow> byte list \<Rightarrow> mem" where
  "box_with psize type bs = (case ch_put psize type bs (\<lambda>_. 0) of Some m \<Rightarrow> m | None \<Rightarrow> (\<lambda>_. 0))"

lemma box_with:
  assumes "length bs \<le> psize"
  shows "contents psize type (box_with psize type bs) = {#padded psize bs#} \<and>
    (\<exists>k. get_subblock (box_with psize type bs) 1 type = int k \<and> k \<in> set (slots type) \<and>
       slot_bytes psize (box_with psize type bs) k = padded psize bs)"
proof -
  let ?m = "box_with psize type bs"
  have e: "used_slots type (\<lambda>_. 0) = {}" by (simp add: used_slots_def used_def)
  from assms have c: "contents psize type ?m = {#padded psize bs#}"
  proof (cases rule: ch_put_cases [where type = type and block = "\<lambda>_. 0"])
    case full
    then show ?thesis by (auto simp: e slots_def split: if_splits simp del: upt_rec_numeral)
  next
    case (put k b')
    then show ?thesis using contents_fill [of psize k "\<lambda>_. 0" b' type] e by (simp add: box_with_def contents_def)
  qed
  then have "get_subblock ?m 1 type \<noteq> -1" using contents_empty_iff [of psize type ?m] by (auto simp: get_subblock_used_iff)
  then obtain k where k: "get_subblock ?m 1 type = int k" "k \<in> set (slots type)" "used ?m k"
    by (cases rule: used_slot_cases [where block = ?m and type = type]) auto
  then have "slot_bytes psize ?m k = padded psize bs" using contents_take(1) [OF k(2,3), of psize] c by simp
  with c k show ?thesis by blast
qed


section \<open>The contract of a channel\<close>

text \<open>What was accepted and what was received in a history of calls.\<close>

datatype 'a call = Send 'a | Receive

locale mailbox =
  fixes msgs :: "'m \<Rightarrow> 'a multiset"
    and capacity :: nat
    and put :: "'a \<Rightarrow> 'm \<Rightarrow> 'm option"
    and get :: "'m \<Rightarrow> ('a \<times> 'm) option"
    and ok :: "'a \<Rightarrow> bool"
  assumes put_full: "ok x \<Longrightarrow> put x m = None \<longleftrightarrow> size (msgs m) = capacity"
    and put_some: "ok x \<Longrightarrow> put x m = Some m' \<Longrightarrow> msgs m' = add_mset x (msgs m)"
    and get_empty: "get m = None \<longleftrightarrow> msgs m = {#}"
    and get_some: "get m = Some (x, m') \<Longrightarrow> msgs m = add_mset x (msgs m')"
    and within: "size (msgs m) \<le> capacity"
begin

fun history :: "'a call list \<Rightarrow> 'm \<Rightarrow> 'a list \<times> 'a list \<times> 'm" where
  "history [] m = ([], [], m)"
| "history (Send x # cs) m =
     (case put x m of
        None \<Rightarrow> history cs m
      | Some m1 \<Rightarrow> let (acc, rec, m2) = history cs m1 in (x # acc, rec, m2))"
| "history (Receive # cs) m =
     (case get m of
        None \<Rightarrow> history cs m
      | Some (x, m1) \<Rightarrow> let (acc, rec, m2) = history cs m1 in (acc, x # rec, m2))"

lemma history_conserves:
  "\<forall>x. Send x \<in> set cs \<longrightarrow> ok x \<Longrightarrow> history cs m = (acc, rec, m') \<Longrightarrow>
   msgs m + mset acc = mset rec + msgs m'"
proof (induction cs m arbitrary: acc rec m' rule: history.induct)
  case (2 x cs m)
  show ?case
  proof (cases "put x m")
    case None
    then show ?thesis using 2 by auto
  next
    case (Some m1)
    obtain acc1 rec1 m2 where h: "history cs m1 = (acc1, rec1, m2)" by (cases "history cs m1")
    with 2(2)[OF Some, of acc1 rec1 m2] 2(3) have "msgs m1 + mset acc1 = mset rec1 + msgs m2" by auto
    moreover have "msgs m1 = add_mset x (msgs m)" using Some 2(3) by (intro put_some) auto
    ultimately show ?thesis using 2(4) Some h by auto
  qed
next
  case (3 cs m)
  show ?case
  proof (cases "get m")
    case None
    then show ?thesis using 3 by auto
  next
    case (Some p)
    obtain x m1 where p: "p = (x, m1)" by force
    obtain acc1 rec1 m2 where h: "history cs m1 = (acc1, rec1, m2)" by (cases "history cs m1")
    with 3(2)[OF Some p [symmetric], of acc1 rec1 m2] 3(3) have "msgs m1 + mset acc1 = mset rec1 + msgs m2" by auto
    moreover have "msgs m = add_mset x (msgs m1)" using Some p by (intro get_some) auto
    ultimately show ?thesis using 3(4) Some p h by auto
  qed
qed simp

lemma received_was_sent:
  assumes "\<forall>x. Send x \<in> set cs \<longrightarrow> ok x" "history cs m = (acc, rec, m')"
  shows "mset rec \<subseteq># msgs m + mset acc"
  using history_conserves [OF assms] by simp

lemma put_get:
  assumes "ok x" "put x m = Some m1"
  shows "get m1 \<noteq> None"
  using put_some [OF assms] get_empty [of m1] by simp

end

text \<open>Two channels in the same memory that do not disturb each other.\<close>

locale duplex =
  up: mailbox msgs1 cap1 put1 get1 ok1 + down: mailbox msgs2 cap2 put2 get2 ok2
  for msgs1 :: "'m \<Rightarrow> 'a multiset" and cap1 put1 get1 ok1
    and msgs2 :: "'m \<Rightarrow> 'b multiset" and cap2 put2 get2 ok2 +
  assumes put1_frame: "ok1 x \<Longrightarrow> put1 x m = Some m' \<Longrightarrow> msgs2 m' = msgs2 m"
    and put2_frame: "ok2 y \<Longrightarrow> put2 y m = Some m' \<Longrightarrow> msgs1 m' = msgs1 m"
    and get1_frame: "get1 m = Some (x, m') \<Longrightarrow> msgs2 m' = msgs2 m"
    and get2_frame: "get2 m = Some (y, m') \<Longrightarrow> msgs1 m' = msgs1 m"
begin

lemma history1_frame:
  "\<forall>x. Send x \<in> set cs \<longrightarrow> ok1 x \<Longrightarrow> up.history cs m = (acc, rec, m') \<Longrightarrow> msgs2 m' = msgs2 m"
proof (induction cs m arbitrary: acc rec m' rule: up.history.induct)
  case (2 x cs m)
  then show ?case by (auto split: option.splits prod.splits simp: put1_frame)
next
  case (3 cs m)
  then show ?case by (auto split: option.splits prod.splits simp: get1_frame)
qed simp

lemma history2_frame:
  "\<forall>x. Send x \<in> set cs \<longrightarrow> ok2 x \<Longrightarrow> down.history cs m = (acc, rec, m') \<Longrightarrow> msgs1 m' = msgs1 m"
proof (induction cs m arbitrary: acc rec m' rule: down.history.induct)
  case (2 x cs m)
  then show ?case by (auto split: option.splits prod.splits simp: put2_frame)
next
  case (3 cs m)
  then show ?case by (auto split: option.splits prod.splits simp: get2_frame)
qed simp

end

lemma mailbox_block:
  "mailbox (contents psize type) (length (slots type)) (ch_put psize type) (ch_get psize type)
     (\<lambda>bs. length bs = psize)"
proof
  fix x :: "byte list" and m
  assume x: "length x = psize"
  then have le: "length x \<le> psize" by simp
  from le show "ch_put psize type x m = None \<longleftrightarrow> size (contents psize type m) = length (slots type)"
  proof (cases rule: ch_put_cases [where type = type and block = m])
    case (put k b')
    then show ?thesis using get_subblock_free_iff [of m type] by simp
  qed simp
  fix m' assume p: "ch_put psize type x m = Some m'"
  from le show "contents psize type m' = add_mset x (contents psize type m)"
    by (cases rule: ch_put_cases [where type = type and block = m])
      (use x p in \<open>auto simp: contents_fill padded_def\<close>)
next
  fix m
  show "ch_get psize type m = None \<longleftrightarrow> contents psize type m = {#}"
    by (cases rule: ch_get_cases [of psize type m]) (auto simp: contents_empty_iff used_slots_def)
  fix x m' assume "ch_get psize type m = Some (x, m')"
  then show "contents psize type m = add_mset x (contents psize type m')"
    by (cases rule: ch_get_cases [of psize type m]) (auto simp: contents_take)
next
  fix m show "size (contents psize type m) \<le> length (slots type)"
    by (simp add: card_used_slots_le)
qed

lemma slots_disjoint: "k \<in> set (slots 1) \<longleftrightarrow> k \<notin> set (slots 2)" if "k < 80"
  using that by (auto simp: set_slots)

lemma ch_put_frame:
  assumes "length bs \<le> psize" "ch_put psize t bs m = Some m'" "set (slots t) \<inter> set (slots t') = {}"
  shows "contents psize t' m' = contents psize t' m"
  using assms(1)
proof (cases rule: ch_put_cases [where type = t and block = m])
  case (put k b')
  then have "k < 80" "k \<notin> set (slots t')" using assms(3) slots_less by auto
  moreover have "m' = flip k b'" using put assms(2) by simp
  ultimately show ?thesis using put by (simp add: contents_flip_other same_but_contents)
qed (use assms in auto)

lemma ch_get_frame:
  assumes "ch_get psize t m = Some (x, m')" "set (slots t) \<inter> set (slots t') = {}"
  shows "contents psize t' m' = contents psize t' m"
proof (cases rule: ch_get_cases [of psize t m])
  case (get k)
  then have "k < 80" "k \<notin> set (slots t')" using assms(2) slots_less by auto
  moreover have "m' = flip k m" using get assms(1) by simp
  ultimately show ?thesis by (simp add: contents_flip_other)
qed (use assms in auto)

lemma halves_disjoint: "set (slots 1) \<inter> set (slots 2) = {}" "set (slots 2) \<inter> set (slots 1) = {}"
  by (auto simp: set_slots)

interpretation data_box: mailbox "contents DPARTITION_SIZE 3" 80 "ch_put DPARTITION_SIZE 3"
  "ch_get DPARTITION_SIZE 3" "\<lambda>bs. length bs = DPARTITION_SIZE"
  using mailbox_block [of DPARTITION_SIZE 3] by (simp add: slots_def del: upt_rec_numeral)

interpretation comm_box: duplex
  "contents CPARTITION_SIZE 1" 40 "ch_put CPARTITION_SIZE 1" "ch_get CPARTITION_SIZE 1" "\<lambda>bs. length bs = CPARTITION_SIZE"
  "contents CPARTITION_SIZE 2" 40 "ch_put CPARTITION_SIZE 2" "ch_get CPARTITION_SIZE 2" "\<lambda>bs. length bs = CPARTITION_SIZE"
proof (intro duplex.intro duplex_axioms.intro)
  show "mailbox (contents CPARTITION_SIZE 1) 40 (ch_put CPARTITION_SIZE 1) (ch_get CPARTITION_SIZE 1)
      (\<lambda>bs. length bs = CPARTITION_SIZE)"
    "mailbox (contents CPARTITION_SIZE 2) 40 (ch_put CPARTITION_SIZE 2) (ch_get CPARTITION_SIZE 2)
      (\<lambda>bs. length bs = CPARTITION_SIZE)"
    using mailbox_block [of CPARTITION_SIZE 1] mailbox_block [of CPARTITION_SIZE 2]
    by (simp_all add: slots_def del: upt_rec_numeral)
qed (erule ch_put_frame [rotated] ch_get_frame; simp add: halves_disjoint)+


section \<open>Properties\<close>





end
