(* ===== verification/Libpq.thy ===== *)
theory Libpq
  imports CPrelude
begin

text \<open>
  The PostgreSQL client library, as far as the program uses it, and the functions every process
  builds on it: \<open>storelog.c\<close>, \<open>connect_to_database\<close>, \<open>prepare_statements\<close>, \<open>rollback\<close> and \<open>commit\<close>.
  libpq and the server are not part of the repository: they are the fields of \<open>pq\<close>, on a server
  state \<open>'c\<close> that no function of the program looks into.  What the program relies on is the
  locale \<open>pg_server\<close>, which states the documented behaviour of transactions.
\<close>

section \<open>The interface of libpq\<close>

text \<open>\<open>PGRES_COMMAND_OK\<close>, \<open>PGRES_TUPLES_OK\<close>, and all statuses the program treats as failures.\<close>

datatype pg_status = COMMAND_OK | TUPLES_OK | FATAL_ERROR

record pgresult =
  res_status :: pg_status
  res_rows :: "byte list list list"

text \<open>A parameter in text format is a C string (its length is ignored); in binary format the bytes.\<close>

datatype param = Text "byte list" | Binary "byte list"

record 'c pq =
  pq_connectdb :: "byte list \<Rightarrow> bool \<times> 'c"
  pq_exec :: "string \<Rightarrow> 'c \<Rightarrow> pgresult \<times> 'c"
  pq_prepare :: "string \<Rightarrow> string \<Rightarrow> nat \<Rightarrow> 'c \<Rightarrow> pgresult \<times> 'c"
  pq_exec_prepared :: "string \<Rightarrow> param list \<Rightarrow> int \<Rightarrow> 'c \<Rightarrow> pgresult \<times> 'c"
  pq_errmsg :: "'c \<Rightarrow> byte list"

record 'c world =
  conn :: 'c
  syslog :: "byte list list"

definition PQexec :: "'c pq \<Rightarrow> string \<Rightarrow> 'c world \<Rightarrow> pgresult \<times> 'c world" where
  "PQexec pq cmd w = (let (r, c) = pq_exec pq cmd (conn w) in (r, w\<lparr>conn := c\<rparr>))"

definition PQprepare :: "'c pq \<Rightarrow> string \<Rightarrow> string \<Rightarrow> nat \<Rightarrow> 'c world \<Rightarrow> pgresult \<times> 'c world" where
  "PQprepare pq name sql n w = (let (r, c) = pq_prepare pq name sql n (conn w) in (r, w\<lparr>conn := c\<rparr>))"

definition PQexecPrepared :: "'c pq \<Rightarrow> string \<Rightarrow> param list \<Rightarrow> int \<Rightarrow> 'c world \<Rightarrow> pgresult \<times> 'c world" where
  "PQexecPrepared pq name ps fmt w = (let (r, c) = pq_exec_prepared pq name ps fmt (conn w) in (r, w\<lparr>conn := c\<rparr>))"

definition PQerrorMessage :: "'c pq \<Rightarrow> 'c world \<Rightarrow> byte list" where
  "PQerrorMessage pq w = pq_errmsg pq (conn w)"

definition PQntuples :: "pgresult \<Rightarrow> nat" where
  "PQntuples r = length (res_rows r)"

text \<open>The bytes of a field, without the NUL libpq puts after them; a field that is not there is a null pointer.\<close>

definition PQgetvalue :: "pgresult \<Rightarrow> nat \<Rightarrow> nat \<Rightarrow> byte list option" where
  "PQgetvalue r i j =
     (if i < length (res_rows r) \<and> j < length (res_rows r ! i) then Some (res_rows r ! i ! j) else None)"

text \<open>A char array passed as a text parameter is read to its first NUL.\<close>

definition text_param :: "byte list \<Rightarrow> param option" where
  "text_param buf = map_option Text (c_string buf)"

definition log_syslog :: "byte list \<Rightarrow> 'c world \<Rightarrow> 'c world" where
  "log_syslog msg w = w\<lparr>syslog := syslog w @ [msg]\<rparr>"


section \<open>\<open>storelog\<close>\<close>

text \<open>An argument after the format; a double is given by the text \<open>"%lf"\<close> prints for it.\<close>

datatype vararg = VInt cint | VStr "byte list" | VFloat "byte list"

text \<open>\<open>strncat(log, src, 1000)\<close> on the array \<open>log[1000]\<close>, with the NUL it writes after the text.\<close>

definition strncat_log :: "byte list \<Rightarrow> byte list \<Rightarrow> byte list option" where
  "strncat_log log src =
     (let t = take 1000 (cstr src) in if length log + length t < 1000 then Some (log @ t) else None)"

fun logfmt :: "string \<Rightarrow> vararg list \<Rightarrow> byte list \<Rightarrow> byte list option" where
  "logfmt [] args log = Some log"
| "logfmt (f # fmt) args log =
     (if f = CHR ''c'' then
        case args of VInt i # args' \<Rightarrow> do { log1 \<leftarrow> strncat_log log [ucast i]; logfmt fmt args' log1 } | _ \<Rightarrow> None
      else if f = CHR ''s'' then
        case args of VStr s # args' \<Rightarrow> do { log1 \<leftarrow> strncat_log log s; logfmt fmt args' log1 } | _ \<Rightarrow> None
      else if f = CHR ''d'' then
        case args of VInt i # args' \<Rightarrow> do { log1 \<leftarrow> strncat_log log (take 999 (dec (sint i))); logfmt fmt args' log1 } | _ \<Rightarrow> None
      else if f = CHR ''f'' then
        case args of VFloat t # args' \<Rightarrow> do { log1 \<leftarrow> strncat_log log (take 999 t); logfmt fmt args' log1 } | _ \<Rightarrow> None
      else logfmt fmt args log)"

definition storelog :: "'c pq \<Rightarrow> string \<Rightarrow> vararg list \<Rightarrow> 'c world \<Rightarrow> 'c world option" where
  "storelog pq fmt args w = do {
     log \<leftarrow> logfmt fmt args [];
     let (r, w1) = PQexecPrepared pq ''storelog'' [Text log] 0 w;
     Some (if res_status r \<noteq> COMMAND_OK
           then log_syslog (bytes ''logging failed '' @ PQerrorMessage pq w1 @ bytes '' , log '' @ log @ [10]) w1
           else w1) }"

text \<open>The text the arguments spell, without the bound of the array.\<close>

fun arg_text :: "char \<Rightarrow> vararg \<Rightarrow> byte list option" where
  "arg_text f (VInt i) = (if f = CHR ''c'' then Some (cstr [ucast i])
                          else if f = CHR ''d'' then Some (dec (sint i)) else None)"
| "arg_text f (VStr s) = (if f = CHR ''s'' then Some (cstr s) else None)"
| "arg_text f (VFloat t) = (if f = CHR ''f'' then Some (take 999 (cstr t)) else None)"

fun log_text :: "string \<Rightarrow> vararg list \<Rightarrow> byte list option" where
  "log_text [] args = Some []"
| "log_text (f # fmt) [] = (if f \<in> set ''csdf'' then None else log_text fmt [])"
| "log_text (f # fmt) (a # args) =
     (if f \<in> set ''csdf'' then do { t \<leftarrow> arg_text f a; ts \<leftarrow> log_text fmt args; Some (t @ ts) }
      else log_text fmt (a # args))"

lemma length_dec_sint: "length (dec (sint (i :: cint))) \<le> 11"
proof -
  have "- (2 ^ 31) \<le> sint i" "sint i < 2 ^ 31" using sint_greater_eq [of i] sint_less [of i] by auto
  then show ?thesis using length_dec [of 10 "sint i"] by simp
qed

lemma cstr_dec [cstr_simps]: "cstr (dec i) = dec i"
  using cstr_append_replicate [OF dec_no_nul, of i 0] by simp

lemma cstr_take: "cstr (take n s) = take n (cstr s)"
  unfolding cstr_def by (induction s arbitrary: n) (auto simp: take_Cons split: nat.splits)

lemma strncat_log_bound:
  "strncat_log log s = (if length log + length (cstr s) < 1000 then Some (log @ cstr s) else None)"
  by (auto simp: strncat_log_def Let_def min_def)

lemma logfmt_log_text:
  "length log < 1000 \<Longrightarrow> logfmt fmt args log =
   (case log_text fmt args of None \<Rightarrow> None | Some t \<Rightarrow> if length log + length t < 1000 then Some (log @ t) else None)"
proof (induction fmt args log rule: logfmt.induct)
  case (2 f fmt args log)
  have d: "take 999 (dec (sint i)) = dec (sint i)" for i :: cint
    using length_dec_sint [of i] by simp
  show ?case
  proof (cases args)
    case (Cons a as)
    show ?thesis
      using 2 by (cases a) (auto simp: Cons strncat_log_bound cstr_take cstr_dec d bind_eq_None_conv
          split: option.splits)
  qed (use 2 in auto)
qed simp

lemma storelog_text:
  "storelog pq fmt args w =
   (case log_text fmt args of
      None \<Rightarrow> None
    | Some t \<Rightarrow> if 1000 \<le> length t then None
        else let (r, w1) = PQexecPrepared pq ''storelog'' [Text t] 0 w
             in Some (if res_status r = COMMAND_OK then w1
                      else log_syslog (bytes ''logging failed '' @ PQerrorMessage pq w1 @ bytes '' , log '' @ t @ [10]) w1))"
  by (simp add: storelog_def logfmt_log_text split: option.splits prod.splits)

text \<open>The connection after \<open>storelog\<close>: one execution of one statement.\<close>

lemma storelog_conn:
  "storelog pq fmt args w = Some w' \<Longrightarrow>
   \<exists>t r. pq_exec_prepared pq ''storelog'' [Text t] 0 (conn w) = (r, conn w')"
  by (auto simp: storelog_text PQexecPrepared_def log_syslog_def Let_def split: option.splits prod.splits if_splits) blast+


section \<open>Connecting and preparing\<close>

definition connect_to_database :: "'c pq \<Rightarrow> byte list \<Rightarrow> 'c world \<Rightarrow> int \<times> 'c world" where
  "connect_to_database pq conninfo w =
     (let (ok, c) = pq_connectdb pq conninfo; w1 = w\<lparr>conn := c\<rparr>
      in if \<not> ok
         then (-1, log_syslog (bytes ''Connection to database failed: '' @ PQerrorMessage pq w1 @ [10]) w1)
         else (0, w1))"

text \<open>The table \<open>dbs\<close> of each process: statement name, SQL text, number of parameters.\<close>

type_synonym db_statement = "string \<times> string \<times> nat"

fun prepare_statements :: "'c pq \<Rightarrow> db_statement list \<Rightarrow> 'c world \<Rightarrow> int \<times> 'c world" where
  "prepare_statements pq [] w = (0, w)"
| "prepare_statements pq ((name, sql, n) # dbs) w =
     (let (r, w1) = PQprepare pq name sql n w
      in if res_status r \<noteq> COMMAND_OK
         then (-1, log_syslog (bytes ''Preparation of statement failed: '' @ PQerrorMessage pq w1 @ [10]) w1)
         else prepare_statements pq dbs w1)"

definition stmt_name :: "db_statement list \<Rightarrow> nat \<Rightarrow> string" where
  "stmt_name dbs i = fst (dbs ! i)"


lemma PQexecPrepared_conn: "PQexecPrepared pq n ps f w = (r, w') \<Longrightarrow> pq_exec_prepared pq n ps f (conn w) = (r, conn w')"
  by (auto simp: PQexecPrepared_def split: prod.splits)

lemma PQexec_conn: "PQexec pq cmd w = (r, w') \<Longrightarrow> pq_exec pq cmd (conn w) = (r, conn w')"
  by (auto simp: PQexec_def split: prod.splits)


section \<open>Transactions\<close>

text \<open>\<open>rollback\<close> and \<open>commit\<close> of \<open>processor_s.c\<close> and \<open>initial_sender.c\<close>, which differ in the name they log.\<close>

definition rollback :: "'c pq \<Rightarrow> string \<Rightarrow> 'c world \<Rightarrow> 'c world option" where
  "rollback pq who w =
     (let (r, w1) = PQexec pq ''ROLLBACK'' w
      in if res_status r \<noteq> COMMAND_OK
         then storelog pq ''%s%s''
           [VStr (bytes (''ROLLBACK command for transaction failed in '' @ who @ '' : '')), VStr (PQerrorMessage pq w1)] w1
         else Some w1)"

definition commit :: "'c pq \<Rightarrow> string \<Rightarrow> 'c world \<Rightarrow> (int \<times> 'c world) option" where
  "commit pq who w =
     (let (r, w1) = PQexec pq ''COMMIT'' w
      in if res_status r \<noteq> COMMAND_OK
         then do {
           w2 \<leftarrow> storelog pq ''%s%s''
             [VStr (bytes (''COMMIT for transaction command failed in '' @ who @ '' : '')), VStr (PQerrorMessage pq w1)] w1;
           w3 \<leftarrow> rollback pq who w2;
           Some (-1, w3) }
         else Some (0, w1))"

text \<open>
  What the program relies on of the server.  \<open>tables\<close> is the content of the tables other than
  \<open>logs\<close> as this connection sees it, \<open>saved\<close> their content when the open transaction began,
  \<open>failed\<close> whether a statement of that transaction has failed, and \<open>effect\<close> what each prepared
  statement does to the tables when it succeeds.  Of the statements that return rows only
  \<open>pr_getcomms\<close>, a \<open>DELETE ... RETURNING\<close>, changes a table.
\<close>

definition is_query :: "string \<Rightarrow> bool" where
  "is_query name \<longleftrightarrow> name \<in> {''s_get_info'', ''s_get_data'', ''s_get_comms'', ''pr_getcomms'', ''get_info'', ''get_data'',
     ''check_file_existence'', ''show_stats'', ''show_jobs_info'', ''get_files_info''}"

locale pg_server =
  fixes pq :: "'c pq"
    and tables :: "'c \<Rightarrow> 't"
    and saved :: "'c \<Rightarrow> 't option"
    and failed :: "'c \<Rightarrow> bool"
    and effect :: "string \<Rightarrow> param list \<Rightarrow> 't \<Rightarrow> 't"
  assumes begin_tx: "saved c = None \<Longrightarrow> pq_exec pq ''BEGIN'' c = (r, c') \<Longrightarrow>
      tables c' = tables c \<and> \<not> failed c' \<and> saved c' = (if res_status r = COMMAND_OK then Some (tables c) else None)"
    and rollback_tx: "pq_exec pq ''ROLLBACK'' c = (r, c') \<Longrightarrow>
      saved c' = None \<and> \<not> failed c' \<and> tables c' = (case saved c of Some t \<Rightarrow> t | None \<Rightarrow> tables c)"
    and commit_tx: "saved c = Some t \<Longrightarrow> pq_exec pq ''COMMIT'' c = (r, c') \<Longrightarrow>
      saved c' = None \<and> \<not> failed c' \<and> tables c' = (if res_status r = COMMAND_OK \<and> \<not> failed c then tables c else t)"
    and run_ok: "pq_exec_prepared pq name ps fmt c = (r, c') \<Longrightarrow> res_status r \<noteq> FATAL_ERROR \<Longrightarrow>
      \<not> failed c \<and> \<not> failed c' \<and> saved c' = saved c \<and> tables c' = effect name ps (tables c)"
    and run_failed: "pq_exec_prepared pq name ps fmt c = (r, c') \<Longrightarrow> res_status r = FATAL_ERROR \<Longrightarrow>
      saved c' = saved c \<and> (saved c = None \<longrightarrow> tables c' = tables c \<and> (failed c' \<longrightarrow> failed c))"
    and storelog_effect: "effect ''storelog'' ps t = t"
    and select_effect: "is_query name \<Longrightarrow> name \<noteq> ''pr_getcomms'' \<Longrightarrow> effect name ps t = t"
    and status_kind: "pq_exec_prepared pq name ps fmt c = (r, c') \<Longrightarrow> res_status r \<noteq> FATAL_ERROR \<Longrightarrow>
      res_status r = (if is_query name then TUPLES_OK else COMMAND_OK)"
    and delete_none: "pq_exec_prepared pq ''pr_getcomms'' ps fmt c = (r, c') \<Longrightarrow> res_status r \<noteq> FATAL_ERROR \<Longrightarrow>
      res_rows r = [] \<Longrightarrow> effect ''pr_getcomms'' ps (tables c) = tables c"
    and update_conns_idem: "effect ''s_update_conns'' ps (effect ''s_update_conns'' ps t) = effect ''s_update_conns'' ps t"
begin

lemma storelog_saved:
  assumes "storelog pq fmt args w = Some w'"
  shows "saved (conn w') = saved (conn w)"
    and "saved (conn w) = None \<Longrightarrow> tables (conn w') = tables (conn w) \<and> (failed (conn w') \<longrightarrow> failed (conn w))"
proof -
  obtain t r where e: "pq_exec_prepared pq ''storelog'' [Text t] 0 (conn w) = (r, conn w')"
    using storelog_conn [OF assms] by blast
  show "saved (conn w') = saved (conn w)"
    using run_ok [OF e] run_failed [OF e] by blast
  assume "saved (conn w) = None"
  then show "tables (conn w') = tables (conn w) \<and> (failed (conn w') \<longrightarrow> failed (conn w))"
    using run_ok [OF e] run_failed [OF e] storelog_effect by auto
qed

lemma rollback_restores:
  assumes "rollback pq who w = Some w'"
  shows "saved (conn w') = None \<and> \<not> failed (conn w') \<and>
    tables (conn w') = (case saved (conn w) of Some t \<Rightarrow> t | None \<Rightarrow> tables (conn w))"
proof -
  obtain r c where e: "pq_exec pq ''ROLLBACK'' (conn w) = (r, c)" by (cases "pq_exec pq ''ROLLBACK'' (conn w)")
  let ?w1 = "w\<lparr>conn := c\<rparr>"
  have "w' = ?w1 \<or> (\<exists>fmt args. storelog pq fmt args ?w1 = Some w')"
    using assms e by (auto simp: rollback_def PQexec_def split: if_splits)
  then show ?thesis
    using rollback_tx [OF e] storelog_saved [of _ _ ?w1 w'] by auto
qed

lemma commit_or_restore:
  assumes "commit pq who w = Some (st, w')" "saved (conn w) = Some t" "\<not> failed (conn w)"
  shows "saved (conn w') = None \<and> \<not> failed (conn w') \<and>
    (st = 0 \<and> tables (conn w') = tables (conn w) \<or> st = -1 \<and> tables (conn w') = t)"
proof -
  obtain r c where e: "pq_exec pq ''COMMIT'' (conn w) = (r, c)" by (cases "pq_exec pq ''COMMIT'' (conn w)")
  let ?w1 = "w\<lparr>conn := c\<rparr>"
  note tx = commit_tx [OF assms(2) e]
  have "st = 0 \<and> w' = ?w1 \<and> res_status r = COMMAND_OK \<or>
      (\<exists>fmt args w2. storelog pq fmt args ?w1 = Some w2 \<and> rollback pq who w2 = Some w' \<and> st = -1 \<and>
         res_status r \<noteq> COMMAND_OK)"
    using assms(1) e by (auto simp: commit_def PQexec_def bind_eq_Some_conv split: if_splits)
  then show ?thesis
  proof (elim disjE exE conjE)
    fix fmt args w2
    assume a: "storelog pq fmt args ?w1 = Some w2" "rollback pq who w2 = Some w'" "st = -1" "res_status r \<noteq> COMMAND_OK"
    then show ?thesis using tx storelog_saved [OF a(1)] rollback_restores [OF a(2)] by auto
  qed (use tx assms(3) in auto)
qed

text \<open>A transaction that ends by \<open>rollback\<close> after statements that may have failed leaves no trace.\<close>

lemma log_and_rollback:
  assumes "saved (conn w) = Some t" "storelog pq fmt args w = Some w1" "rollback pq who w1 = Some w'"
  shows "saved (conn w') = None \<and> \<not> failed (conn w') \<and> tables (conn w') = t"
  using storelog_saved(1) [OF assms(2)] rollback_restores [OF assms(3)] assms(1) by simp

lemma query_step:
  assumes "PQexecPrepared pq name ps f w = (r, w')" "res_status r \<noteq> FATAL_ERROR"
  shows "\<not> failed (conn w) \<and> \<not> failed (conn w') \<and> saved (conn w') = saved (conn w) \<and>
    tables (conn w') = effect name ps (tables (conn w))"
  using run_ok [OF PQexecPrepared_conn [OF assms(1)] assms(2)] .

lemma failed_step:
  assumes "PQexecPrepared pq name ps f w = (r, w')"
  shows "saved (conn w') = saved (conn w)"
  using run_ok [OF PQexecPrepared_conn [OF assms]] run_failed [OF PQexecPrepared_conn [OF assms]] by blast

lemma autocommit_step:
  assumes "PQexecPrepared pq name ps f w = (r, w')" "saved (conn w) = None"
  shows "saved (conn w') = None \<and>
    tables (conn w') = (if res_status r = FATAL_ERROR then tables (conn w) else effect name ps (tables (conn w)))"
  using run_ok [OF PQexecPrepared_conn [OF assms(1)]] run_failed [OF PQexecPrepared_conn [OF assms(1)]] assms(2) by auto

lemma log_outside_tx:
  assumes "storelog pq fmt args w = Some w'" "saved (conn w) = None"
  shows "saved (conn w') = None \<and> tables (conn w') = tables (conn w)"
  using storelog_saved [OF assms(1)] assms(2) by simp

lemma command_kind:
  assumes "PQexecPrepared pq name ps f w = (r, w')" "\<not> is_query name"
  shows "res_status r = COMMAND_OK \<or> res_status r = FATAL_ERROR"
  using status_kind [OF PQexecPrepared_conn [OF assms(1)]] assms(2) by auto

end

text \<open>
  Claim C36: \<open>storelog\<close> is undefined exactly when its arguments do not match the format or spell 1000
  bytes or more, which overflows the array \<open>log\<close>; otherwise it executes the statement \<open>storelog\<close>
  once, with the concatenation of its arguments, and reports a failure of it to syslog only.
\<close>

theorem storelog_logs_concatenation:
  "storelog pq fmt args w =
   (case log_text fmt args of
      None \<Rightarrow> None
    | Some t \<Rightarrow> if 1000 \<le> length t then None
        else let (r, c) = pq_exec_prepared pq ''storelog'' [Text t] 0 (conn w)
             in Some \<lparr>conn = c, syslog = syslog w @
                  (if res_status r = COMMAND_OK then []
                   else [bytes ''logging failed '' @ pq_errmsg pq c @ bytes '' , log '' @ t @ [10]])\<rparr>)"
  by (auto simp: storelog_text PQexecPrepared_def log_syslog_def PQerrorMessage_def split: option.splits prod.splits)

end
