(* ===== verification/Database.thy ===== *)
theory Database
  imports Libpq
begin

text \<open>
  A server for the interface of \<open>Libpq\<close>: the tables of \<open>db/build_schema.sql\<close> the C programs touch,
  the effect and the rows of every SQL statement in their headers, and transactions with a snapshot
  to return to.  A script of faults decides which commands the server refuses, so that statements
  about this server cover every pattern of failures.  The interpretation at the end shows that it
  keeps the promises of \<open>pg_server\<close>, on which the theories of the processes rest.
\<close>

section \<open>Tables\<close>

record job =
  jobid :: "byte list"
  jobdata :: "byte list"
  jstate :: string
  jtype :: string
  jsource :: "byte list"
  jparent_jobid :: "byte list"
  jdestination :: "byte list"
  jpriority :: "byte list"

record sysinfo_row =
  system_name :: "byte list"
  ipaddress :: int
  dataport :: int
  comssport :: int
  system_capacity :: int

record sending_conn =
  sfd :: int
  sipaddr :: int
  scstatus :: int

record senders_comm =
  scommid :: int
  mdata1 :: int
  mdata2 :: int
  mtype :: string

record receiving_conn =
  rfd :: int
  ripaddr :: int
  rcstatus :: int

record receivers_comm =
  rcomid :: int
  rdata1 :: int
  rdata2 :: int

record file_row =
  file_id :: "byte list"
  file_name :: "byte list"
  file_data_oid :: "byte list"
  time_of_insertion :: "byte list"

text \<open>\<open>server_files\<close> are the paths \<open>lo_import\<close> can read, \<open>current_time\<close> is the text of \<open>CURRENT_TIMESTAMP\<close>.\<close>

record tables =
  job_scheduler :: "job list"
  sysinfo :: "sysinfo_row list"
  sending_conns :: "sending_conn list"
  senders_comms :: "senders_comm list"
  receiving_conns :: "receiving_conn list"
  receivers_comms :: "receivers_comm list"
  files :: "file_row list"
  server_files :: "byte list list"
  current_time :: "byte list"
  uuids :: nat

text \<open>\<open>GEN_RANDOM_UUID()\<close>: the texts are the numbers drawn so far, padded to the 36 characters of a uuid.\<close>

definition uuid_text :: "nat \<Rightarrow> byte list" where
  "uuid_text n = (let t = dec_nat n in replicate (36 - length t) 48 @ t)"

fun text_of :: "param \<Rightarrow> byte list" where
  "text_of (Text t) = t"
| "text_of (Binary t) = t"

definition int_of :: "param \<Rightarrow> int" where
  "int_of p = strtol (text_of p)"

definition where_set :: "('a \<Rightarrow> bool) \<Rightarrow> ('a \<Rightarrow> 'a) \<Rightarrow> 'a list \<Rightarrow> 'a list" where
  "where_set P f rows = List.map (\<lambda>r. if P r then f r else r) rows"

text \<open>\<open>ORDER BY k DESC LIMIT 1\<close> and \<open>ORDER BY t LIMIT 1\<close> on text.\<close>

fun pick_max :: "('a \<Rightarrow> int) \<Rightarrow> 'a list \<Rightarrow> 'a option" where
  "pick_max k [] = None"
| "pick_max k (x # xs) = (case pick_max k xs of None \<Rightarrow> Some x | Some y \<Rightarrow> Some (if k x \<ge> k y then x else y))"

fun text_le :: "byte list \<Rightarrow> byte list \<Rightarrow> bool" where
  "text_le [] _ = True"
| "text_le (_ # _) [] = False"
| "text_le (a # as) (b # bs) = (a < b \<or> a = b \<and> text_le as bs)"

fun pick_min_text :: "('a \<Rightarrow> byte list) \<Rightarrow> 'a list \<Rightarrow> 'a option" where
  "pick_min_text k [] = None"
| "pick_min_text k (x # xs) =
     (case pick_min_text k xs of None \<Rightarrow> Some x | Some y \<Rightarrow> Some (if text_le (k x) (k y) then x else y))"

fun option_rows :: "('a \<Rightarrow> byte list list) \<Rightarrow> 'a option \<Rightarrow> byte list list list" where
  "option_rows f None = []"
| "option_rows f (Some x) = [f x]"

definition first :: "'a list \<Rightarrow> 'a option" where
  "first xs = (case xs of [] \<Rightarrow> None | x # _ \<Rightarrow> Some x)"

section \<open>The statements of the headers\<close>

text \<open>The candidates of \<open>s_get_info\<close>: jobs ready to be sent whose destination has an open connection.\<close>

definition ready_jobs :: "tables \<Rightarrow> (sending_conn \<times> job) list" where
  "ready_jobs t = [(sc, js). js \<leftarrow> job_scheduler t, si \<leftarrow> sysinfo t, sc \<leftarrow> sending_conns t,
     jdestination js = system_name si \<and> sipaddr sc = ipaddress si \<and> scstatus sc = 2 \<and> jstate js = ''S-4'']"

definition handshake_jobs :: "tables \<Rightarrow> (sysinfo_row \<times> job) list" where
  "handshake_jobs t = [(si, js). js \<leftarrow> job_scheduler t, si \<leftarrow> sysinfo t,
     jdestination js = system_name si \<and> jstate js = ''S-5'']"

definition pending_comms :: "tables \<Rightarrow> senders_comm list" where
  "pending_comms t = [c \<leftarrow> senders_comms t. mtype c \<in> {''1'', ''2''}]"

definition root_jobs :: "tables \<Rightarrow> job list" where
  "root_jobs t = [j \<leftarrow> job_scheduler t. jparent_jobid j = jobid j]"

text \<open>\<open>lpad(t, n, ' ')\<close>, which also cuts a longer text, and the blanks behind a value of type \<open>CHAR(n)\<close>.\<close>

definition lpad :: "nat \<Rightarrow> byte list \<Rightarrow> byte list" where
  "lpad n t = replicate (n - length t) 32 @ take n t"

definition bpchar :: "nat \<Rightarrow> byte list \<Rightarrow> byte list" where
  "bpchar n t = t @ replicate (n - length t) 32"

text \<open>A text read as \<open>INT\<close>: blanks around an optional sign and digits, in range.\<close>

definition int_text :: "byte list \<Rightarrow> bool" where
  "int_text t =
     (let s = dropWhile is_space t; d = (if s \<noteq> [] \<and> hd s \<in> {43, 45} then tl s else s) in
      takeWhile is_digit d \<noteq> [] \<and> list_all is_space (dropWhile is_digit d) \<and> - (2 ^ 31) \<le> strtol t \<and> strtol t < 2 ^ 31)"

text \<open>
  A text read as \<open>bytea\<close>: hexadecimal after \<open>\x\<close>, otherwise a backslash stands before another or before three octal
  digits.  \<open>encode(b, 'escape')\<close> writes it.
\<close>

fun bytea_escape :: "byte list \<Rightarrow> byte list option" where
  "bytea_escape [] = Some []"
| "bytea_escape (c # cs) =
     (if c \<noteq> 92 then map_option ((#) c) (bytea_escape cs)
      else case cs of [] \<Rightarrow> None
        | a # as \<Rightarrow> if a = 92 then map_option ((#) 92) (bytea_escape as)
          else case as of b1 # b2 # bs \<Rightarrow>
              if 48 \<le> a \<and> a \<le> 51 \<and> 48 \<le> b1 \<and> b1 \<le> 55 \<and> 48 \<le> b2 \<and> b2 \<le> 55
              then map_option ((#) ((a - 48) * 64 + (b1 - 48) * 8 + (b2 - 48))) (bytea_escape bs) else None
            | _ \<Rightarrow> None)"

definition hex_val :: "byte \<Rightarrow> byte option" where
  "hex_val b = (if is_digit b then Some (b - 48) else if 65 \<le> b \<and> b \<le> 70 then Some (b - 55)
     else if 97 \<le> b \<and> b \<le> 102 then Some (b - 87) else None)"

fun bytea_hex :: "byte list \<Rightarrow> byte list option" where
  "bytea_hex [] = Some []"
| "bytea_hex (a # as) =
     (if is_space a then bytea_hex as
      else case as of [] \<Rightarrow> None
        | b # bs \<Rightarrow> do { x \<leftarrow> hex_val a; y \<leftarrow> hex_val b; map_option ((#) (x * 16 + y)) (bytea_hex bs) })"

definition bytea_in :: "byte list \<Rightarrow> byte list option" where
  "bytea_in t = (if take 2 t = [92, 120] then bytea_hex (drop 2 t) else bytea_escape t)"

definition bytea_out :: "byte list \<Rightarrow> byte list" where
  "bytea_out bs = concat (List.map (\<lambda>c. if c = 92 then [92, 92]
     else if c = 0 \<or> 128 \<le> c then [92, 48 + c div 64, 48 + c div 8 mod 8, 48 + c mod 8] else [c]) bs)"

text \<open>The views of \<open>db/build_schema.sql\<close>; the order of their rows is that of the tables.\<close>

definition job_group :: "job \<Rightarrow> byte list list" where
  "job_group j = [bpchar 5 (bytes (jstate j)), jpriority j, jdestination j, bytes (jtype j)]"

definition show_stats_view :: "tables \<Rightarrow> byte list list list" where
  "show_stats_view t = (let gs = List.map job_group (job_scheduler t) in
     List.map (\<lambda>g. dec_nat (count_list gs g) # g) (remdups gs))"

definition show_jobs_view :: "tables \<Rightarrow> byte list list list" where
  "show_jobs_view t = [[jobid j, bytea_out (jobdata j), bpchar 5 (bytes (jstate j)), jpriority j, jdestination j]. j \<leftarrow> job_scheduler t, jtype j = ''    6'']"

definition show_files_view :: "tables \<Rightarrow> byte list list list" where
  "show_files_view t = List.map (\<lambda>f. [file_id f, file_name f, file_data_oid f, time_of_insertion f]) (files t)"

definition sql_rows :: "string \<Rightarrow> param list \<Rightarrow> tables \<Rightarrow> byte list list list" where
  "sql_rows name ps t =
     (if name = ''s_get_info'' then
        option_rows (\<lambda>(sc, js). [dec (sfd sc), jobid js]) (pick_max (\<lambda>(sc, js). strtol (jpriority js)) (ready_jobs t))
      else if name \<in> {''s_get_data'', ''get_data''} then
        [[jobdata j]. j \<leftarrow> job_scheduler t, jobid j = text_of (ps ! 0)]
      else if name = ''s_get_comms'' then
        option_rows (\<lambda>c. [bytes (mtype c), dec (mdata1 c), dec (mdata2 c), dec (scommid c)]) (first (pending_comms t))
      else if name = ''pr_getcomms'' then
        option_rows (\<lambda>c. [dec (rdata1 c), dec (rdata2 c)]) (first (receivers_comms t))
      else if name = ''get_info'' then
        option_rows (\<lambda>(si, js). [dec (comssport si), dec (ipaddress si), jobid js])
          (pick_min_text (\<lambda>(si, js). jpriority js) (handshake_jobs t))
      else if name = ''check_file_existence'' then [[[49]]. f \<leftarrow> files t, file_name f = text_of (ps ! 0)]
      else if name = ''show_stats'' then show_stats_view t
      else if name = ''show_jobs_info'' then show_jobs_view t
      else if name = ''get_files_info'' then show_files_view t
      else [])"

definition set_job_state :: "byte list \<Rightarrow> (string \<Rightarrow> string) \<Rightarrow> tables \<Rightarrow> tables" where
  "set_job_state u f t = t\<lparr>job_scheduler := where_set (\<lambda>j. jobid j = u) (\<lambda>j. j\<lparr>jstate := f (jstate j)\<rparr>) (job_scheduler t)\<rparr>"

definition insert_job :: "byte list \<Rightarrow> byte list \<Rightarrow> tables \<Rightarrow> tables" where
  "insert_job source data t = t\<lparr>job_scheduler := job_scheduler t @
     [\<lparr>jobid = uuid_text (uuids t), jobdata = data, jstate = ''N-1'', jtype = ''0'', jsource = source,
       jparent_jobid = (case root_jobs t of [] \<Rightarrow> [] | j # _ \<Rightarrow> jobid j), jdestination = bytes ''0'', jpriority = bytes ''5''\<rparr>],
     uuids := Suc (uuids t)\<rparr>"

definition insert_file :: "byte list \<Rightarrow> tables \<Rightarrow> tables" where
  "insert_file name t = t\<lparr>files := files t @
     [\<lparr>file_id = uuid_text (uuids t), file_name = name, file_data_oid = dec_nat (16384 + length (files t)), time_of_insertion = current_time t\<rparr>],
     uuids := Suc (uuids t)\<rparr>"

definition insert_send_job :: "byte list \<Rightarrow> byte list \<Rightarrow> tables \<Rightarrow> tables" where
  "insert_send_job data dest t = t\<lparr>job_scheduler := job_scheduler t @
     [\<lparr>jobid = uuid_text (uuids t), jobdata = data, jstate = ''S'', jtype = ''    6'',
       jsource = (case root_jobs t of [] \<Rightarrow> [] | j # _ \<Rightarrow> jsource j),
       jparent_jobid = (case root_jobs t of [] \<Rightarrow> [] | j # _ \<Rightarrow> jobid j), jdestination = lpad 5 dest, jpriority = bytes ''5''\<rparr>],
     uuids := Suc (uuids t)\<rparr>"

definition upsert_receiving :: "int \<Rightarrow> int \<Rightarrow> int \<Rightarrow> receiving_conn list \<Rightarrow> receiving_conn list" where
  "upsert_receiving fd ip st rows =
     (if \<exists>r \<in> set rows. rfd r = fd then where_set (\<lambda>r. rfd r = fd) (\<lambda>r. r\<lparr>rcstatus := st\<rparr>) rows
      else rows @ [\<lparr>rfd = fd, ripaddr = ip, rcstatus = st\<rparr>])"

definition sql_effect :: "string \<Rightarrow> param list \<Rightarrow> tables \<Rightarrow> tables" where
  "sql_effect name ps t =
     (if name = ''s_update_conns'' then
        t\<lparr>sending_conns := where_set (\<lambda>c. sipaddr c = int_of (ps ! 0))
             (\<lambda>c. c\<lparr>scstatus := int_of (ps ! 2), sfd := int_of (ps ! 1)\<rparr>) (sending_conns t)\<rparr>
      else if name = ''s_update_job_status2'' then
        set_job_state (text_of (ps ! 0)) (\<lambda>_. if int_of (ps ! 1) > 0 then ''C'' else ''D'') t
      else if name = ''s_update_job_status1'' then
        set_job_state (text_of (ps ! 0)) (\<lambda>s. s @ ''W'') t
      else if name = ''s_update_comms'' then
        t\<lparr>senders_comms := where_set (\<lambda>c. scommid c = int_of (ps ! 0)) (\<lambda>c. c\<lparr>mtype := mtype c @ ''W''\<rparr>) (senders_comms t)\<rparr>
      else if name = ''s_delete_comms'' then
        t\<lparr>senders_comms := [c \<leftarrow> senders_comms t. scommid c \<noteq> int_of (ps ! 0)]\<rparr>
      else if name \<in> {''r_insert_data'', ''store_data''} then
        insert_job (text_of (ps ! 0)) (text_of (ps ! 1)) t
      else if name = ''r_insert_conns'' then
        t\<lparr>receiving_conns := upsert_receiving (int_of (ps ! 0)) (int_of (ps ! 1)) (int_of (ps ! 2)) (receiving_conns t)\<rparr>
      else if name = ''pr_getcomms'' then
        t\<lparr>receivers_comms := drop 1 (receivers_comms t)\<rparr>
      else if name = ''update_status'' then
        set_job_state (text_of (ps ! 1)) (\<lambda>_. if int_of (ps ! 0) > 0 then ''C'' else ''D'') t
      else if name = ''import_file'' then insert_file (text_of (ps ! 0)) t
      else if name = ''create_job_for_sending'' then
        insert_send_job (the (bytea_in (text_of (ps ! 0)))) (text_of (ps ! 1)) t
      else if name = ''update_job_priority'' then
        t\<lparr>job_scheduler := where_set (\<lambda>j. jparent_jobid j = text_of (ps ! 0) \<or> jobid j = text_of (ps ! 0))
             (\<lambda>j. j\<lparr>jpriority := text_of (ps ! 1)\<rparr>) (job_scheduler t)\<rparr>
      else t)"

text \<open>\<open>ORDER BY jpriority::INT\<close> has a number for every candidate.\<close>

definition int_priorities :: "tables \<Rightarrow> bool" where
  "int_priorities t \<longleftrightarrow> list_all (\<lambda>(sc, js). int_text (jpriority js)) (ready_jobs t)"

text \<open>
  Statements with errors of their own: a text that is no uuid, a parent that is not unique, a priority that is
  no number where \<open>s_get_info\<close> sorts by it, a path the server cannot read or a file it has, a text that is no \<open>bytea\<close>.
\<close>

definition sql_ok :: "string \<Rightarrow> param list \<Rightarrow> tables \<Rightarrow> bool" where
  "sql_ok name ps t =
     (if name \<in> {''s_update_job_status1'', ''s_update_job_status2'', ''s_get_data'', ''get_data''} then length (text_of (ps ! 0)) = 36
      else if name = ''update_status'' then length (text_of (ps ! 1)) = 36
      else if name \<in> {''r_insert_data'', ''store_data''} then length (root_jobs t) = 1
      else if name = ''s_get_info'' then int_priorities t
      else if name = ''import_file'' then
        text_of (ps ! 1) \<in> set (server_files t) \<and> text_of (ps ! 0) \<notin> file_name ` set (files t)
      else if name = ''create_job_for_sending'' then length (root_jobs t) = 1 \<and> bytea_in (text_of (ps ! 0)) \<noteq> None
      else if name = ''update_job_priority'' then length (text_of (ps ! 0)) = 36
      else True)"


section \<open>The server\<close>

record server =
  tabs :: tables
  logs :: "byte list list"
  snapshot :: "(tables \<times> byte list list) option"
  tx_failed :: bool
  prepared :: "(string \<times> nat) list"
  faults :: "bool list"

definition next_fault :: "server \<Rightarrow> bool \<times> server" where
  "next_fault s = (case faults s of [] \<Rightarrow> (False, s) | b # bs \<Rightarrow> (b, s\<lparr>faults := bs\<rparr>))"

definition refused :: pgresult where
  "refused = \<lparr>res_status = FATAL_ERROR, res_rows = []\<rparr>"

definition done_ok :: pgresult where
  "done_ok = \<lparr>res_status = COMMAND_OK, res_rows = []\<rparr>"

definition abort :: "server \<Rightarrow> server" where
  "abort s = (case snapshot s of
      None \<Rightarrow> s\<lparr>tx_failed := False\<rparr>
    | Some (t, l) \<Rightarrow> s\<lparr>tabs := t, logs := l, snapshot := None, tx_failed := False\<rparr>)"

definition db_exec :: "string \<Rightarrow> server \<Rightarrow> pgresult \<times> server" where
  "db_exec cmd s0 =
     (let (fault, s) = next_fault s0 in
      if cmd = ''BEGIN'' then
        if fault then (refused, s\<lparr>tx_failed := snapshot s \<noteq> None\<rparr>)
        else if snapshot s = None then (done_ok, s\<lparr>snapshot := Some (tabs s, logs s), tx_failed := False\<rparr>)
        else (done_ok, s)
      else if cmd = ''ROLLBACK'' then (if fault then refused else done_ok, abort s)
      else if cmd = ''COMMIT'' then
        if fault then (refused, abort s)
        else if tx_failed s then (done_ok, abort s)
        else (done_ok, s\<lparr>snapshot := None\<rparr>)
      else if take 7 cmd = ''LISTEN '' \<and> \<not> fault \<and> \<not> tx_failed s then (done_ok, s)
      else (refused, s\<lparr>tx_failed := snapshot s \<noteq> None\<rparr>))"

definition db_exec_prepared :: "string \<Rightarrow> param list \<Rightarrow> int \<Rightarrow> server \<Rightarrow> pgresult \<times> server" where
  "db_exec_prepared name ps fmt s0 =
     (let (fault, s) = next_fault s0 in
      if fault \<or> tx_failed s \<or> (name, length ps) \<notin> set (prepared s) \<or> \<not> sql_ok name ps (tabs s)
      then (refused, s\<lparr>tx_failed := snapshot s \<noteq> None\<rparr>)
      else (\<lparr>res_status = (if is_query name then TUPLES_OK else COMMAND_OK), res_rows = sql_rows name ps (tabs s)\<rparr>,
            s\<lparr>tabs := sql_effect name ps (tabs s),
              logs := (if name = ''storelog'' then logs s @ [text_of (ps ! 0)] else logs s)\<rparr>))"

definition db_prepare :: "string \<Rightarrow> string \<Rightarrow> nat \<Rightarrow> server \<Rightarrow> pgresult \<times> server" where
  "db_prepare name sql n s0 =
     (let (fault, s) = next_fault s0 in
      if fault \<or> name \<in> fst ` set (prepared s) then (refused, s)
      else (done_ok, s\<lparr>prepared := (name, n) # prepared s\<rparr>))"

definition db_errmsg :: "server \<Rightarrow> byte list" where
  "db_errmsg s = bytes ''ERROR:  command failed''"

definition empty_tables :: tables where
  "empty_tables = \<lparr>job_scheduler = [], sysinfo = [], sending_conns = [], senders_comms = [],
     receiving_conns = [], receivers_comms = [], files = [], server_files = [], current_time = [], uuids = 0\<rparr>"

definition new_server :: "tables \<Rightarrow> (string \<times> nat) list \<Rightarrow> bool list \<Rightarrow> server" where
  "new_server t pr fs = \<lparr>tabs = t, logs = [], snapshot = None, tx_failed = False, prepared = pr, faults = fs\<rparr>"

definition pg :: "server pq" where
  "pg = \<lparr>pq_connectdb = (\<lambda>info. (True, new_server empty_tables [] [])), pq_exec = db_exec,
     pq_prepare = db_prepare, pq_exec_prepared = db_exec_prepared, pq_errmsg = db_errmsg\<rparr>"

lemma next_fault_same [simp]:
  "next_fault s = (b, s') \<Longrightarrow> tabs s' = tabs s \<and> logs s' = logs s \<and> snapshot s' = snapshot s \<and>
     tx_failed s' = tx_failed s \<and> prepared s' = prepared s"
  by (auto simp: next_fault_def split: list.splits)

lemma next_fault_none: "faults s = [] \<Longrightarrow> next_fault s = (False, s)"
  by (simp add: next_fault_def)

interpretation db: pg_server pg tabs "\<lambda>s. map_option fst (snapshot s)" tx_failed sql_effect
proof
  fix c c' :: server and r :: pgresult
  assume "map_option fst (snapshot c) = None" "pq_exec pg ''BEGIN'' c = (r, c')"
  then show "tabs c' = tabs c \<and> \<not> tx_failed c' \<and>
    map_option fst (snapshot c') = (if res_status r = COMMAND_OK then Some (tabs c) else None)"
    by (auto simp: pg_def db_exec_def refused_def done_ok_def split: prod.splits if_splits)
next
  fix c c' :: server and r :: pgresult
  assume "pq_exec pg ''ROLLBACK'' c = (r, c')"
  then show "map_option fst (snapshot c') = None \<and> \<not> tx_failed c' \<and>
    tabs c' = (case map_option fst (snapshot c) of None \<Rightarrow> tabs c | Some t \<Rightarrow> t)"
    by (auto simp: pg_def db_exec_def abort_def split: prod.splits if_splits option.splits)
next
  fix c c' :: server and r :: pgresult and t
  assume "map_option fst (snapshot c) = Some t" "pq_exec pg ''COMMIT'' c = (r, c')"
  then show "map_option fst (snapshot c') = None \<and> \<not> tx_failed c' \<and>
    tabs c' = (if res_status r = COMMAND_OK \<and> \<not> tx_failed c then tabs c else t)"
    by (auto simp: pg_def db_exec_def abort_def refused_def done_ok_def split: prod.splits if_splits option.splits)
next
  fix c c' :: server and r :: pgresult and name ps fmt
  assume "pq_exec_prepared pg name ps fmt c = (r, c')" "res_status r \<noteq> FATAL_ERROR"
  then show "\<not> tx_failed c \<and> \<not> tx_failed c' \<and> map_option fst (snapshot c') = map_option fst (snapshot c) \<and>
    tabs c' = sql_effect name ps (tabs c)"
    by (auto simp: pg_def db_exec_prepared_def refused_def split: prod.splits if_splits)
next
  fix c c' :: server and r :: pgresult and name ps fmt
  assume "pq_exec_prepared pg name ps fmt c = (r, c')" "res_status r = FATAL_ERROR"
  then show "map_option fst (snapshot c') = map_option fst (snapshot c) \<and>
    (map_option fst (snapshot c) = None \<longrightarrow> tabs c' = tabs c \<and> (tx_failed c' \<longrightarrow> tx_failed c))"
    by (auto simp: pg_def db_exec_prepared_def split: prod.splits if_splits)
next
  show "sql_effect ''storelog'' ps t = t" for ps t by (simp add: sql_effect_def)
  show "is_query name \<Longrightarrow> name \<noteq> ''pr_getcomms'' \<Longrightarrow> sql_effect name ps t = t" for name ps t
    unfolding is_query_def by (elim insertE emptyE; simp add: sql_effect_def)
  show "pq_exec_prepared pg name ps fmt c = (r, c') \<Longrightarrow> res_status r \<noteq> FATAL_ERROR \<Longrightarrow>
      res_status r = (if is_query name then TUPLES_OK else COMMAND_OK)" for name ps fmt c r c'
    by (auto simp: pg_def db_exec_prepared_def refused_def split: prod.splits if_splits)
  show "pq_exec_prepared pg ''pr_getcomms'' ps fmt c = (r, c') \<Longrightarrow> res_status r \<noteq> FATAL_ERROR \<Longrightarrow> res_rows r = [] \<Longrightarrow>
      sql_effect ''pr_getcomms'' ps (tabs c) = tabs c" for ps fmt c r c'
    by (cases "receivers_comms (tabs c)")
      (auto simp: pg_def db_exec_prepared_def refused_def sql_rows_def sql_effect_def first_def split: prod.splits if_splits)
  show "sql_effect ''s_update_conns'' ps (sql_effect ''s_update_conns'' ps t) = sql_effect ''s_update_conns'' ps t" for ps t
    by (simp add: sql_effect_def where_set_def)
qed



section \<open>Values written and read\<close>

lemma octal_digits:
  fixes c :: byte
  shows "48 \<le> 48 + c div 64 \<and> 48 + c div 64 \<le> 51 \<and> 48 + c div 64 \<noteq> 92 \<and> 48 + c div 64 \<noteq> 120 \<and> 48 \<le> 48 + c div 8 mod 8 \<and> 48 + c div 8 mod 8 \<le> 55 \<and>
    48 \<le> 48 + c mod 8 \<and> 48 + c mod 8 \<le> 55 \<and> c div 64 * 64 + c div 8 mod 8 * 8 + c mod 8 = c"
proof -
  have "\<forall>n \<in> set [0 ..< 256]. let c = word_of_nat n :: byte in
    48 \<le> 48 + c div 64 \<and> 48 + c div 64 \<le> 51 \<and> 48 + c div 64 \<noteq> 92 \<and> 48 + c div 64 \<noteq> 120 \<and> 48 \<le> 48 + c div 8 mod 8 \<and> 48 + c div 8 mod 8 \<le> 55 \<and>
    48 \<le> 48 + c mod 8 \<and> 48 + c mod 8 \<le> 55 \<and> c div 64 * 64 + c div 8 mod 8 * 8 + c mod 8 = c" by code_simp
  moreover have "unat c \<in> set [0 ..< 256]" using unsigned_less [of c] by simp
  moreover have "word_of_nat (unat c) = c" by simp
  ultimately show ?thesis by (metis (lifting))
qed

lemma bytea_round_trip: "bytea_in (bytea_out bs) = Some bs"
proof -
  have "bytea_escape (bytea_out bs) = Some bs"
    unfolding bytea_out_def by (induction bs) (auto simp: octal_digits)
  moreover have "take 2 (bytea_out bs) \<noteq> [92, 120]"
  proof
    assume "take 2 (bytea_out bs) = [92, 120]"
    then obtain r where "bytea_out bs = 92 # 120 # r" by (metis append_Cons append_Nil append_take_drop_id)
    then show False using octal_digits by (cases bs) (auto simp: bytea_out_def split: if_splits)
  qed
  ultimately show ?thesis by (simp add: bytea_in_def)
qed


section \<open>Commands the server does not refuse\<close>

lemma filter_key: "distinct (List.map f xs) \<Longrightarrow> x \<in> set xs \<Longrightarrow> [y \<leftarrow> xs. f y = f x] = [x]"
proof (induction xs)
  case (Cons y ys)
  show ?case
  proof (cases "x = y")
    case True
    have "f y \<notin> f ` set ys" using Cons.prems(1) by simp
    then have "\<forall>z \<in> set ys. f z \<noteq> f y" by (metis imageI)
    with True have "[z \<leftarrow> ys. f z = f x] = []" by (simp add: filter_empty_conv)
    with True show ?thesis by simp
  next
    case False
    with Cons have "f y \<noteq> f x" "x \<in> set ys" by auto
    with Cons show ?thesis by simp
  qed
qed simp

lemma pick_max_None [simp]: "pick_max k xs = None \<longleftrightarrow> xs = []"
  by (cases xs) (auto split: option.splits)

lemma pick_max_Some: "pick_max k xs = Some x \<Longrightarrow> x \<in> set xs \<and> (\<forall>y \<in> set xs. k y \<le> k x)"
proof (induction xs arbitrary: x)
  case (Cons a xs)
  then show ?case by (fastforce split: option.splits if_splits)
qed simp

lemma ready_jobs_job: "(sc, js) \<in> set (ready_jobs t) \<Longrightarrow> js \<in> set (job_scheduler t) \<and> jstate js = ''S-4'' \<and> scstatus sc = 2"
  by (auto simp: ready_jobs_def)

lemma data_rows:
  assumes "distinct (List.map jobid (job_scheduler t))" "js \<in> set (job_scheduler t)"
  shows "[[jobdata j]. j \<leftarrow> job_scheduler t, jobid j = jobid js] = [[jobdata js]]"
proof -
  have rows: "[[jobdata j]. j \<leftarrow> xs, jobid j = u] = List.map (\<lambda>j. [jobdata j]) [j \<leftarrow> xs. jobid j = u]" for xs u
    by (induction xs) auto
  show ?thesis unfolding rows filter_key [OF assms] by simp
qed

text \<open>A server on which a set of statements is prepared, no transaction is open and nothing will fail.\<close>

definition healthy :: "(string \<times> nat) set \<Rightarrow> server \<Rightarrow> bool" where
  "healthy names c \<longleftrightarrow> snapshot c = None \<and> faults c = [] \<and> \<not> tx_failed c \<and> names \<subseteq> set (prepared c)"

lemma run_healthy:
  assumes "faults c = []" "\<not> tx_failed c" "(name, length ps) \<in> set (prepared c)" "sql_ok name ps (tabs c)"
  shows "PQexecPrepared pg name ps fmt \<lparr>conn = c, syslog = l\<rparr> =
    (\<lparr>res_status = (if is_query name then TUPLES_OK else COMMAND_OK), res_rows = sql_rows name ps (tabs c)\<rparr>,
     \<lparr>conn = c\<lparr>tabs := sql_effect name ps (tabs c),
       logs := (if name = ''storelog'' then logs c @ [text_of (ps ! 0)] else logs c)\<rparr>, syslog = l\<rparr>)"
  using assms by (simp add: PQexecPrepared_def pg_def db_exec_prepared_def next_fault_none)


lemma tx_healthy:
  assumes "healthy names c"
  shows "PQexec pg ''BEGIN'' \<lparr>conn = c, syslog = l\<rparr> = (done_ok, \<lparr>conn = c\<lparr>snapshot := Some (tabs c, logs c), tx_failed := False\<rparr>, syslog = l\<rparr>)"
    and "PQexec pg ''COMMIT'' \<lparr>conn = c\<lparr>snapshot := Some (t, g), tx_failed := False\<rparr>, syslog = l\<rparr> = (done_ok, \<lparr>conn = c, syslog = l\<rparr>)"
    and "PQexec pg ''ROLLBACK'' \<lparr>conn = c\<lparr>snapshot := Some (tabs c, logs c), tx_failed := False, logs := g\<rparr>, syslog = l\<rparr> = (done_ok, \<lparr>conn = c, syslog = l\<rparr>)"
  using assms by (auto simp: PQexec_def pg_def db_exec_def healthy_def next_fault_none done_ok_def abort_def)


text \<open>A small content for the witnesses: a root, one job ready to be sent, one open connection.\<close>

definition demo_uuid :: "byte list" where
  "demo_uuid = replicate 36 97"

definition demo_root :: job where
  "demo_root = \<lparr>jobid = replicate 36 98, jobdata = bytes ''__ROOT__'', jstate = ''N-0'', jtype = ''0'', jsource = bytes ''   M3'',
     jparent_jobid = replicate 36 98, jdestination = bytes ''   M3'', jpriority = bytes ''0''\<rparr>"

definition demo_job :: job where
  "demo_job = \<lparr>jobid = demo_uuid, jobdata = bytes ''hello'', jstate = ''S-4'', jtype = ''1'', jsource = bytes ''   M3'',
     jparent_jobid = replicate 36 98, jdestination = bytes ''   M4'', jpriority = bytes ''5''\<rparr>"

definition demo_conn :: sending_conn where
  "demo_conn = \<lparr>sfd = 9, sipaddr = 2130706433, scstatus = 2\<rparr>"

definition demo_tables :: tables where
  "demo_tables = \<lparr>job_scheduler = [demo_root, demo_job],
     sysinfo = [\<lparr>system_name = bytes ''   M4'', ipaddress = 2130706433, dataport = 6001, comssport = 6000, system_capacity = 32768\<rparr>],
     sending_conns = [demo_conn],
     senders_comms = [\<lparr>scommid = 1, mdata1 = 2130706433, mdata2 = 6001, mtype = ''1''\<rparr>],
     receiving_conns = [], receivers_comms = [\<lparr>rcomid = 1, rdata1 = 2130706433, rdata2 = 32768\<rparr>],
     files = [], server_files = [], current_time = [], uuids = 0\<rparr>"

lemma demo_ready: "ready_jobs demo_tables = [(demo_conn, demo_job)]"
  by (simp add: ready_jobs_def demo_tables_def demo_root_def demo_job_def demo_conn_def)

lemma demo_priorities: "int_priorities demo_tables"
proof -
  have "int_text (bytes ''5'')" by code_simp
  then show ?thesis by (simp add: int_priorities_def demo_ready demo_job_def)
qed

lemma demo_distinct: "distinct (List.map jobid (job_scheduler demo_tables))"
  by (simp add: demo_tables_def demo_root_def demo_job_def demo_uuid_def)

lemma demo_job_fields [simp]:
  "jobid demo_job = demo_uuid" "jobdata demo_job = bytes ''hello''" "length demo_uuid = 36" "0 \<notin> set demo_uuid"
  by (simp_all add: demo_job_def demo_uuid_def)

end
