(* ===== verification/ProcessorS.thy ===== *)
theory ProcessorS
  imports Channel Database
begin

text \<open>
  \<open>processor_s.c\<close>: the process between the database and the sender.  Each of its functions is a
  definition of the same name, on the block it is handed (with the address of the slot), the
  semaphores, and the connection.  A function that returns nothing for some input runs into
  undefined behaviour there or waits on a semaphore that is 0.

  The lemmas give, for every server that keeps the laws of \<open>pg_server\<close>, what each function leaves in
  the tables and in the shared blocks, on success and on every failure.
\<close>

section \<open>The statements and the shared state\<close>

text \<open>\<open>dbs\<close> of \<open>processor_s.h\<close>; runs of blanks in the SQL text are shortened.\<close>

definition dbs_s :: "db_statement list" where
  "dbs_s = [
    (''s_get_info'', ''SELECT sc.sfd, js.jobid FROM job_scheduler js JOIN sysinfo si ON js.jdestination = si.system_name JOIN sending_conns sc ON sc.sipaddr = si.ipaddress WHERE sc.scstatus = 2 AND js.jstate = 'S-4' ORDER BY js.jpriority::INT DESC LIMIT 1;'', 0),
    (''s_update_conns'', ''UPDATE sending_conns SET scstatus = ($3), sfd = ($2) WHERE sipaddr = ($1);'', 3),
    (''s_update_job_status2'', ''UPDATE job_scheduler SET jstate = (SELECT CASE WHEN ($2) > 0 THEN 'C' ELSE 'D' END) WHERE jobid = $1::uuid;'', 2),
    (''s_get_comms'', ''SELECT mtype, mdata1, mdata2, scommid FROM senders_comms WHERE mtype IN('1', '2') LIMIT 1;'', 0),
    (''s_update_job_status1'', ''UPDATE job_scheduler SET jstate = jstate || 'W' WHERE jobid = $1::uuid;'', 1),
    (''storelog'', ''INSERT INTO logs (log) VALUES ($1);'', 1),
    (''s_get_data'', ''SELECT jobdata FROM job_scheduler WHERE jobid = $1::uuid;'', 1),
    (''s_update_comms'', ''UPDATE senders_comms SET mtype = mtype || 'W' WHERE scommid = $1::INTEGER;'', 1),
    (''s_delete_comms'', ''DELETE FROM senders_comms WHERE scommid = $1::INTEGER;'', 1)]"

lemma stmt_name_dbs_s [simp]:
  "stmt_name dbs_s 0 = ''s_get_info''" "stmt_name dbs_s (Suc 0) = ''s_update_conns''"
  "stmt_name dbs_s 2 = ''s_update_job_status2''" "stmt_name dbs_s 3 = ''s_get_comms''"
  "stmt_name dbs_s 4 = ''s_update_job_status1''" "stmt_name dbs_s 6 = ''s_get_data''"
  "stmt_name dbs_s 7 = ''s_update_comms''" "stmt_name dbs_s 8 = ''s_delete_comms''"
  by (simp_all add: stmt_name_def dbs_s_def)

text \<open>What \<open>processor_s\<close> and \<open>sender\<close> share: two blocks, their locks, and a semaphore to wake each.\<close>

record s_shared =
  datas_block :: mem
  comms_block :: mem
  sem_lock_datas :: nat
  sem_lock_comms :: nat
  sem_lock_sigs :: nat
  sem_lock_sigps :: nat


section \<open>Taking a message from the database\<close>

definition fail_in_tx :: "'c pq \<Rightarrow> string \<Rightarrow> vararg list \<Rightarrow> mem \<Rightarrow> 'c world \<Rightarrow> (int \<times> mem \<times> 'c world) option" where
  "fail_in_tx pq fmt args blk w = do {
     w1 \<leftarrow> storelog pq fmt args w;
     w2 \<leftarrow> rollback pq ''processor_s'' w1;
     Some (-1, blk, w2) }"

text \<open>\<open>sndmsg\<close> is the slot at \<open>p\<close>: \<open>size\<close> at 0, \<open>fd\<close> at 4, \<open>uuid[37]\<close> at 8, \<open>data\<close> at 45.\<close>

definition retrive_data_from_database ::
  "'c pq \<Rightarrow> mem \<Rightarrow> nat \<Rightarrow> 'c world \<Rightarrow> (int \<times> mem \<times> 'c world) option" where
  "retrive_data_from_database pq blk p w0 =
     (let (res, w1) = PQexec pq ''BEGIN'' w0 in
      if res_status res \<noteq> COMMAND_OK then do {
        w2 \<leftarrow> storelog pq ''%s%s'' [VStr (bytes ''BEGIN command to start transaction failed in processor_s : ''),
                VStr (PQerrorMessage pq w1)] w1;
        Some (-1, blk, w2) }
      else
      let (res, w2) = PQexecPrepared pq (stmt_name dbs_s 0) [] 0 w1 in
      if res_status res \<noteq> TUPLES_OK then
        fail_in_tx pq ''%s%s'' [VStr (bytes ''failed to retrive info from db : ''), VStr (PQerrorMessage pq w2)] blk w2
      else if PQntuples res > 0 then do {
        fd \<leftarrow> PQgetvalue res 0 0;
        uuid \<leftarrow> PQgetvalue res 0 1;
        let blk1 = mwrite blk (p + 4) (le32 (atoi fd));
        blk2 \<leftarrow> memcpy_array blk1 (p + 8) 37 uuid;
        let blk3 = mwrite blk2 (p + 44) [0];
        param \<leftarrow> text_param (mread blk3 (p + 8) 37);
        let (res, w3) = PQexecPrepared pq (stmt_name dbs_s 6) [param] 1 w2;
        if res_status res \<noteq> TUPLES_OK then
          fail_in_tx pq ''%s%s'' [VStr (bytes ''failed to retrive data from db  : ''), VStr (PQerrorMessage pq w3)] blk3 w3
        else if PQntuples res > 0 then do {
          data \<leftarrow> PQgetvalue res 0 0;
          let blk4 = mwrite blk3 p (le32 (word_of_nat (length data)));
          blk5 \<leftarrow> memcpy_array blk4 (p + 45) MESSAGE_SIZE data;
          param \<leftarrow> text_param (mread blk5 (p + 8) 37);
          let (res, w4) = PQexecPrepared pq (stmt_name dbs_s 4) [param] 1 w3;
          if res_status res \<noteq> COMMAND_OK then
            fail_in_tx pq ''%s%s'' [VStr (bytes ''failed update job status : ''), VStr (PQerrorMessage pq w4)] blk5 w4
          else do {
            (st, w5) \<leftarrow> commit pq ''processor_s'' w4;
            Some (st, blk5, w5) } }
        else fail_in_tx pq ''%s'' [VStr (bytes '' processor s got no data rollback'')] blk3 w3 }
      else fail_in_tx pq ''%s'' [VStr (bytes '' processor s got no tuples info rollback'')] blk w2)"


section \<open>Storing a message of the sender\<close>

definition store_comms_into_database :: "'c pq \<Rightarrow> mem \<Rightarrow> nat \<Rightarrow> 'c world \<Rightarrow> (int \<times> 'c world) option" where
  "store_comms_into_database pq blk p w0 =
     (let msg = mread blk p CPARTITION_SIZE; type = get32 msg 0 in
      if type = 3 then do {
        let cncsts = dec_connection_status msg;
        ipaddress \<leftarrow> sprintf_buf 11 (dec (sint (cs_ipaddress cncsts)));
        fd \<leftarrow> sprintf_buf 11 (dec (sint (cs_fd cncsts)));
        mstatus \<leftarrow> sprintf_buf 11 (if 0 \<le> sint (cs_fd cncsts) then dec 2 else dec 1);
        let (res, w1) = PQexecPrepared pq (stmt_name dbs_s 1) [Text ipaddress, Text fd, Text mstatus] 0 w0;
        if res_status res \<noteq> COMMAND_OK then do {
          w2 \<leftarrow> storelog pq ''%s%s'' [VStr (bytes ''failed to update connection status : ''), VStr (PQerrorMessage pq w1)] w1;
          Some (-1, w2) }
        else do {
          cid \<leftarrow> sprintf_buf 37 (dec (sint (cs_scommid cncsts)));
          let (res, w2) = PQexecPrepared pq (stmt_name dbs_s 8) [Text cid] 0 w1;
          if res_status res \<noteq> COMMAND_OK then do {
            w3 \<leftarrow> storelog pq ''%s%d%s%s'' [VStr (bytes ''failed to delete comms id : ''), VInt (cs_scommid cncsts),
                    VStr (bytes '' errro : ''), VStr (PQerrorMessage pq w2)] w2;
            Some (-1, w3) }
          else Some (0, w2) } }
      else if type = 4 then do {
        let msgsts = dec_message_status msg;
        mstatus \<leftarrow> sprintf_buf 11 (dec (uint (ucast (ms_status msgsts) :: byte)));
        let cid = (ms_uuid msgsts)[36 := 0];
        param \<leftarrow> text_param cid;
        let (res, w1) = PQexecPrepared pq (stmt_name dbs_s 2) [param, Text mstatus] 0 w0;
        if res_status res \<noteq> COMMAND_OK then do {
          orig \<leftarrow> c_string (ms_uuid msgsts);
          w2 \<leftarrow> storelog pq ''%s%s%s%s%s%s%s'' [VStr (bytes ''original''), VStr orig,
                  VStr (bytes ''failed to update message status uuid : ''), VStr cid,
                  VStr (bytes '' mstatus : ''), VStr mstatus, VStr (PQerrorMessage pq w1)] w1;
          Some (-1, w2) }
        else Some (0, w1) }
      else do {
        w1 \<leftarrow> storelog pq ''%s'' [VStr (bytes ''invalid type of message received in processors store comms into database'')] w0;
        Some (-1, w1) })"


section \<open>Taking an instruction for the sender\<close>

text \<open>
  \<open>scommid[30]\<close> is filled by \<open>memcpy\<close> without a NUL, on a stack array that is not initialised:
  \<open>junk\<close> is what the stack holds there.
\<close>

definition update_comms_status :: "'c pq \<Rightarrow> byte list \<Rightarrow> mem \<Rightarrow> byte list \<Rightarrow> 'c world \<Rightarrow> (int \<times> mem \<times> 'c world) option" where
  "update_comms_status pq junk blk cid w0 = do {
     scommid \<leftarrow> (if length cid \<le> 30 then Some (cid @ drop (length cid) junk) else None);
     param \<leftarrow> text_param scommid;
     let (res, w1) = PQexecPrepared pq (stmt_name dbs_s 7) [param] 0 w0;
     if res_status res \<noteq> COMMAND_OK then do {
       w2 \<leftarrow> storelog pq ''%s%s'' [VStr (bytes ''failed to update comms status : ''), VStr (PQerrorMessage pq w1)] w1;
       Some (-1, blk, w2) }
     else Some (0, blk, w1) }"

definition retrive_comms_from_database ::
  "'c pq \<Rightarrow> byte list \<Rightarrow> mem \<Rightarrow> nat \<Rightarrow> 'c world \<Rightarrow> (int \<times> mem \<times> 'c world) option" where
  "retrive_comms_from_database pq junk blk p w0 =
     (let (res, w1) = PQexecPrepared pq (stmt_name dbs_s 3) [] 0 w0 in
      if res_status res \<noteq> TUPLES_OK then do {
        w2 \<leftarrow> storelog pq ''%s%s'' [VStr (bytes ''retriving comms for sender failed : ''), VStr (PQerrorMessage pq w1)] w1;
        Some (-1, blk, w2) }
      else if PQntuples res > 0 then do {
        v0 \<leftarrow> PQgetvalue res 0 0;
        if atoi v0 = 1 then do {
          v1 \<leftarrow> PQgetvalue res 0 1; v2 \<leftarrow> PQgetvalue res 0 2; v3 \<leftarrow> PQgetvalue res 0 3;
          let blk1 = mwrite (mwrite (mwrite (mwrite blk p (le32 (atoi v0))) (p + 8) (le32 (atoi v1)))
                       (p + 4) (le32 (atoi v2))) (p + 12) (le32 (atoi v3));
          update_comms_status pq junk blk1 v3 w1 }
        else if atoi v0 = 2 then do {
          v1 \<leftarrow> PQgetvalue res 0 1; v2 \<leftarrow> PQgetvalue res 0 2; v3 \<leftarrow> PQgetvalue res 0 3;
          let blk1 = mwrite (mwrite (mwrite (mwrite blk p (le32 (atoi v0))) (p + 8) (le32 (atoi v1)))
                       (p + 4) (le32 (atoi v2))) (p + 12) (le32 (atoi v3));
          update_comms_status pq junk blk1 v3 w1 }
        else do {
          w2 \<leftarrow> storelog pq ''%s'' [VStr (bytes ''invalid type of message received in processors retrive comms from db'')] w1;
          Some (-1, blk, w2) } }
      else Some (-1, blk, w1))"


section \<open>The three exchanges of the main loop\<close>

text \<open>Each holds the lock of its block from the first line to the last; \<open>_locked\<close> is the part between.\<close>

definition give_data_locked :: "'c pq \<Rightarrow> s_shared \<times> 'c world \<Rightarrow> (s_shared \<times> 'c world) option" where
  "give_data_locked pq = (\<lambda>(s, w).
     let k = get_subblock (datas_block s) 0 3 in
     if 0 \<le> k then do {
       let p = slot_addr DPARTITION_SIZE (nat k);
       let blk = mset_bytes (datas_block s) p 0 DPARTITION_SIZE;
       (r, blk1, w1) \<leftarrow> retrive_data_from_database pq blk p w;
       if r = 0 then do {
         blk2 \<leftarrow> toggle_bit k blk1;
         Some (s\<lparr>datas_block := blk2, sem_lock_sigs := sem_post (sem_lock_sigs s)\<rparr>, w1) }
       else Some (s\<lparr>datas_block := blk1\<rparr>, w1) }
     else Some (s, w))"

definition give_data_to_sender :: "'c pq \<Rightarrow> s_shared \<times> 'c world \<Rightarrow> (s_shared \<times> 'c world) option" where
  "give_data_to_sender pq = (\<lambda>(s, w). do {
     l \<leftarrow> sem_wait (sem_lock_datas s);
     (s1, w1) \<leftarrow> give_data_locked pq (s\<lparr>sem_lock_datas := l\<rparr>, w);
     Some (s1\<lparr>sem_lock_datas := sem_post (sem_lock_datas s1)\<rparr>, w1) })"

definition send_msg_locked :: "'c pq \<Rightarrow> byte list \<Rightarrow> s_shared \<times> 'c world \<Rightarrow> (s_shared \<times> 'c world) option" where
  "send_msg_locked pq junk = (\<lambda>(s, w).
     let k = get_subblock (comms_block s) 0 1 in
     if 0 \<le> k then do {
       let p = slot_addr CPARTITION_SIZE (nat k);
       let blk = mset_bytes (comms_block s) p 0 CPARTITION_SIZE;
       (r, blk1, w1) \<leftarrow> retrive_comms_from_database pq junk blk p w;
       if r = 0 then do {
         blk2 \<leftarrow> toggle_bit k blk1;
         Some (s\<lparr>comms_block := blk2, sem_lock_sigs := sem_post (sem_lock_sigs s)\<rparr>, w1) }
       else Some (s\<lparr>comms_block := blk1\<rparr>, w1) }
     else Some (s, w))"

definition send_msg_to_sender :: "'c pq \<Rightarrow> byte list \<Rightarrow> s_shared \<times> 'c world \<Rightarrow> (s_shared \<times> 'c world) option" where
  "send_msg_to_sender pq junk = (\<lambda>(s, w). do {
     l \<leftarrow> sem_wait (sem_lock_comms s);
     (s1, w1) \<leftarrow> send_msg_locked pq junk (s\<lparr>sem_lock_comms := l\<rparr>, w);
     Some (s1\<lparr>sem_lock_comms := sem_post (sem_lock_comms s1)\<rparr>, w1) })"

text \<open>\<open>do { ...; attempts -= 1; } while (attempts > 0 && status == -1)\<close>; the pause between attempts is left out.\<close>

fun store_comms_attempts :: "'c pq \<Rightarrow> mem \<Rightarrow> nat \<Rightarrow> nat \<Rightarrow> 'c world \<Rightarrow> (int \<times> 'c world) option" where
  "store_comms_attempts pq blk p attempts w = do {
     (status, w1) \<leftarrow> store_comms_into_database pq blk p w;
     if 0 < attempts - 1 \<and> status = -1 then store_comms_attempts pq blk p (attempts - 1) w1
     else Some (status, w1) }"

declare store_comms_attempts.simps [simp del]

definition read_msg_locked :: "'c pq \<Rightarrow> s_shared \<times> 'c world \<Rightarrow> (s_shared \<times> 'c world) option" where
  "read_msg_locked pq = (\<lambda>(s, w).
     let k = get_subblock (comms_block s) 1 2 in
     if 0 \<le> k then do {
       (status, w1) \<leftarrow> store_comms_attempts pq (comms_block s) (slot_addr CPARTITION_SIZE (nat k)) 3 w;
       blk \<leftarrow> toggle_bit k (comms_block s);
       Some (s\<lparr>comms_block := blk\<rparr>, w1) }
     else Some (s, w))"

definition read_msg_from_sender :: "'c pq \<Rightarrow> s_shared \<times> 'c world \<Rightarrow> (s_shared \<times> 'c world) option" where
  "read_msg_from_sender pq = (\<lambda>(s, w). do {
     l \<leftarrow> sem_wait (sem_lock_comms s);
     (s1, w1) \<leftarrow> read_msg_locked pq (s\<lparr>sem_lock_comms := l\<rparr>, w);
     Some (s1\<lparr>sem_lock_comms := sem_post (sem_lock_comms s1)\<rparr>, w1) })"

text \<open>One turn of \<open>run_process\<close>, and the first \<open>n\<close> turns of its endless loop.\<close>

definition run_process_once :: "'c pq \<Rightarrow> byte list \<Rightarrow> s_shared \<times> 'c world \<Rightarrow> (s_shared \<times> 'c world) option" where
  "run_process_once pq junk = (\<lambda>(s, w). do {
     n \<leftarrow> sem_wait (sem_lock_sigps s);
     x1 \<leftarrow> read_msg_from_sender pq (s\<lparr>sem_lock_sigps := n\<rparr>, w);
     x2 \<leftarrow> send_msg_to_sender pq junk x1;
     give_data_to_sender pq x2 })"

fun run_process :: "nat \<Rightarrow> 'c pq \<Rightarrow> byte list \<Rightarrow> s_shared \<times> 'c world \<Rightarrow> (s_shared \<times> 'c world) option" where
  "run_process 0 pq junk x = Some x"
| "run_process (Suc n) pq junk x = do { x1 \<leftarrow> run_process_once pq junk x; run_process n pq junk x1 }"

text \<open>What \<open>main\<close> does to the two blocks before the loop.\<close>

definition reset_blocks :: "s_shared \<Rightarrow> s_shared" where
  "reset_blocks s = s\<lparr>comms_block := unset_all_bits (unset_all_bits (comms_block s) 2) 3,
     datas_block := unset_all_bits (datas_block s) 1\<rparr>"


section \<open>What each function does to the tables\<close>

text \<open>The bytes of the slot \<open>p\<close> when a message has been taken from the database.\<close>

definition sent_slot :: "byte list \<Rightarrow> byte list \<Rightarrow> byte list \<Rightarrow> nat \<Rightarrow> mem \<Rightarrow> mem" where
  "sent_slot fd uuid data p blk =
     mwrite (mwrite (mwrite (mwrite (mwrite blk (p + 4) (le32 (atoi fd))) (p + 8) uuid) (p + 44) [0])
       p (le32 (word_of_nat (length data)))) (p + 45) data"

text \<open>The uuid the slot holds: at most 36 bytes of it, to the first NUL.\<close>

definition slot_uuid :: "byte list \<Rightarrow> nat \<Rightarrow> mem \<Rightarrow> byte list" where
  "slot_uuid uuid p blk = cstr (mread (mwrite (mwrite blk (p + 8) uuid) (p + 44) [0]) (p + 8) 37)"

text \<open>The answers the server gave to the two queries of \<open>retrive_data_from_database\<close>.\<close>

definition retrieved :: "'c pq \<Rightarrow> byte list \<Rightarrow> 'c world \<Rightarrow> byte list \<Rightarrow> byte list \<Rightarrow> byte list \<Rightarrow> bool" where
  "retrieved pq key w fd uuid data \<longleftrightarrow>
     (let (rb, w1) = PQexec pq ''BEGIN'' w;
          (ri, w2) = PQexecPrepared pq ''s_get_info'' [] 0 w1;
          (rd, w3) = PQexecPrepared pq ''s_get_data'' [Text key] 1 w2
      in res_status ri = TUPLES_OK \<and> PQgetvalue ri 0 0 = Some fd \<and> PQgetvalue ri 0 1 = Some uuid \<and>
         res_status rd = TUPLES_OK \<and> PQgetvalue rd 0 0 = Some data \<and>
         length uuid \<le> 37 \<and> length data \<le> MESSAGE_SIZE)"

lemma mread_last_nul: "0 \<in> set (mread (mwrite b (p + 44) [0]) (p + 8) 37)"
proof -
  have "mread (mwrite b (p + 44) [0]) (p + 8) 37 ! 36 = 0" by (simp add: mwrite_def)
  then show ?thesis using nth_mem [of 36 "mread (mwrite b (p + 44) [0]) (p + 8) 37"] by simp
qed

lemma slot_uuid_param:
  "text_param (mread (mwrite (mwrite (mwrite blk (p + 4) (le32 x)) (p + 8) uuid) (p + 44) [0]) (p + 8) 37) =
   Some (Text (slot_uuid uuid p blk))"
proof -
  have "mread (mwrite (mwrite (mwrite blk (p + 4) (le32 x)) (p + 8) uuid) (p + 44) [0]) (p + 8) 37 =
        mread (mwrite (mwrite blk (p + 8) uuid) (p + 44) [0]) (p + 8) 37"
    by (rule mread_cong) (auto simp: mwrite_def)
  then show ?thesis using mread_last_nul [of "mwrite blk (p + 8) uuid" p]
    by (simp add: text_param_def c_string_def slot_uuid_def)
qed

context pg_server
begin

lemma fail_in_tx_restores:
  assumes "fail_in_tx pq fmt args blk w = Some (r, blk', w')" "saved (conn w) = Some t"
  shows "r = -1 \<and> blk' = blk \<and> saved (conn w') = None \<and> \<not> failed (conn w') \<and> tables (conn w') = t"
  using assms log_and_rollback [OF assms(2)] by (auto simp: fail_in_tx_def bind_eq_Some_conv)

lemma retrive_data_outcome:
  assumes call: "retrive_data_from_database pq blk p w = Some (r, blk', w')" and none: "saved (conn w) = None"
  shows "saved (conn w') = None \<and>
    (r = 0 \<and> (\<exists>fd uuid data. retrieved pq (slot_uuid uuid p blk) w fd uuid data \<and>
        blk' = sent_slot fd uuid data p blk \<and>
        tables (conn w') = effect ''s_update_job_status1'' [Text (slot_uuid uuid p blk)] (tables (conn w)))
     \<or> r = -1 \<and> tables (conn w') = tables (conn w))"
proof -
  obtain rb w1 where b: "PQexec pq ''BEGIN'' w = (rb, w1)" by (cases "PQexec pq ''BEGIN'' w")
  note tx = begin_tx [OF none PQexec_conn [OF b]]
  show ?thesis
  proof (cases "res_status rb = COMMAND_OK")
    case False
    then show ?thesis
      using call tx b log_outside_tx [of _ _ w1]
      by (auto simp: retrive_data_from_database_def bind_eq_Some_conv)
  next
    case True
    then have sv1: "saved (conn w1) = Some (tables (conn w))" and t1: "tables (conn w1) = tables (conn w)"
      using tx by auto
    obtain ri w2 where i: "PQexecPrepared pq ''s_get_info'' [] 0 w1 = (ri, w2)"
      by (cases "PQexecPrepared pq ''s_get_info'' [] 0 w1")
    have sv2: "saved (conn w2) = Some (tables (conn w))" using failed_step [OF i] sv1 by simp
    note back2 = fail_in_tx_restores [OF _ sv2]
    show ?thesis
    proof (cases "res_status ri = TUPLES_OK \<and> PQntuples ri > 0")
      case False
      then show ?thesis using call b True i back2 none
        by (auto simp: retrive_data_from_database_def split: if_splits)
    next
      case q1: True
      from call b True i q1 obtain fd uuid where
        fd: "PQgetvalue ri 0 0 = Some fd" and uuid: "PQgetvalue ri 0 1 = Some uuid" "length uuid \<le> 37"
        by (auto simp: retrive_data_from_database_def bind_eq_Some_conv memcpy_array_def split: if_splits)
      define blk3 where "blk3 = mwrite (mwrite (mwrite blk (p + 4) (le32 (atoi fd))) (p + 8) uuid) (p + 44) [0]"
      let ?u = "Text (slot_uuid uuid p blk)"
      have par: "text_param (mread blk3 (p + 8) 37) = Some ?u" unfolding blk3_def by (rule slot_uuid_param)
      obtain rd w3 where d: "PQexecPrepared pq ''s_get_data'' [?u] 1 w2 = (rd, w3)"
        by (cases "PQexecPrepared pq ''s_get_data'' [?u] 1 w2")
      have sv3: "saved (conn w3) = Some (tables (conn w))" using failed_step [OF d] sv2 by simp
      note back3 = fail_in_tx_restores [OF _ sv3]
      show ?thesis
      proof (cases "res_status rd = TUPLES_OK \<and> PQntuples rd > 0")
        case False
        then show ?thesis using call b True i q1 fd uuid par d back3 none
          by (auto simp: retrive_data_from_database_def memcpy_array_def blk3_def [symmetric] split: if_splits)
      next
        case q2: True
        have c3: "retrive_data_from_database pq blk p w = do {
            data \<leftarrow> PQgetvalue rd 0 0;
            blk5 \<leftarrow> memcpy_array (mwrite blk3 p (le32 (word_of_nat (length data)))) (p + 45) MESSAGE_SIZE data;
            param \<leftarrow> text_param (mread blk5 (p + 8) 37);
            let (res, w4) = PQexecPrepared pq ''s_update_job_status1'' [param] 1 w3;
            if res_status res \<noteq> COMMAND_OK then
              fail_in_tx pq ''%s%s'' [VStr (bytes ''failed update job status : ''), VStr (PQerrorMessage pq w4)] blk5 w4
            else do { (st, w5) \<leftarrow> commit pq ''processor_s'' w4; Some (st, blk5, w5) } }"
          using b True i q1 fd uuid par d q2
          by (simp add: retrive_data_from_database_def memcpy_array_def blk3_def [symmetric])
        from call c3 obtain data where data: "PQgetvalue rd 0 0 = Some data" "length data \<le> MESSAGE_SIZE"
          by (auto simp: bind_eq_Some_conv memcpy_array_def split: if_splits)
        have blk5: "mwrite (mwrite blk3 p (le32 (word_of_nat (length data)))) (p + 45) data = sent_slot fd uuid data p blk"
          by (simp add: sent_slot_def blk3_def)
        have par5: "text_param (mread (sent_slot fd uuid data p blk) (p + 8) 37) = Some ?u"
          using par unfolding blk5 [symmetric] by (simp add: mread_mwrite_disjoint)
        obtain ru w4 where u: "PQexecPrepared pq ''s_update_job_status1'' [?u] 1 w3 = (ru, w4)"
          by (cases "PQexecPrepared pq ''s_update_job_status1'' [?u] 1 w3")
        have sv4: "saved (conn w4) = Some (tables (conn w))" using failed_step [OF u] sv3 by simp
        have t3: "tables (conn w3) = tables (conn w)"
          using query_step [OF i] query_step [OF d] q1 q2 t1 by (simp add: select_effect is_query_def)
        show ?thesis
        proof (cases "res_status ru = COMMAND_OK")
          case False
          then show ?thesis using call c3 data blk5 par5 u fail_in_tx_restores [OF _ sv4]
            by (auto simp: memcpy_array_def)
        next
          case ok: True
          have m: "commit pq ''processor_s'' w4 = Some (r, w')" "blk' = sent_slot fd uuid data p blk"
            using call c3 data blk5 par5 u ok by (auto simp: memcpy_array_def bind_eq_Some_conv)
          have "\<not> failed (conn w4)" "tables (conn w4) = effect ''s_update_job_status1'' [?u] (tables (conn w))"
            using query_step [OF u] ok t3 by auto
          moreover have "retrieved pq (slot_uuid uuid p blk) w fd uuid data"
            using b i d q1 q2 fd uuid data by (simp add: retrieved_def)
          ultimately show ?thesis using commit_or_restore [OF m(1) sv4] m(2) by auto
        qed
      qed
    qed
  qed
qed

end


section \<open>The message a slot holds\<close>

definition msg_of :: "byte list \<Rightarrow> byte list \<Rightarrow> byte list \<Rightarrow> send_message" where
  "msg_of fd uuid data = \<lparr>sm_size = word_of_nat (length data), sm_fd = atoi fd,
     sm_uuid = take 36 (uuid @ replicate 36 0) @ [0],
     sm_data = data @ replicate (MESSAGE_SIZE - length data) 0\<rparr>"

lemma wf_msg_of: "length data \<le> MESSAGE_SIZE \<Longrightarrow> wf_send_message (msg_of fd uuid data)"
  by (simp add: wf_send_message_def msg_of_def)

lemma cleared_slot: "mread (mset_bytes b p 0 n) (p + i) k = replicate k 0" if "i + k \<le> n"
  using that by (intro mread_mset_bytes_inside) auto

lemma mread_fields:
  "mread m p (4 + (4 + (36 + (1 + k)))) =
   mread m p 4 @ mread m (p + 4) 4 @ mread m (p + 8) 36 @ mread m (p + 44) 1 @ mread m (p + 45) k"
  unfolding mread_add by (simp add: add.assoc add.commute [of p])

lemma sent_slot_bytes:
  assumes "length uuid \<le> 37" "length data \<le> MESSAGE_SIZE"
  shows "mread (sent_slot fd uuid data p (mset_bytes b p 0 DPARTITION_SIZE)) p DPARTITION_SIZE =
    enc_send_message (msg_of fd uuid data) @ [0]"
proof -
  let ?z = "mset_bytes b p 0 DPARTITION_SIZE" and ?m = "sent_slot fd uuid data p (mset_bytes b p 0 DPARTITION_SIZE)"
  have n: "DPARTITION_SIZE = 4 + (4 + (36 + (1 + (MESSAGE_SIZE + 1))))" by (simp add: DPARTITION_SIZE_def)
  have "mread ?m p 4 = le32 (word_of_nat (length data))" "mread ?m (p + 4) 4 = le32 (atoi fd)"
    using assms(1) by (simp_all add: sent_slot_def mem_simps)
  moreover have "mread ?m (p + 8) 36 = take 36 (uuid @ replicate 36 0)"
    using assms(1) by (simp add: sent_slot_def mem_simps mread_mwrite_prefix cleared_slot n add.assoc)
  moreover have "mread ?m (p + 44) 1 = [0]"
    by (simp add: sent_slot_def mem_simps)
  moreover have "mread ?m (p + 45) (MESSAGE_SIZE + 1) = data @ replicate (MESSAGE_SIZE + 1 - length data) 0"
    using assms by (simp add: sent_slot_def mread_mwrite_prefix mem_simps cleared_slot n add.assoc)
  moreover have "replicate (MESSAGE_SIZE + 1 - length data) (0 :: byte) = replicate (MESSAGE_SIZE - length data) 0 @ [0]"
    using assms(2) by (simp add: Suc_diff_le replicate_append_same)
  ultimately show ?thesis
    unfolding n mread_fields by (simp add: enc_send_message_def msg_of_def)
qed

lemma slot_uuid_cleared:
  assumes "length uuid \<le> 37"
  shows "slot_uuid uuid p (mset_bytes b p 0 DPARTITION_SIZE) = cstr (take 36 uuid)"
proof -
  let ?z = "mset_bytes b p 0 DPARTITION_SIZE"
  let ?m = "mwrite (mwrite ?z (p + 8) uuid) (p + 44) [0]"
  have "mread ?m (p + 8) (36 + 1) = mread ?m (p + 8) 36 @ mread ?m (p + 44) 1"
    by (subst mread_add) (simp add: add.assoc)
  also have "\<dots> = take 36 uuid @ replicate (36 - length uuid) 0 @ [0]"
    using assms by (simp add: mread_mwrite_prefix mem_simps cleared_slot DPARTITION_SIZE_def add.assoc)
  also have "\<dots> = take 36 uuid @ replicate (Suc (36 - length uuid)) 0"
    by (simp only: replicate_Suc replicate_append_same)
  finally show ?thesis by (simp add: slot_uuid_def cstr_zeros del: replicate_Suc)
qed

lemma same_but_sent_slot:
  assumes "length uuid \<le> 37" "length data \<le> MESSAGE_SIZE" "p = slot_addr DPARTITION_SIZE k"
  shows "same_but DPARTITION_SIZE k b (sent_slot fd uuid data p (mset_bytes b p 0 DPARTITION_SIZE))"
  unfolding sent_slot_def
  using assms by (intro same_but_mwrite same_but_mset_bytes same_but_refl) (auto simp: DPARTITION_SIZE_def)

text \<open>A property of the block on every path on which the call returns.\<close>

definition on_return :: "(mem \<Rightarrow> bool) \<Rightarrow> (int \<times> mem \<times> 'c world) option \<Rightarrow> bool" where
  "on_return P x \<longleftrightarrow> (\<forall>r b w. x = Some (r, b, w) \<longrightarrow> P b)"

lemma on_returnI:
  "P b \<Longrightarrow> on_return P (Some (r, b, w))"
  "(\<And>y. x = Some y \<Longrightarrow> on_return P (f y)) \<Longrightarrow> on_return P (x \<bind> f)"
  "(c \<Longrightarrow> on_return P x1) \<Longrightarrow> (\<not> c \<Longrightarrow> on_return P x2) \<Longrightarrow> on_return P (if c then x1 else x2)"
  "(\<And>u v. on_return P (g u v)) \<Longrightarrow> on_return P (case z of (u, v) \<Rightarrow> g u v)"
  by (auto simp: on_return_def bind_eq_Some_conv split: prod.splits)

lemma on_return_fail_in_tx: "P b \<Longrightarrow> on_return P (fail_in_tx pq fmt args b w)"
  unfolding fail_in_tx_def by (intro on_returnI)

lemma retrive_data_frame:
  assumes "retrive_data_from_database pq b p w = Some (r, b', w')" "p = slot_addr DPARTITION_SIZE k"
  shows "same_but DPARTITION_SIZE k b b'"
proof -
  have w: "same_but DPARTITION_SIZE k b x \<Longrightarrow> i + length bs \<le> DPARTITION_SIZE \<Longrightarrow>
      same_but DPARTITION_SIZE k b (mwrite x (p + i) bs)" for x i bs
    using assms(2) by (intro same_but_mwrite) auto
  have d: "DPARTITION_SIZE = 46 + MESSAGE_SIZE" by (simp add: DPARTITION_SIZE_def)
  have c: "memcpy_array x (p + i) n bs = Some y \<Longrightarrow> same_but DPARTITION_SIZE k b x \<Longrightarrow> i + n \<le> DPARTITION_SIZE \<Longrightarrow>
      same_but DPARTITION_SIZE k b y" for x i n bs y
    by (auto simp: memcpy_array_def intro: w split: if_splits)
  have "on_return (same_but DPARTITION_SIZE k b) (retrive_data_from_database pq b p w)"
    unfolding retrive_data_from_database_def Let_def
    by (intro on_returnI on_return_fail_in_tx; ((erule c w | rule w w [of _ 0, simplified])+)?; simp add: d)
  then show ?thesis using assms(1) by (simp add: on_return_def)
qed

context pg_server
begin

lemma give_data_outcome:
  assumes call: "give_data_locked pq (s, w) = Some (s', w')" and none: "saved (conn w) = None"
  shows "saved (conn w') = None \<and>
    ((\<exists>b. s' = s\<lparr>datas_block := b\<rparr> \<and> contents DPARTITION_SIZE 3 b = contents DPARTITION_SIZE 3 (datas_block s)) \<and>
       tables (conn w') = tables (conn w)
     \<or> (\<exists>b fd uuid data. s' = s\<lparr>datas_block := b, sem_lock_sigs := Suc (sem_lock_sigs s)\<rparr> \<and>
          contents DPARTITION_SIZE 3 b =
            add_mset (enc_send_message (msg_of fd uuid data) @ [0]) (contents DPARTITION_SIZE 3 (datas_block s)) \<and>
          retrieved pq (cstr (take 36 uuid)) w fd uuid data \<and>
          tables (conn w') = effect ''s_update_job_status1'' [Text (cstr (take 36 uuid))] (tables (conn w))))"
proof (cases rule: free_slot_cases [where block = "datas_block s" and type = 3])
  case none
  then have "s' = s" "w' = w" using call by (auto simp: give_data_locked_def)
  then have "s' = s\<lparr>datas_block := datas_block s\<rparr>" "w' = w" by simp_all
  with assms show ?thesis by blast
next
  case (some k)
  let ?p = "slot_addr DPARTITION_SIZE k" and ?b = "datas_block s"
  let ?z = "mset_bytes ?b ?p 0 DPARTITION_SIZE"
  from call some obtain r b1 where r: "retrive_data_from_database pq ?z ?p w = Some (r, b1, w')"
    and s': "r = 0 \<and> s' = s\<lparr>datas_block := flip k b1, sem_lock_sigs := Suc (sem_lock_sigs s)\<rparr> \<or> r \<noteq> 0 \<and> s' = s\<lparr>datas_block := b1\<rparr>"
    by (auto simp: give_data_locked_def Let_def bind_eq_Some_conv toggle_bit_flip sem_post_def split: if_splits)
  have same: "same_but DPARTITION_SIZE k ?b b1"
    using same_but_trans [OF _ retrive_data_frame [OF r refl]] by blast
  note out = retrive_data_outcome [OF r assms(2)]
  show ?thesis
  proof (cases "r = 0")
    case True
    with out obtain fd uuid data where ret: "retrieved pq (slot_uuid uuid ?p ?z) w fd uuid data"
      and b1: "b1 = sent_slot fd uuid data ?p ?z"
      and t: "tables (conn w') = effect ''s_update_job_status1'' [Text (slot_uuid uuid ?p ?z)] (tables (conn w))" by auto
    have l: "length uuid \<le> 37" "length data \<le> MESSAGE_SIZE" using ret by (auto simp: retrieved_def Let_def split: prod.splits)
    have "slot_bytes DPARTITION_SIZE b1 k = enc_send_message (msg_of fd uuid data) @ [0]"
      unfolding slot_bytes_def b1 by (rule sent_slot_bytes [OF l])
    then have "contents DPARTITION_SIZE 3 (flip k b1) =
        add_mset (enc_send_message (msg_of fd uuid data) @ [0]) (contents DPARTITION_SIZE 3 ?b)"
      using contents_fill [OF same, of 3] some by simp
    moreover have "s' = s\<lparr>datas_block := flip k b1, sem_lock_sigs := Suc (sem_lock_sigs s)\<rparr>" using s' True by simp
    ultimately show ?thesis using ret t out unfolding slot_uuid_cleared [OF l(1)] by blast
  next
    case False
    then have "s' = s\<lparr>datas_block := b1\<rparr>" "contents DPARTITION_SIZE 3 b1 = contents DPARTITION_SIZE 3 ?b"
      using s' same_but_contents [OF same] some by auto
    with out False show ?thesis by blast
  qed
qed

end


section \<open>Instructions for the sender\<close>

text \<open>An instruction to open (1) or close (2) a connection: the two structs have the same layout.\<close>

definition instr_of :: "byte list \<Rightarrow> byte list \<Rightarrow> byte list \<Rightarrow> byte list \<Rightarrow> open_connection" where
  "instr_of v0 v1 v2 v3 = \<lparr>oc_type = atoi v0, oc_port = atoi v2, oc_ipaddress = atoi v1, oc_scommid = atoi v3\<rparr>"

definition instr_retrieved :: "'c pq \<Rightarrow> 'c world \<Rightarrow> byte list \<Rightarrow> byte list \<Rightarrow> byte list \<Rightarrow> byte list \<Rightarrow> bool" where
  "instr_retrieved pq w v0 v1 v2 v3 \<longleftrightarrow>
     (let (r, w1) = PQexecPrepared pq ''s_get_comms'' [] 0 w
      in res_status r = TUPLES_OK \<and> PQgetvalue r 0 0 = Some v0 \<and> PQgetvalue r 0 1 = Some v1 \<and>
         PQgetvalue r 0 2 = Some v2 \<and> PQgetvalue r 0 3 = Some v3 \<and> length v3 \<le> 30 \<and> (atoi v0 = 1 \<or> atoi v0 = 2))"

lemma four_fields:
  "mwrite (mwrite (mwrite (mwrite b p (le32 w0)) (p + 8) (le32 w2)) (p + 4) (le32 w1)) (p + 12) (le32 w3) =
   mwrite b p (le32 w0 @ le32 w1 @ le32 w2 @ le32 w3)"
proof (rule ext)
  fix a
  consider "a < p" | "p \<le> a" "a < p + 4" | "p + 4 \<le> a" "a < p + 8" | "p + 8 \<le> a" "a < p + 12"
    | "p + 12 \<le> a" "a < p + 16" | "p + 16 \<le> a" by linarith
  then show "mwrite (mwrite (mwrite (mwrite b p (le32 w0)) (p + 8) (le32 w2)) (p + 4) (le32 w1)) (p + 12) (le32 w3) a =
      mwrite b p (le32 w0 @ le32 w1 @ le32 w2 @ le32 w3) a"
    by cases (auto simp: mwrite_def nth_append add.commute [of p])
qed

lemma on_return_update_comms_status:
  "P b \<Longrightarrow> on_return P (update_comms_status pq junk b cid w)"
  unfolding update_comms_status_def Let_def by (intro on_returnI)

lemma retrive_comms_frame:
  assumes "retrive_comms_from_database pq junk b p w = Some (r, b', w')" "p = slot_addr CPARTITION_SIZE k"
  shows "same_but CPARTITION_SIZE k b b'"
proof -
  have "on_return (same_but CPARTITION_SIZE k b) (retrive_comms_from_database pq junk b p w)"
    unfolding retrive_comms_from_database_def Let_def four_fields
    by (intro on_returnI on_return_update_comms_status same_but_mwrite same_but_refl)
      (auto simp: assms(2) CPARTITION_SIZE_def)
  then show ?thesis using assms(1) by (simp add: on_return_def)
qed

context pg_server
begin

lemma update_comms_outcome:
  assumes "update_comms_status pq junk blk v w = Some (r, blk', w')" "saved (conn w) = None"
  shows "saved (conn w') = None \<and> blk' = blk \<and> length v \<le> 30 \<and>
    (r = 0 \<and> tables (conn w') = effect ''s_update_comms'' [Text (cstr (v @ drop (length v) junk))] (tables (conn w))
     \<or> r = -1 \<and> tables (conn w') = tables (conn w))"
proof -
  let ?ps = "[Text (cstr (v @ drop (length v) junk))]"
  obtain ru w1 where u: "PQexecPrepared pq ''s_update_comms'' ?ps 0 w = (ru, w1)"
    by (cases "PQexecPrepared pq ''s_update_comms'' ?ps 0 w")
  have st: "res_status ru = COMMAND_OK \<or> res_status ru = FATAL_ERROR"
    using status_kind [OF PQexecPrepared_conn [OF u]] by (auto simp: is_query_def)
  show ?thesis
    using assms(1) u st autocommit_step [OF u assms(2)] log_outside_tx [of _ _ w1 w']
    by (auto simp: update_comms_status_def text_param_def c_string_def bind_eq_Some_conv split: if_splits)
qed

lemma retrive_comms_outcome:
  assumes call: "retrive_comms_from_database pq junk blk p w = Some (r, blk', w')" and none: "saved (conn w) = None"
  shows "saved (conn w') = None \<and>
    (r = 0 \<and> (\<exists>v0 v1 v2 v3. instr_retrieved pq w v0 v1 v2 v3 \<and>
        blk' = mwrite blk p (enc_open_connection (instr_of v0 v1 v2 v3)) \<and>
        tables (conn w') = effect ''s_update_comms'' [Text (cstr (v3 @ drop (length v3) junk))] (tables (conn w)))
     \<or> r = -1 \<and> tables (conn w') = tables (conn w))"
proof -
  obtain rg w1 where g: "PQexecPrepared pq ''s_get_comms'' [] 0 w = (rg, w1)"
    by (cases "PQexecPrepared pq ''s_get_comms'' [] 0 w")
  have t1: "saved (conn w1) = None" "tables (conn w1) = tables (conn w)"
    using autocommit_step [OF g none] by (auto simp: select_effect is_query_def)
  show ?thesis
  proof (cases "\<exists>v0. res_status rg = TUPLES_OK \<and> PQntuples rg > 0 \<and> PQgetvalue rg 0 0 = Some v0 \<and> (atoi v0 = 1 \<or> atoi v0 = 2)")
    case False
    then show ?thesis using call g t1
      by (auto simp: retrive_comms_from_database_def bind_eq_Some_conv split: if_splits dest!: log_outside_tx [OF _ t1(1)])
  next
    case True
    then obtain v0 where v0: "res_status rg = TUPLES_OK" "PQntuples rg > 0" "PQgetvalue rg 0 0 = Some v0" "atoi v0 = 1 \<or> atoi v0 = 2"
      by blast
    with call g obtain v1 v2 v3 where v: "PQgetvalue rg 0 1 = Some v1" "PQgetvalue rg 0 2 = Some v2" "PQgetvalue rg 0 3 = Some v3"
      and u: "update_comms_status pq junk (mwrite blk p (enc_open_connection (instr_of v0 v1 v2 v3))) v3 w1 = Some (r, blk', w')"
      by (auto simp: retrive_comms_from_database_def bind_eq_Some_conv four_fields instr_of_def enc_open_connection_def
          split: if_splits)
    note o = update_comms_outcome [OF u t1(1)]
    have "instr_retrieved pq w v0 v1 v2 v3"
      using g v0 v o by (auto simp: instr_retrieved_def)
    then show ?thesis using o t1 by auto
  qed
qed

lemma send_msg_outcome:
  assumes call: "send_msg_locked pq junk (s, w) = Some (s', w')" and none: "saved (conn w) = None"
  shows "saved (conn w') = None \<and>
    ((\<exists>b. s' = s\<lparr>comms_block := b\<rparr> \<and> contents CPARTITION_SIZE 1 b = contents CPARTITION_SIZE 1 (comms_block s) \<and>
        contents CPARTITION_SIZE 2 b = contents CPARTITION_SIZE 2 (comms_block s)) \<and>
       tables (conn w') = tables (conn w)
     \<or> (\<exists>b v0 v1 v2 v3. s' = s\<lparr>comms_block := b, sem_lock_sigs := Suc (sem_lock_sigs s)\<rparr> \<and>
          contents CPARTITION_SIZE 1 b = add_mset (padded CPARTITION_SIZE (enc_open_connection (instr_of v0 v1 v2 v3)))
            (contents CPARTITION_SIZE 1 (comms_block s)) \<and>
          contents CPARTITION_SIZE 2 b = contents CPARTITION_SIZE 2 (comms_block s) \<and>
          instr_retrieved pq w v0 v1 v2 v3 \<and>
          tables (conn w') = effect ''s_update_comms'' [Text (cstr (v3 @ drop (length v3) junk))] (tables (conn w))))"
proof (cases rule: free_slot_cases [where block = "comms_block s" and type = 1])
  case none
  then have "s' = s" "w' = w" using call by (auto simp: send_msg_locked_def)
  then have "s' = s\<lparr>comms_block := comms_block s\<rparr>" "w' = w" by simp_all
  with assms show ?thesis by blast
next
  case (some k)
  let ?p = "slot_addr CPARTITION_SIZE k" and ?b = "comms_block s"
  let ?z = "mset_bytes ?b ?p 0 CPARTITION_SIZE"
  from call some obtain r b1 where r: "retrive_comms_from_database pq junk ?z ?p w = Some (r, b1, w')"
    and s': "r = 0 \<and> s' = s\<lparr>comms_block := flip k b1, sem_lock_sigs := Suc (sem_lock_sigs s)\<rparr> \<or> r \<noteq> 0 \<and> s' = s\<lparr>comms_block := b1\<rparr>"
    by (auto simp: send_msg_locked_def Let_def bind_eq_Some_conv toggle_bit_flip sem_post_def split: if_splits)
  have same: "same_but CPARTITION_SIZE k ?b b1"
    using same_but_trans [OF _ retrive_comms_frame [OF r refl]] by blast
  have k2: "k < 80" "k \<notin> set (slots 2)" "\<not> used ?b k" using some halves_disjoint by auto
  note out = retrive_comms_outcome [OF r assms(2)]
  have two: "contents CPARTITION_SIZE 2 b1 = contents CPARTITION_SIZE 2 ?b"
    "contents CPARTITION_SIZE 2 (flip k b1) = contents CPARTITION_SIZE 2 ?b"
    using same_but_contents [OF same k2(3)] contents_flip_other [OF k2(1,2)] by simp_all
  show ?thesis
  proof (cases "r = 0")
    case True
    with out obtain v0 v1 v2 v3 where ret: "instr_retrieved pq w v0 v1 v2 v3"
      and b1: "b1 = mwrite ?z ?p (enc_open_connection (instr_of v0 v1 v2 v3))"
      and t: "tables (conn w') = effect ''s_update_comms'' [Text (cstr (v3 @ drop (length v3) junk))] (tables (conn w))" by auto
    have "slot_bytes CPARTITION_SIZE b1 k = padded CPARTITION_SIZE (enc_open_connection (instr_of v0 v1 v2 v3))"
      unfolding slot_bytes_def b1 padded_def
      by (rule mread_mwrite_mset_bytes) (simp add: open_connection.enc_length CPARTITION_SIZE_def)
    then have "contents CPARTITION_SIZE 1 (flip k b1) = add_mset (padded CPARTITION_SIZE (enc_open_connection (instr_of v0 v1 v2 v3)))
        (contents CPARTITION_SIZE 1 ?b)"
      using contents_fill [OF same, of 1] some by simp
    moreover have "s' = s\<lparr>comms_block := flip k b1, sem_lock_sigs := Suc (sem_lock_sigs s)\<rparr>" using s' True by simp
    ultimately show ?thesis using ret t out two(2) by blast
  next
    case False
    then have "s' = s\<lparr>comms_block := b1\<rparr>" "contents CPARTITION_SIZE 1 b1 = contents CPARTITION_SIZE 1 ?b"
      using s' same_but_contents [OF same] some by auto
    with out False two show ?thesis by blast
  qed
qed

end


section \<open>Reports of the sender\<close>

text \<open>
  What a report stored once does to the tables, for a server whose statements have the effects
  \<open>effect\<close>; \<open>store_first\<close> is its first half alone, when the second statement of a connection report fails.
\<close>

definition conn_params :: "connection_status \<Rightarrow> param list" where
  "conn_params cs = [Text (dec (sint (cs_ipaddress cs))), Text (dec (sint (cs_fd cs))),
     Text (if 0 \<le> sint (cs_fd cs) then dec 2 else dec 1)]"

definition job_params :: "message_status \<Rightarrow> param list" where
  "job_params ms = [Text (cstr ((ms_uuid ms)[36 := 0])), Text (dec (uint (ucast (ms_status ms) :: byte)))]"

definition store_first :: "(string \<Rightarrow> param list \<Rightarrow> 't \<Rightarrow> 't) \<Rightarrow> byte list \<Rightarrow> 't \<Rightarrow> 't" where
  "store_first effect msg t =
     (if get32 msg 0 = 3 then effect ''s_update_conns'' (conn_params (dec_connection_status msg)) t else t)"

definition store_effect :: "(string \<Rightarrow> param list \<Rightarrow> 't \<Rightarrow> 't) \<Rightarrow> byte list \<Rightarrow> 't \<Rightarrow> 't" where
  "store_effect effect msg t =
     (if get32 msg 0 = 3 then
        effect ''s_delete_comms'' [Text (dec (sint (cs_scommid (dec_connection_status msg))))] (store_first effect msg t)
      else if get32 msg 0 = 4 then effect ''s_update_job_status2'' (job_params (dec_message_status msg)) t
      else t)"

context pg_server
begin

lemma store_conn_outcome:
  assumes call: "store_comms_into_database pq blk p w = Some (r, w')" and none: "saved (conn w) = None"
    and msg: "mread blk p CPARTITION_SIZE = msg" and t3: "get32 msg 0 = 3"
  shows "saved (conn w') = None \<and>
    (r = 0 \<and> tables (conn w') = store_effect effect msg (tables (conn w)) \<or>
     r = -1 \<and> tables (conn w') \<in> {tables (conn w), store_first effect msg (tables (conn w))})"
proof -
  let ?cs = "dec_connection_status msg"
  let ?id = "[Text (dec (sint (cs_scommid ?cs)))]"
  obtain r1 w1 where u: "PQexecPrepared pq ''s_update_conns'' (conn_params ?cs) 0 w = (r1, w1)"
    by (cases "PQexecPrepared pq ''s_update_conns'' (conn_params ?cs) 0 w")
  note k1 = command_kind [OF u] and a1 = autocommit_step [OF u none]
  show ?thesis
  proof (cases "res_status r1 = COMMAND_OK")
    case False
    then have "r = -1" "\<exists>fmt args. storelog pq fmt args w1 = Some w'"
      using call msg t3 u
      by (auto simp: store_comms_into_database_def Let_def bind_eq_Some_conv sprintf_buf_Some conn_params_def split: if_splits)
    then show ?thesis using a1 k1 False by (auto simp: is_query_def dest: log_outside_tx)
  next
    case True
    obtain r2 w2 where d: "PQexecPrepared pq ''s_delete_comms'' ?id 0 w1 = (r2, w2)"
      by (cases "PQexecPrepared pq ''s_delete_comms'' ?id 0 w1")
    have s1: "saved (conn w1) = None" using a1 by simp
    note k2 = command_kind [OF d] and a2 = autocommit_step [OF d s1]
    have "r = 0 \<and> w' = w2 \<and> res_status r2 = COMMAND_OK \<or>
        r = -1 \<and> res_status r2 \<noteq> COMMAND_OK \<and> (\<exists>fmt args. storelog pq fmt args w2 = Some w')"
      using call msg t3 u True d
      by (auto simp: store_comms_into_database_def Let_def bind_eq_Some_conv sprintf_buf_Some conn_params_def split: if_splits)
    then show ?thesis
      using a1 a2 k2 True t3
      by (auto simp: store_effect_def store_first_def is_query_def dest: log_outside_tx)
  qed
qed

lemma store_job_outcome:
  assumes call: "store_comms_into_database pq blk p w = Some (r, w')" and none: "saved (conn w) = None"
    and msg: "mread blk p CPARTITION_SIZE = msg" and t4: "get32 msg 0 = 4"
  shows "saved (conn w') = None \<and>
    (r = 0 \<and> tables (conn w') = store_effect effect msg (tables (conn w)) \<or>
     r = -1 \<and> tables (conn w') = tables (conn w))"
proof -
  let ?ms = "dec_message_status msg"
  obtain r1 w1 where u: "PQexecPrepared pq ''s_update_job_status2'' (job_params ?ms) 0 w = (r1, w1)"
    by (cases "PQexecPrepared pq ''s_update_job_status2'' (job_params ?ms) 0 w")
  note k1 = command_kind [OF u] and a1 = autocommit_step [OF u none]
  have "r = 0 \<and> w' = w1 \<and> res_status r1 = COMMAND_OK \<or>
      r = -1 \<and> res_status r1 \<noteq> COMMAND_OK \<and> (\<exists>fmt args. storelog pq fmt args w1 = Some w')"
    using call msg t4 u
    by (auto simp: store_comms_into_database_def Let_def bind_eq_Some_conv sprintf_buf_Some job_params_def
        text_param_def c_string_def split: if_splits)
  then show ?thesis
    using a1 k1 t4 by (auto simp: store_effect_def is_query_def dest: log_outside_tx)
qed

lemma store_outcome:
  assumes call: "store_comms_into_database pq blk p w = Some (r, w')" and none: "saved (conn w) = None"
    and msg: "mread blk p CPARTITION_SIZE = msg"
  shows "saved (conn w') = None \<and>
    (r = 0 \<and> tables (conn w') = store_effect effect msg (tables (conn w)) \<or>
     r = -1 \<and> tables (conn w') \<in> {tables (conn w), store_first effect msg (tables (conn w))})"
proof -
  consider "get32 msg 0 = 3" | "get32 msg 0 = 4" | "get32 msg 0 \<noteq> 3" "get32 msg 0 \<noteq> 4" by blast
  then show ?thesis
  proof cases
    case 1
    then show ?thesis by (rule store_conn_outcome [OF assms])
  next
    case 2
    then show ?thesis using store_job_outcome [OF assms] by auto
  next
    case 3
    then show ?thesis using call msg log_outside_tx [OF _ none]
      by (auto simp: store_comms_into_database_def Let_def bind_eq_Some_conv)
  qed
qed

lemma store_again:
  "store_effect effect msg (store_first effect msg t) = store_effect effect msg t"
  "store_first effect msg (store_first effect msg t) = store_first effect msg t"
  by (auto simp: store_effect_def store_first_def update_conns_idem)

lemma store_attempts_outcome:
  assumes "store_comms_attempts pq blk p n w = Some (r, w')" "saved (conn w) = None"
    and "mread blk p CPARTITION_SIZE = msg" "tables (conn w) \<in> {t, store_first effect msg t}"
  shows "saved (conn w') = None \<and>
    (r = 0 \<and> tables (conn w') = store_effect effect msg t \<or>
     r = -1 \<and> tables (conn w') \<in> {t, store_first effect msg t})"
  using assms
proof (induction n arbitrary: w r w' rule: less_induct)
  case (less n)
  obtain st w1 where one: "store_comms_into_database pq blk p w = Some (st, w1)"
    and rest: "(if 0 < n - 1 \<and> st = -1 then store_comms_attempts pq blk p (n - 1) w1 else Some (st, w1)) = Some (r, w')"
    using less.prems(1) by (subst (asm) store_comms_attempts.simps) (auto simp: bind_eq_Some_conv)
  have o: "saved (conn w1) = None \<and> (st = 0 \<and> tables (conn w1) = store_effect effect msg t \<or>
      st = -1 \<and> tables (conn w1) \<in> {t, store_first effect msg t})"
    using store_outcome [OF one less.prems(2,3)] less.prems(4) by (auto simp: store_again)
  show ?case
  proof (cases "0 < n - 1 \<and> st = -1")
    case True
    then show ?thesis using less.IH [of "n - 1" w1 r w'] rest o less.prems(3) by auto
  next
    case False
    then have "st = r" "w1 = w'" using rest by auto
    then show ?thesis using o by simp
  qed
qed

lemma read_msg_outcome:
  assumes call: "read_msg_locked pq (s, w) = Some (s', w')" and none: "saved (conn w) = None"
  shows "saved (conn w') = None \<and>
    (contents CPARTITION_SIZE 2 (comms_block s) = {#} \<and> s' = s \<and> w' = w \<or>
     (\<exists>b msg. s' = s\<lparr>comms_block := b\<rparr> \<and>
        contents CPARTITION_SIZE 2 (comms_block s) = add_mset msg (contents CPARTITION_SIZE 2 b) \<and>
        contents CPARTITION_SIZE 1 b = contents CPARTITION_SIZE 1 (comms_block s) \<and>
        tables (conn w') \<in> {store_effect effect msg (tables (conn w)), tables (conn w),
          store_first effect msg (tables (conn w))}))"
proof (cases rule: used_slot_cases [where block = "comms_block s" and type = 2])
  case none
  then have "s' = s" "w' = w" "contents CPARTITION_SIZE 2 (comms_block s) = {#}"
    using call by (auto simp: read_msg_locked_def contents_empty_iff used_slots_def)
  with assms show ?thesis by blast
next
  case (some k)
  let ?b = "comms_block s" and ?msg = "slot_bytes CPARTITION_SIZE (comms_block s) k"
  from call some obtain st where
    a: "store_comms_attempts pq ?b (slot_addr CPARTITION_SIZE k) 3 w = Some (st, w')"
    and s': "s' = s\<lparr>comms_block := flip k ?b\<rparr>"
    by (auto simp: read_msg_locked_def Let_def bind_eq_Some_conv toggle_bit_flip)
  have "mread ?b (slot_addr CPARTITION_SIZE k) CPARTITION_SIZE = ?msg" by (simp add: slot_bytes_def)
  note o = store_attempts_outcome [OF a assms(2) this, of "tables (conn w)"]
  have "k < 80" "k \<notin> set (slots 1)" using some halves_disjoint by auto
  then have "contents CPARTITION_SIZE 1 (flip k ?b) = contents CPARTITION_SIZE 1 ?b" by (rule contents_flip_other)
  moreover have "contents CPARTITION_SIZE 2 ?b = add_mset ?msg (contents CPARTITION_SIZE 2 (flip k ?b))"
    using contents_take [of k 2 ?b CPARTITION_SIZE] some by simp
  ultimately show ?thesis using o s' by blast
qed

end


section \<open>The best ready job\<close>

definition s_names :: "(string \<times> nat) set" where
  "s_names = set (List.map (\<lambda>(n, sql, k). (n, k)) dbs_s)"

lemma slot_uuid_full:
  assumes "length uuid = 36" "0 \<notin> set uuid"
  shows "slot_uuid uuid p blk = uuid"
proof -
  let ?m = "mwrite (mwrite blk (p + 8) uuid) (p + 44) [0]"
  have "mread ?m (p + 8) (36 + 1) = mread ?m (p + 8) 36 @ mread ?m (p + 44) 1"
    by (subst mread_add) (simp add: add.assoc)
  also have "\<dots> = uuid @ [0]" using assms(1) by (simp add: mread_mwrite_prefix mem_simps)
  finally show ?thesis using assms(2) by (simp add: slot_uuid_def cstr_append_nul)
qed

lemma retrive_data_pg:
  assumes h: "healthy s_names c"
    and best: "pick_max (\<lambda>(sc, js). strtol (jpriority js)) (ready_jobs (tabs c)) = Some (sc, js)"
    and d: "distinct (List.map jobid (job_scheduler (tabs c)))"
    and u: "length (jobid js) = 36" "0 \<notin> set (jobid js)" and len: "length (jobdata js) \<le> MESSAGE_SIZE"
    and int: "int_priorities (tabs c)"
  shows "retrive_data_from_database pg blk p \<lparr>conn = c, syslog = l\<rparr> =
    Some (0, sent_slot (dec (sfd sc)) (jobid js) (jobdata js) p blk,
      \<lparr>conn = c\<lparr>tabs := set_job_state (jobid js) (\<lambda>s. s @ ''W'') (tabs c)\<rparr>, syslog = l\<rparr>)"
proof -
  have js: "js \<in> set (job_scheduler (tabs c))" using pick_max_Some [OF best] ready_jobs_job by blast
  let ?c1 = "c\<lparr>snapshot := Some (tabs c, logs c), tx_failed := False\<rparr>"
  have b: "PQexec pg ''BEGIN'' \<lparr>conn = c, syslog = l\<rparr> = (done_ok, \<lparr>conn = ?c1, syslog = l\<rparr>)"
    using h by (simp add: PQexec_def pg_def db_exec_def healthy_def next_fault_none)
  have pr: "(''s_get_info'', 0) \<in> set (prepared c)" "(''s_get_data'', Suc 0) \<in> set (prepared c)"
    "(''s_update_job_status1'', Suc 0) \<in> set (prepared c)"
    using h by (auto simp: healthy_def s_names_def dbs_s_def)
  have q: "PQexecPrepared pg ''s_get_info'' [] 0 \<lparr>conn = ?c1, syslog = l\<rparr> =
      (\<lparr>res_status = TUPLES_OK, res_rows = [[dec (sfd sc), jobid js]]\<rparr>, \<lparr>conn = ?c1, syslog = l\<rparr>)"
    using h pr best int
    by (simp add: run_healthy healthy_def sql_ok_def is_query_def sql_rows_def sql_effect_def)
  have g: "PQexecPrepared pg ''s_get_data'' [Text (jobid js)] 1 \<lparr>conn = ?c1, syslog = l\<rparr> =
      (\<lparr>res_status = TUPLES_OK, res_rows = [[jobdata js]]\<rparr>, \<lparr>conn = ?c1, syslog = l\<rparr>)"
    using h pr u data_rows [OF d js]
    by (simp add: run_healthy healthy_def sql_ok_def is_query_def sql_rows_def sql_effect_def)
  let ?c2 = "?c1\<lparr>tabs := set_job_state (jobid js) (\<lambda>s. s @ ''W'') (tabs c)\<rparr>"
  have m: "PQexecPrepared pg ''s_update_job_status1'' [Text (jobid js)] 1 \<lparr>conn = ?c1, syslog = l\<rparr> =
      (\<lparr>res_status = COMMAND_OK, res_rows = []\<rparr>, \<lparr>conn = ?c2, syslog = l\<rparr>)"
    using h pr u
    by (simp add: run_healthy healthy_def sql_ok_def is_query_def sql_rows_def sql_effect_def)
  have k: "commit pg ''processor_s'' \<lparr>conn = ?c2, syslog = l\<rparr> = Some (0, \<lparr>conn = ?c2\<lparr>snapshot := None\<rparr>, syslog = l\<rparr>)"
    using h by (simp add: commit_def PQexec_def pg_def db_exec_def next_fault_none healthy_def done_ok_def)
  have "text_param (mread (mwrite (mwrite (mwrite blk (p + 4) (le32 x)) (p + 8) (jobid js)) (p + 44) [0]) (p + 8) 37) =
      Some (Text (jobid js))" for x
    unfolding slot_uuid_param slot_uuid_full [OF u] ..
  moreover have "text_param (mread (mwrite (mwrite (mwrite (mwrite (mwrite blk (p + 4) (le32 x)) (p + 8) (jobid js)) (p + 44) [0])
        p (le32 y)) (p + 45) z) (p + 8) 37) = Some (Text (jobid js))" for x y z
    using calculation [of x] by (simp add: mread_mwrite_disjoint)
  moreover have "?c2\<lparr>snapshot := None\<rparr> = c\<lparr>tabs := set_job_state (jobid js) (\<lambda>s. s @ ''W'') (tabs c)\<rparr>"
    using h by (simp add: healthy_def)
  ultimately show ?thesis using b q g m k u len
    by (simp add: retrive_data_from_database_def done_ok_def PQgetvalue_def PQntuples_def memcpy_array_def Let_def sent_slot_def)
qed


section \<open>Properties\<close>

definition demo_server :: server where
  "demo_server = new_server demo_tables (List.map (\<lambda>(n, sql, k). (n, k)) dbs_s) []"

lemma demo_healthy: "healthy s_names demo_server"
  by (simp add: healthy_def demo_server_def new_server_def s_names_def)

lemma demo_retrive:
  "retrive_data_from_database pg blk p \<lparr>conn = demo_server, syslog = []\<rparr> =
    Some (0, sent_slot (dec 9) demo_uuid (bytes ''hello'') p blk,
      \<lparr>conn = demo_server\<lparr>tabs := set_job_state demo_uuid (\<lambda>s. s @ ''W'') demo_tables\<rparr>, syslog = []\<rparr>)"
  using retrive_data_pg [OF demo_healthy, of demo_conn demo_job] demo_ready demo_distinct demo_priorities
  by (simp add: demo_server_def new_server_def demo_conn_def MESSAGE_SIZE_def)

text \<open>
  Claim C1: against any server that keeps the transaction laws, \<open>retrive_data_from_database\<close> is all
  or nothing.  When it returns 0 the transaction is committed, the tables are those before with the
  one job it took marked as waiting, and the slot holds that job's fd, uuid, size and data; when it
  returns anything else that is -1 and the tables are as before the call, whichever command failed,
  \<open>COMMIT\<close> and \<open>ROLLBACK\<close> included.  It never leaves a transaction open.
\<close>

theorem retrive_data_all_or_nothing:
  assumes "pg_server pq tables saved failed effect" "saved (conn w) = None"
    and "retrive_data_from_database pq blk p w = Some (r, blk', w')"
  shows "saved (conn w') = None \<and>
    (r = 0 \<and> (\<exists>fd uuid data. retrieved pq (slot_uuid uuid p blk) w fd uuid data \<and>
        blk' = sent_slot fd uuid data p blk \<and>
        tables (conn w') = effect ''s_update_job_status1'' [Text (slot_uuid uuid p blk)] (tables (conn w)))
     \<or> r = -1 \<and> tables (conn w') = tables (conn w))"
  using pg_server.retrive_data_outcome [OF assms(1,3,2)] .

theorem retrive_data_all_or_nothing_witness:
  "\<exists>w'. retrive_data_from_database pg (\<lambda>_. 0) 10 \<lparr>conn = demo_server, syslog = []\<rparr> =
      Some (0, sent_slot (dec 9) demo_uuid (bytes ''hello'') 10 (\<lambda>_. 0), w') \<and> snapshot (conn w') = None"
  using retrive_data_all_or_nothing [OF db.pg_server_axioms _ demo_retrive [of "\<lambda>_. 0" 10]] demo_retrive
  by (simp add: demo_server_def new_server_def)

text \<open>
  Claim C2: \<open>give_data_to_sender\<close> hands over a message and marks its job together or not at all.
  Either the data block gains exactly one message, which encodes the fd, uuid, size and data of the
  job the server named, that job is marked in the tables and the sender is woken once; or the
  messages in the block, the tables and the semaphores are all as before.  The lock is released and
  the communication block is not touched.
\<close>

theorem give_data_hands_over_once:
  assumes "pg_server pq tables saved failed effect" "saved (conn w) = None"
    and "give_data_to_sender pq (s, w) = Some (s', w')"
  shows "saved (conn w') = None \<and> sem_lock_datas s' = sem_lock_datas s \<and> sem_lock_comms s' = sem_lock_comms s \<and>
    sem_lock_sigps s' = sem_lock_sigps s \<and> comms_block s' = comms_block s \<and>
    (contents DPARTITION_SIZE 3 (datas_block s') = contents DPARTITION_SIZE 3 (datas_block s) \<and>
       sem_lock_sigs s' = sem_lock_sigs s \<and> tables (conn w') = tables (conn w)
     \<or> sem_lock_sigs s' = sem_lock_sigs s + 1 \<and>
       (\<exists>fd uuid data. retrieved pq (cstr (take 36 uuid)) w fd uuid data \<and>
          contents DPARTITION_SIZE 3 (datas_block s') =
            add_mset (enc_send_message (msg_of fd uuid data) @ [0]) (contents DPARTITION_SIZE 3 (datas_block s)) \<and>
          tables (conn w') = effect ''s_update_job_status1'' [Text (cstr (take 36 uuid))] (tables (conn w))))"
proof -
  obtain l s1 where l: "sem_lock_datas s = Suc l" and
    c: "give_data_locked pq (s\<lparr>sem_lock_datas := l\<rparr>, w) = Some (s1, w')" and s': "s' = s1\<lparr>sem_lock_datas := Suc (sem_lock_datas s1)\<rparr>"
    using assms(3) by (cases "sem_lock_datas s") (auto simp: give_data_to_sender_def bind_eq_Some_conv sem_wait_def sem_post_def)
  from pg_server.give_data_outcome [OF assms(1) c assms(2)] show ?thesis
    using l s' by (elim conjE disjE exE) auto
qed

lemma demo_give:
  assumes "get_subblock (datas_block s) 0 3 = int k" "k < 80" "sem_lock_datas s = 1"
  shows "\<exists>s' w'. give_data_to_sender pg (s, \<lparr>conn = demo_server, syslog = []\<rparr>) = Some (s', w') \<and>
    sem_lock_sigs s' = sem_lock_sigs s + 1"
  using assms by (simp add: give_data_to_sender_def sem_wait_def give_data_locked_def Let_def demo_retrive toggle_bit_flip sem_post_def)

definition idle_shared :: s_shared where
  "idle_shared = \<lparr>datas_block = (\<lambda>_. 0), comms_block = (\<lambda>_. 0), sem_lock_datas = 1, sem_lock_comms = 1,
     sem_lock_sigs = 0, sem_lock_sigps = 1\<rparr>"

lemma no_slots_used: "used_slots t (\<lambda>_. 0) = {}"
  by (simp add: used_slots_def used_def)

lemma first_slot_free: "get_subblock (\<lambda>_. 0) 0 3 = int 0" "get_subblock (\<lambda>_. 0) 0 1 = int 0"
proof -
  have u: "used (\<lambda>_. 0) j = ((0 :: int) = 1)" for j by (simp add: used_def)
  show "get_subblock (\<lambda>_. 0) 0 3 = int 0" "get_subblock (\<lambda>_. 0) 0 1 = int 0"
    by (simp_all add: get_subblock_find u slots_def upt_conv_Cons del: upt_rec_numeral)
qed

theorem give_data_hands_over_once_witness:
  "\<exists>s' w'. give_data_to_sender pg (idle_shared, \<lparr>conn = demo_server, syslog = []\<rparr>) = Some (s', w') \<and>
    sem_lock_sigs s' = 1 \<and> size (contents DPARTITION_SIZE 3 (datas_block s')) = 1"
proof -
  obtain s' w' where g: "give_data_to_sender pg (idle_shared, \<lparr>conn = demo_server, syslog = []\<rparr>) = Some (s', w')"
    "sem_lock_sigs s' = 1"
    using demo_give [of idle_shared 0] first_slot_free by (auto simp: idle_shared_def)
  have "contents DPARTITION_SIZE 3 (datas_block idle_shared) = {#}"
    by (simp add: idle_shared_def contents_empty_iff no_slots_used)
  then show ?thesis
    using give_data_hands_over_once [OF db.pg_server_axioms _ g(1)] g
    by (auto simp: demo_server_def new_server_def idle_shared_def simp del: size_contents)
qed




lemma atoi_digit1: "atoi (bytes ''1'') = 1"
  by (simp add: atoi_def strtol_def bytes_def is_space_def is_digit_def)

lemma dec_1: "dec 1 = bytes ''1''"
  by (simp add: dec_def dec_nat.simps digit_def bytes_def)

lemma run_demo:
  assumes "(name, length ps) \<in> s_names" "sql_ok name ps demo_tables"
  shows "PQexecPrepared pg name ps fmt \<lparr>conn = demo_server, syslog = l\<rparr> =
    (\<lparr>res_status = (if is_query name then TUPLES_OK else COMMAND_OK), res_rows = sql_rows name ps demo_tables\<rparr>,
     \<lparr>conn = demo_server\<lparr>tabs := sql_effect name ps demo_tables,
       logs := (if name = ''storelog'' then [text_of (ps ! 0)] else [])\<rparr>, syslog = l\<rparr>)"
  using demo_healthy assms by (subst run_healthy) (auto simp: healthy_def demo_server_def new_server_def)

lemma demo_get_comms:
  "sql_rows ''s_get_comms'' [] demo_tables = [[bytes ''1'', dec 2130706433, dec 6001, dec 1]]"
  by (simp add: sql_rows_def demo_tables_def pending_comms_def first_def)

lemma demo_no_effect: "demo_server\<lparr>tabs := demo_tables, logs := []\<rparr> = demo_server"
  by (simp add: demo_server_def new_server_def)

text \<open>Handing the one pending instruction of \<open>demo_tables\<close> over, whatever follows \<open>"1"\<close> on the stack.\<close>

lemma demo_retrive_comms:
  assumes "0 \<in> set (bytes ''1'' @ drop 1 junk)"
  shows "retrive_comms_from_database pg junk blk p \<lparr>conn = demo_server, syslog = []\<rparr> =
    Some (0, mwrite blk p (enc_open_connection (instr_of (bytes ''1'') (dec 2130706433) (dec 6001) (dec 1))),
      \<lparr>conn = demo_server\<lparr>tabs := sql_effect ''s_update_comms'' [Text (cstr (bytes ''1'' @ drop 1 junk))] demo_tables\<rparr>, syslog = []\<rparr>)"
proof -
  have n: "(''s_get_comms'', 0) \<in> s_names" "(''s_update_comms'', Suc 0) \<in> s_names"
    by (simp_all add: s_names_def dbs_s_def)
  have g: "PQexecPrepared pg ''s_get_comms'' [] 0 \<lparr>conn = demo_server, syslog = []\<rparr> =
      (\<lparr>res_status = TUPLES_OK, res_rows = [[bytes ''1'', dec 2130706433, dec 6001, dec 1]]\<rparr>, \<lparr>conn = demo_server, syslog = []\<rparr>)"
    using n demo_no_effect by (simp add: run_demo demo_get_comms sql_ok_def is_query_def sql_effect_def)
  have u: "PQexecPrepared pg ''s_update_comms'' [Text t] 0 \<lparr>conn = demo_server, syslog = []\<rparr> =
      (\<lparr>res_status = COMMAND_OK, res_rows = []\<rparr>,
       \<lparr>conn = demo_server\<lparr>tabs := sql_effect ''s_update_comms'' [Text t] demo_tables\<rparr>, syslog = []\<rparr>)" for t
    using n by (simp add: run_demo sql_ok_def is_query_def sql_rows_def) (simp add: demo_server_def new_server_def)
  show ?thesis
    using assms
    by (simp add: retrive_comms_from_database_def g PQgetvalue_def PQntuples_def atoi_digit1 update_comms_status_def
        text_param_def c_string_def dec_1 u four_fields instr_of_def enc_open_connection_def)
qed




text \<open>
  A connection report whose address, read as a signed int, is \<open>-10^9\<close> or less overruns
  \<open>char ipaddress[11]\<close>: the text has 11 characters and its NUL does not fit.  Against every server
  \<open>store_comms_into_database\<close> is undefined for it; that is every address from 128.0.0.0 up to
  196.101.54.0, so all of 192.168.0.0/16.
\<close>

theorem connection_report_overflows:
  assumes "dec_connection_status (mread blk p CPARTITION_SIZE) = cs" "cs_type cs = 3" "sint (cs_ipaddress cs) \<le> - (10 ^ 9)"
  shows "store_comms_into_database pq blk p w = None"
proof -
  have t: "get32 (mread blk p CPARTITION_SIZE) 0 = 3"
    using assms(1,2) by (auto simp: dec_connection_status_def)
  define n where "n = nat (- sint (cs_ipaddress cs))"
  have "10 ^ 9 \<le> n" using assms(3) by (simp add: n_def)
  then have "10 \<le> length (dec_nat n)" using length_dec_nat_ge [of 9 n] by simp
  then have "11 \<le> length (dec (sint (cs_ipaddress cs)))" using assms(3) by (simp add: dec_def n_def)
  then have "sprintf_buf 11 (dec (sint (cs_ipaddress cs))) = None" by (simp add: sprintf_buf_def)
  with t assms(1) show ?thesis by (simp add: store_comms_into_database_def Let_def)
qed

theorem connection_report_overflows_witness:
  "store_comms_into_database pg (mwrite (\<lambda>_. 0) 10
     (enc_connection_status \<lparr>cs_type = 3, cs_fd = 5, cs_ipaddress = 0xC0A80001, cs_scommid = 1\<rparr>)) 10
     \<lparr>conn = demo_server, syslog = []\<rparr> = None"
proof (rule connection_report_overflows)
  let ?cs = "\<lparr>cs_type = 3, cs_fd = 5, cs_ipaddress = 0xC0A80001, cs_scommid = 1\<rparr>"
  have "mread (mwrite (\<lambda>_. 0) 10 (enc_connection_status ?cs)) 10 CPARTITION_SIZE =
      enc_connection_status ?cs @ mread (\<lambda>_. 0) 26 34"
    by (simp add: mread_mwrite_prefix connection_status.enc_length CPARTITION_SIZE_def)
  then show "dec_connection_status (mread (mwrite (\<lambda>_. 0) 10 (enc_connection_status ?cs)) 10 CPARTITION_SIZE) = ?cs"
    by (simp add: connection_status.dec_enc_append)
qed simp_all

lemma store_job_refused:
  assumes "faults c = True # True # fs" "snapshot c = None" "\<not> tx_failed c"
    and "get32 (mread blk p CPARTITION_SIZE) 0 = 4" "0 \<in> set (ms_uuid (dec_message_status (mread blk p CPARTITION_SIZE)))"
  shows "\<exists>l'. store_comms_into_database pg blk p \<lparr>conn = c, syslog = l\<rparr> = Some (-1, \<lparr>conn = c\<lparr>faults := fs\<rparr>, syslog = l'\<rparr>)"
proof -
  let ?ms = "dec_message_status (mread blk p CPARTITION_SIZE)"
  let ?c1 = "c\<lparr>faults := True # fs\<rparr>"
  have l37: "length (ms_uuid ?ms) = 37" by (simp add: dec_message_status_def CPARTITION_SIZE_def)
  then have len: "length (ms_uuid ?ms) \<le> 37" by simp
  have u: "PQexecPrepared pg ''s_update_job_status2'' ps 0 \<lparr>conn = c, syslog = l\<rparr> = (refused, \<lparr>conn = ?c1, syslog = l\<rparr>)" for ps
    using assms(1-3) by (simp add: PQexecPrepared_def pg_def db_exec_prepared_def next_fault_def)
  have s: "PQexecPrepared pg ''storelog'' ps 0 \<lparr>conn = ?c1, syslog = l\<rparr> = (refused, \<lparr>conn = c\<lparr>faults := fs\<rparr>, syslog = l\<rparr>)" for ps
    using assms(1-3) by (simp add: PQexecPrepared_def pg_def db_exec_prepared_def next_fault_def)
  have m: "length (dec (uint (ucast (ms_status ?ms) :: byte))) \<le> 10"
    using length_dec_byte [of "ucast (ms_status ?ms) :: byte"] by simp
  have "0 \<in> set ((ms_uuid ?ms)[36 := 0])"
    using l37 nth_mem [of 36 "(ms_uuid ?ms)[36 := 0]"] by simp
  then have p: "text_param ((ms_uuid ?ms)[36 := 0]) = Some (Text (cstr ((ms_uuid ?ms)[36 := 0])))"
    by (simp add: text_param_def c_string_def)
  have bound: "length (cstr (cstr (ms_uuid ?ms))) \<le> 37" "length (cstr ((ms_uuid ?ms)[36 := 0])) \<le> 37"
      "length (cstr (dec (uint (ucast (ms_status ?ms) :: byte)))) \<le> 10" "length (cstr (bytes t)) \<le> length t" for t
    using len m length_cstr_le [of "cstr (ms_uuid ?ms)"] length_cstr_le [of "ms_uuid ?ms"]
      length_cstr_le [of "(ms_uuid ?ms)[36 := 0]"] length_cstr_le [of "bytes t"] by (simp_all add: cstr_dec)
  show ?thesis
    using assms(4,5) u s p m bound(1-3) bound(4) [of "''original''"] bound(4) [of "''failed to update message status uuid : ''"]
      bound(4) [of "'' mstatus : ''"] bound(4) [of "''ERROR:  command failed''"]
    by (auto simp: store_comms_into_database_def Let_def sprintf_buf_def refused_def c_string_def storelog_text
        PQerrorMessage_def pg_def db_errmsg_def log_syslog_def)
qed

text \<open>
  Claim C34: a report that cannot be stored is dropped.  When the server refuses the three attempts to
  store a job's status, and the three log entries about it, \<open>read_msg_from_sender\<close> still clears the
  slot: the tables never learn of it and the job stays in its waiting state.
\<close>

theorem read_msg_drops_after_three_failures:
  assumes "faults c = replicate 6 True" "snapshot c = None" "\<not> tx_failed c" "sem_lock_comms s = 1"
    and "get_subblock (comms_block s) 1 2 = int k" "slot_bytes CPARTITION_SIZE (comms_block s) k = msg"
    and "get32 msg 0 = 4" "0 \<in> set (ms_uuid (dec_message_status msg))"
  shows "\<exists>s' l'. read_msg_from_sender pg (s, \<lparr>conn = c, syslog = l\<rparr>) = Some (s', \<lparr>conn = c\<lparr>faults := []\<rparr>, syslog = l'\<rparr>) \<and>
    contents CPARTITION_SIZE 2 (comms_block s') = contents CPARTITION_SIZE 2 (comms_block s) - {#msg#}"
proof -
  obtain "k \<in> set (slots 2)" "k < 80" "used (comms_block s) k"
    using assms(5) by (cases rule: used_slot_cases [where block = "comms_block s" and type = 2]) auto
  note k = this
  let ?p = "slot_addr CPARTITION_SIZE k"
  note m = assms(6) [unfolded slot_bytes_def]
  note fail = store_job_refused [where blk = "comms_block s" and p = ?p, unfolded m, OF _ _ _ assms(7,8)]
  obtain l1 where 1: "store_comms_into_database pg (comms_block s) ?p \<lparr>conn = c, syslog = l\<rparr> =
      Some (-1, \<lparr>conn = c\<lparr>faults := replicate 4 True\<rparr>, syslog = l1\<rparr>)"
    using fail [of c "replicate 4 True" l] assms(1-3) by (auto simp: numeral_eq_Suc)
  obtain l2 where 2: "store_comms_into_database pg (comms_block s) ?p \<lparr>conn = c\<lparr>faults := replicate 4 True\<rparr>, syslog = l1\<rparr> =
      Some (-1, \<lparr>conn = c\<lparr>faults := replicate 2 True\<rparr>, syslog = l2\<rparr>)"
    using fail [of "c\<lparr>faults := replicate 4 True\<rparr>" "replicate 2 True" l1] assms(1-3) by (auto simp: numeral_eq_Suc)
  obtain l3 where 3: "store_comms_into_database pg (comms_block s) ?p \<lparr>conn = c\<lparr>faults := replicate 2 True\<rparr>, syslog = l2\<rparr> =
      Some (-1, \<lparr>conn = c\<lparr>faults := []\<rparr>, syslog = l3\<rparr>)"
    using fail [of "c\<lparr>faults := replicate 2 True\<rparr>" "[]" l2] assms(1-3) by (auto simp: numeral_eq_Suc)
  have "store_comms_attempts pg (comms_block s) ?p 3 \<lparr>conn = c, syslog = l\<rparr> = Some (-1, \<lparr>conn = c\<lparr>faults := []\<rparr>, syslog = l3\<rparr>)"
    by (simp add: store_comms_attempts.simps 1 2 3)
  then have "read_msg_from_sender pg (s, \<lparr>conn = c, syslog = l\<rparr>) =
      Some (s\<lparr>comms_block := flip k (comms_block s)\<rparr>, \<lparr>conn = c\<lparr>faults := []\<rparr>, syslog = l3\<rparr>)"
    using assms(4,5) k by (simp add: read_msg_from_sender_def read_msg_locked_def sem_wait_def sem_post_def Let_def toggle_bit_flip)
  moreover have "contents CPARTITION_SIZE 2 (flip k (comms_block s)) = contents CPARTITION_SIZE 2 (comms_block s) - {#msg#}"
    using contents_take(2) [OF k(1,3), of CPARTITION_SIZE] assms(6) by simp
  ultimately show ?thesis by (intro exI [of _ "s\<lparr>comms_block := flip k (comms_block s)\<rparr>"] exI [of _ l3]) simp
qed

definition lost_report :: message_status where
  "lost_report = \<lparr>ms_type = 4, ms_status = 1, ms_uuid = demo_uuid @ [0]\<rparr>"

theorem read_msg_drops_after_three_failures_witness:
  "\<exists>s' l'. read_msg_from_sender pg (idle_shared\<lparr>comms_block := box_with CPARTITION_SIZE 2 (enc_message_status lost_report)\<rparr>,
       \<lparr>conn = new_server demo_tables [] (replicate 6 True), syslog = []\<rparr>) =
     Some (s', \<lparr>conn = new_server demo_tables [] [], syslog = l'\<rparr>) \<and> contents CPARTITION_SIZE 2 (comms_block s') = {#}"
proof -
  let ?b = "box_with CPARTITION_SIZE 2 (enc_message_status lost_report)"
  have wf: "wf_message_status lost_report" by (simp add: lost_report_def wf_message_status_def)
  then have "length (enc_message_status lost_report) \<le> CPARTITION_SIZE"
    by (simp add: message_status.enc_length CPARTITION_SIZE_def)
  from box_with [OF this, of 2] obtain k where k: "get_subblock ?b 1 2 = int k"
    "slot_bytes CPARTITION_SIZE ?b k = padded CPARTITION_SIZE (enc_message_status lost_report)"
    and c: "contents CPARTITION_SIZE 2 ?b = {#padded CPARTITION_SIZE (enc_message_status lost_report)#}" by blast
  have "dec_message_status (padded CPARTITION_SIZE (enc_message_status lost_report)) = lost_report"
    using wf by (simp add: padded_def message_status.dec_enc_append)
  moreover have "get32 (padded CPARTITION_SIZE (enc_message_status lost_report)) 0 = 4"
    by (simp add: padded_def type_field lost_report_def)
  ultimately show ?thesis
    using read_msg_drops_after_three_failures [where c = "new_server demo_tables [] (replicate 6 True)"
        and s = "idle_shared\<lparr>comms_block := ?b\<rparr>" and l = "[]" and k = k
        and msg = "padded CPARTITION_SIZE (enc_message_status lost_report)"] k c
    by (simp add: new_server_def idle_shared_def lost_report_def)
qed

text \<open>
  \<open>retrive_comms_from_database\<close> passes the text of the row's id without a NUL, so what the
  server reads continues with whatever the stack held.  With a NUL there the row is marked and will
  not be handed over again; with the digit 7 there the statement looks for row 17, the instruction
  is handed over, 0 is returned, and the row stays pending.
\<close>

theorem scommid_continues_on_the_stack:
  "(\<exists>w'. retrive_comms_from_database pg (replicate 30 0) blk p \<lparr>conn = demo_server, syslog = []\<rparr> =
      Some (0, mwrite blk p (enc_open_connection (instr_of (bytes ''1'') (dec 2130706433) (dec 6001) (dec 1))), w') \<and>
      pending_comms (tabs (conn w')) = []) \<and>
   (\<exists>w'. retrive_comms_from_database pg (bytes ''x7'' @ replicate 28 0) blk p \<lparr>conn = demo_server, syslog = []\<rparr> =
      Some (0, mwrite blk p (enc_open_connection (instr_of (bytes ''1'') (dec 2130706433) (dec 6001) (dec 1))), w') \<and>
      pending_comms (tabs (conn w')) = pending_comms demo_tables \<and> pending_comms demo_tables \<noteq> [])"
proof -
  have c1: "cstr (bytes ''1'' @ replicate 29 0) = bytes ''1''"
    by (simp only: cstr_zeros) (simp add: bytes_def cstr_def)
  have c2: "cstr (bytes ''1'' @ drop (Suc 0) (bytes ''x7'') @ replicate 28 0) = bytes ''17''"
    by (simp only: append_assoc [symmetric] cstr_zeros) (simp add: bytes_def cstr_def)
  have i: "strtol (bytes ''1'') = 1" "strtol (bytes ''17'') = 17"
    by (simp_all add: strtol_def bytes_def is_space_def is_digit_def)
  show ?thesis
    by (simp add: demo_retrive_comms c1 c2 sql_effect_def where_set_def int_of_def i demo_tables_def pending_comms_def)
qed

text \<open>
  The reset \<open>main\<close> does before its loop empties both halves of the communication block but
  only slots 0 to 39 of the data block: a message left in slots 40 to 79 by an earlier run is still
  there, and will be sent.
\<close>

theorem reset_leaves_half_of_the_data:
  "contents CPARTITION_SIZE 1 (comms_block (reset_blocks s)) = {#} \<and>
   contents CPARTITION_SIZE 2 (comms_block (reset_blocks s)) = {#} \<and>
   used_slots 3 (datas_block (reset_blocks s)) = used_slots 3 (datas_block s) \<inter> {40 ..< 80} \<and>
   (\<forall>k \<in> {40 ..< 80}. slot_bytes DPARTITION_SIZE (datas_block (reset_blocks s)) k = slot_bytes DPARTITION_SIZE (datas_block s) k)"
proof -
  have u: "used (comms_block (reset_blocks s)) k = False" if "k < 80" for k
    using that by (simp add: reset_blocks_def used_unset_all_bits bulk_def)
  have d: "used (datas_block (reset_blocks s)) k = (used (datas_block s) k \<and> 40 \<le> k)" if "k < 80" for k
    using that by (auto simp: reset_blocks_def used_unset_all_bits bulk_def)
  have "slot_bytes DPARTITION_SIZE (datas_block (reset_blocks s)) k = slot_bytes DPARTITION_SIZE (datas_block s) k" for k
    unfolding slot_bytes_def reset_blocks_def unset_all_bits_def
    using slot_addr_ge [of DPARTITION_SIZE k] by (simp add: mread_mset_bytes_disjoint del: slot_addr_ge)
  moreover have "used_slots t (comms_block (reset_blocks s)) = {}" for t
    using u slots_less by (auto simp: used_slots_def)
  moreover have "used_slots 3 (datas_block (reset_blocks s)) = used_slots 3 (datas_block s) \<inter> {40 ..< 80}"
    unfolding used_slots_def set_slots using d by auto
  ultimately show ?thesis by (simp add: contents_empty_iff)
qed

theorem reset_leaves_half_of_the_data_witness:
  "slot_bytes DPARTITION_SIZE (datas_block (reset_blocks idle_shared)) 40 = slot_bytes DPARTITION_SIZE (\<lambda>_. 0) 40"
  using reset_leaves_half_of_the_data [of idle_shared] by (auto simp: idle_shared_def)

end
