(* ===== verification/ProcessorR.thy ===== *)
theory ProcessorR
  imports Channel Database
begin

text \<open>
  \<open>processor_r.c\<close>: the process between the receiver and the database.  It stores the messages and the
  connection events the receiver leaves in the shared blocks, and hands the message sizes agreed with
  other systems to the receiver.  Definitions have the names of the functions; the lemmas say what
  each leaves in the tables and in the blocks, for every server that keeps the laws of \<open>pg_server\<close>.
\<close>

section \<open>The statements and the shared state\<close>

text \<open>\<open>dbs\<close> of \<open>processor_r.h\<close>; runs of blanks in the SQL text are shortened.\<close>

definition dbs_r :: "db_statement list" where
  "dbs_r = [
    (''r_insert_data'', ''INSERT INTO job_scheduler(jobdata, jstate, jtype, jsource, jobid, jparent_jobid, jdestination, jpriority) VALUES($2, 'N-1', '0', $1, GEN_RANDOM_UUID(), (select jobid from job_scheduler where jparent_jobid = jobid), 0, 5);'', 2),
    (''r_insert_conns'', ''INSERT INTO receiving_conns (rfd, ripaddr, rcstatus) VALUES ($1, $2, $3) ON CONFLICT (rfd) DO UPDATE SET rcstatus = ($3);'', 3),
    (''storelog'', ''INSERT INTO logs (log) VALUES ($1);'', 1),
    (''pr_getcomms'', ''with rdata as (SELECT rcomid, rdata1, rdata2 FROM receivers_comms LIMIT 1) DELETE FROM receivers_comms WHERE rcomid = (SELECT rcomid FROM rdata) RETURNING rdata1, rdata2;'', 0)]"

lemma stmt_name_dbs_r [simp]:
  "stmt_name dbs_r 0 = ''r_insert_data''" "stmt_name dbs_r (Suc 0) = ''r_insert_conns''" "stmt_name dbs_r 3 = ''pr_getcomms''"
  by (simp_all add: stmt_name_def dbs_r_def)

record r_shared =
  datar_block :: mem
  commr_block :: mem
  sem_lock_datar :: nat
  sem_lock_commr :: nat
  sem_lock_sigr :: nat


section \<open>Storing what the receiver leaves\<close>

text \<open>The data is passed in binary format with length \<open>data2\<close>: more than the array holds is undefined.\<close>

definition store_data_in_database :: "'c pq \<Rightarrow> newmsg_data \<Rightarrow> 'c world \<Rightarrow> (int \<times> 'c world) option" where
  "store_data_in_database pq nmsg w0 = do {
     fd \<leftarrow> sprintf_buf 11 (dec (sint (nm_data1 nmsg)));
     data \<leftarrow> (if 0 \<le> sint (nm_data2 nmsg) \<and> nat (sint (nm_data2 nmsg)) \<le> length (nm_data nmsg)
             then Some (take (nat (sint (nm_data2 nmsg))) (nm_data nmsg)) else None);
     let (res, w1) = PQexecPrepared pq (stmt_name dbs_r 0) [Text fd, Binary data] 0 w0;
     if res_status res \<noteq> COMMAND_OK then do {
       w2 \<leftarrow> storelog pq ''%s %s'' [VStr (bytes ''data storing failed''), VStr (PQerrorMessage pq w1)] w1;
       Some (-1, w2) }
     else Some (0, w1) }"

definition store_commr_into_database :: "'c pq \<Rightarrow> receivers_message \<Rightarrow> 'c world \<Rightarrow> (int \<times> 'c world) option" where
  "store_commr_into_database pq rcvm w0 = do {
     fd \<leftarrow> sprintf_buf 11 (dec (sint (rm_fd rcvm)));
     ipaddr \<leftarrow> sprintf_buf 11 (dec (sint (rm_ipaddr rcvm)));
     status \<leftarrow> sprintf_buf 11 (dec (sint (rm_status rcvm)));
     let (res, w1) = PQexecPrepared pq (stmt_name dbs_r 1) [Text fd, Text ipaddr, Text status] 0 w0;
     if res_status res \<noteq> COMMAND_OK then do {
       w2 \<leftarrow> storelog pq ''%s%s'' [VStr (bytes ''comms storing failed : ''), VStr (PQerrorMessage pq w1)] w1;
       Some (-1, w2) }
     else Some (0, w1) }"

text \<open>\<open>do { ... } while (attempts > 0 && status == -1)\<close> around a call that stores a message.\<close>

fun retry :: "('w \<Rightarrow> (int \<times> 'w) option) \<Rightarrow> nat \<Rightarrow> 'w \<Rightarrow> (int \<times> 'w) option" where
  "retry f attempts w = do {
     (status, w1) \<leftarrow> f w;
     if 0 < attempts - 1 \<and> status = -1 then retry f (attempts - 1) w1 else Some (status, w1) }"

declare retry.simps [simp del]

definition get_data_locked :: "'c pq \<Rightarrow> r_shared \<times> 'c world \<Rightarrow> (r_shared \<times> 'c world) option" where
  "get_data_locked pq = (\<lambda>(s, w).
     let k = get_subblock (datar_block s) 1 3 in
     if 0 \<le> k then do {
       let nmsg = dec_newmsg_data (mread (datar_block s) (slot_addr DPARTITION_SIZE (nat k)) sizeof_newmsg_data);
       (status, w1) \<leftarrow> retry (store_data_in_database pq nmsg) 3 w;
       blk \<leftarrow> toggle_bit k (datar_block s);
       Some (s\<lparr>datar_block := blk\<rparr>, w1) }
     else Some (s, w))"

definition get_data_from_receiver :: "'c pq \<Rightarrow> r_shared \<times> 'c world \<Rightarrow> (r_shared \<times> 'c world) option" where
  "get_data_from_receiver pq = (\<lambda>(s, w). do {
     l \<leftarrow> sem_wait (sem_lock_datar s);
     (s1, w1) \<leftarrow> get_data_locked pq (s\<lparr>sem_lock_datar := l\<rparr>, w);
     Some (s1\<lparr>sem_lock_datar := sem_post (sem_lock_datar s1)\<rparr>, w1) })"

definition get_message_locked :: "'c pq \<Rightarrow> r_shared \<times> 'c world \<Rightarrow> (r_shared \<times> 'c world) option" where
  "get_message_locked pq = (\<lambda>(s, w).
     let k = get_subblock (commr_block s) 1 2 in
     if 0 \<le> k then do {
       let rcvm = dec_receivers_message (mread (commr_block s) (slot_addr CPARTITION_SIZE (nat k)) sizeof_receivers_message);
       (status, w1) \<leftarrow> retry (store_commr_into_database pq rcvm) 3 w;
       blk \<leftarrow> toggle_bit k (commr_block s);
       Some (s\<lparr>commr_block := blk\<rparr>, w1) }
     else Some (s, w))"

definition get_message_from_receiver :: "'c pq \<Rightarrow> r_shared \<times> 'c world \<Rightarrow> (r_shared \<times> 'c world) option" where
  "get_message_from_receiver pq = (\<lambda>(s, w). do {
     l \<leftarrow> sem_wait (sem_lock_commr s);
     (s1, w1) \<leftarrow> get_message_locked pq (s\<lparr>sem_lock_commr := l\<rparr>, w);
     Some (s1\<lparr>sem_lock_commr := sem_post (sem_lock_commr s1)\<rparr>, w1) })"


section \<open>Handing capacities to the receiver\<close>

text \<open>
  \<open>cpif.ipaddress[17]\<close> gets the text without a NUL of its own, the struct being cleared before;
  \<open>cpif.ipaddress[sizeof(...)] = 0\<close> writes the first byte of padding, which is 0 already.
\<close>

definition get_comms_from_database :: "'c pq \<Rightarrow> mem \<Rightarrow> nat \<Rightarrow> 'c world \<Rightarrow> (int \<times> mem \<times> 'c world) option" where
  "get_comms_from_database pq blk p w0 =
     (let (res, w1) = PQexecPrepared pq (stmt_name dbs_r 3) [] 0 w0 in
      if res_status res \<noteq> TUPLES_OK then do {
        w2 \<leftarrow> storelog pq ''%s%s'' [VStr (bytes ''retriving comms for receiver failed : ''), VStr (PQerrorMessage pq w1)] w1;
        Some (-1, blk, w2) }
      else if PQntuples res > 0 then do {
        ip \<leftarrow> PQgetvalue res 0 0;
        ip1 \<leftarrow> (if length ip \<le> 17 then Some (ip @ replicate (17 - length ip) 0) else None);
        cap \<leftarrow> PQgetvalue res 0 1;
        let cpif = \<lparr>ci_capacity = atoi cap, ci_ipaddress = ip1\<rparr>;
        Some (0, mwrite blk p (enc_capacity_info cpif), w1) }
      else Some (-1, blk, w1))"

definition send_msg_locked :: "'c pq \<Rightarrow> r_shared \<times> 'c world \<Rightarrow> (r_shared \<times> 'c world) option" where
  "send_msg_locked pq = (\<lambda>(s, w).
     let k = get_subblock (commr_block s) 0 1 in
     if 0 \<le> k then do {
       let p = slot_addr CPARTITION_SIZE (nat k);
       let blk = mset_bytes (commr_block s) p 0 CPARTITION_SIZE;
       (r, blk1, w1) \<leftarrow> get_comms_from_database pq blk p w;
       if r = 0 then do {
         blk2 \<leftarrow> toggle_bit k blk1;
         Some (s\<lparr>commr_block := blk2\<rparr>, w1) }
       else Some (s\<lparr>commr_block := blk1\<rparr>, w1) }
     else Some (s, w))"

definition send_msg_to_receiver :: "'c pq \<Rightarrow> r_shared \<times> 'c world \<Rightarrow> (r_shared \<times> 'c world) option" where
  "send_msg_to_receiver pq = (\<lambda>(s, w). do {
     l \<leftarrow> sem_wait (sem_lock_commr s);
     (s1, w1) \<leftarrow> send_msg_locked pq (s\<lparr>sem_lock_commr := l\<rparr>, w);
     Some (s1\<lparr>sem_lock_commr := sem_post (sem_lock_commr s1)\<rparr>, w1) })"

text \<open>One turn of \<open>run_process\<close>, the first \<open>n\<close> turns, and what \<open>main\<close> does to the blocks before.\<close>

definition run_process_once :: "'c pq \<Rightarrow> r_shared \<times> 'c world \<Rightarrow> (r_shared \<times> 'c world) option" where
  "run_process_once pq = (\<lambda>(s, w). do {
     n \<leftarrow> sem_wait (sem_lock_sigr s);
     x1 \<leftarrow> get_message_from_receiver pq (s\<lparr>sem_lock_sigr := n\<rparr>, w);
     x2 \<leftarrow> get_data_from_receiver pq x1;
     send_msg_to_receiver pq x2 })"

fun run_process :: "nat \<Rightarrow> 'c pq \<Rightarrow> r_shared \<times> 'c world \<Rightarrow> (r_shared \<times> 'c world) option" where
  "run_process 0 pq x = Some x"
| "run_process (Suc n) pq x = do { x1 \<leftarrow> run_process_once pq x; run_process n pq x1 }"

definition reset_blocks :: "r_shared \<Rightarrow> r_shared" where
  "reset_blocks s = s\<lparr>commr_block := unset_all_bits (unset_all_bits (commr_block s) 2) 3,
     datar_block := unset_all_bits (datar_block s) 1\<rparr>"


section \<open>What each function does to the tables\<close>

definition data_params :: "newmsg_data \<Rightarrow> param list" where
  "data_params m = [Text (dec (sint (nm_data1 m))), Binary (take (nat (sint (nm_data2 m))) (nm_data m))]"

definition event_params :: "receivers_message \<Rightarrow> param list" where
  "event_params m = [Text (dec (sint (rm_fd m))), Text (dec (sint (rm_ipaddr m))), Text (dec (sint (rm_status m)))]"

context pg_server
begin

text \<open>A call that runs one statement and logs its failure: applied once, or not at all.\<close>

definition stores :: "('c world \<Rightarrow> (int \<times> 'c world) option) \<Rightarrow> ('t \<Rightarrow> 't) \<Rightarrow> bool" where
  "stores f g \<longleftrightarrow> (\<forall>w r w'. f w = Some (r, w') \<and> saved (conn w) = None \<longrightarrow> saved (conn w') = None \<and>
     (r = 0 \<and> tables (conn w') = g (tables (conn w)) \<or> r = -1 \<and> tables (conn w') = tables (conn w)))"

lemma store_data_stores: "stores (store_data_in_database pq m) (effect ''r_insert_data'' (data_params m))"
  unfolding stores_def
proof (intro allI impI)
  fix w r w'
  assume a: "store_data_in_database pq m w = Some (r, w') \<and> saved (conn w) = None"
  obtain ru w1 where u: "PQexecPrepared pq ''r_insert_data'' (data_params m) 0 w = (ru, w1)"
    by (cases "PQexecPrepared pq ''r_insert_data'' (data_params m) 0 w")
  note k = command_kind [OF u] and s = autocommit_step [OF u]
  have "r = 0 \<and> w' = w1 \<and> res_status ru = COMMAND_OK \<or>
      r = -1 \<and> res_status ru \<noteq> COMMAND_OK \<and> (\<exists>fmt args. storelog pq fmt args w1 = Some w')"
    using a u by (auto simp: store_data_in_database_def data_params_def bind_eq_Some_conv sprintf_buf_Some split: if_splits)
  then show "saved (conn w') = None \<and>
      (r = 0 \<and> tables (conn w') = effect ''r_insert_data'' (data_params m) (tables (conn w)) \<or> r = -1 \<and> tables (conn w') = tables (conn w))"
    using a k s by (auto simp: is_query_def dest: log_outside_tx)
qed

lemma store_commr_stores: "stores (store_commr_into_database pq m) (effect ''r_insert_conns'' (event_params m))"
  unfolding stores_def
proof (intro allI impI)
  fix w r w'
  assume a: "store_commr_into_database pq m w = Some (r, w') \<and> saved (conn w) = None"
  obtain ru w1 where u: "PQexecPrepared pq ''r_insert_conns'' (event_params m) 0 w = (ru, w1)"
    by (cases "PQexecPrepared pq ''r_insert_conns'' (event_params m) 0 w")
  note k = command_kind [OF u] and s = autocommit_step [OF u]
  have "r = 0 \<and> w' = w1 \<and> res_status ru = COMMAND_OK \<or>
      r = -1 \<and> res_status ru \<noteq> COMMAND_OK \<and> (\<exists>fmt args. storelog pq fmt args w1 = Some w')"
    using a u by (auto simp: store_commr_into_database_def event_params_def bind_eq_Some_conv sprintf_buf_Some split: if_splits)
  then show "saved (conn w') = None \<and>
      (r = 0 \<and> tables (conn w') = effect ''r_insert_conns'' (event_params m) (tables (conn w)) \<or> r = -1 \<and> tables (conn w') = tables (conn w))"
    using a k s by (auto simp: is_query_def dest: log_outside_tx)
qed

lemma stores_retry:
  assumes "stores f g"
  shows "stores (retry f n) g"
  unfolding stores_def
proof (intro allI impI)
  fix w r w'
  assume "retry f n w = Some (r, w') \<and> saved (conn w) = None"
  then show "saved (conn w') = None \<and>
      (r = 0 \<and> tables (conn w') = g (tables (conn w)) \<or> r = -1 \<and> tables (conn w') = tables (conn w))"
  proof (induction n arbitrary: w rule: less_induct)
    case (less n)
    then obtain st w1 where one: "f w = Some (st, w1)"
      and rest: "(if 0 < n - 1 \<and> st = -1 then retry f (n - 1) w1 else Some (st, w1)) = Some (r, w')"
      by (subst (asm) retry.simps) (auto simp: bind_eq_Some_conv)
    have o: "saved (conn w1) = None \<and>
        (st = 0 \<and> tables (conn w1) = g (tables (conn w)) \<or> st = -1 \<and> tables (conn w1) = tables (conn w))"
      using assms one less.prems by (auto simp: stores_def)
    show ?case
    proof (cases "0 < n - 1 \<and> st = -1")
      case True
      then show ?thesis using less.IH [of "n - 1" w1] rest o by auto
    next
      case False
      then have "st = r" "w1 = w'" using rest by auto
      then show ?thesis using o by simp
    qed
  qed
qed

end


section \<open>The three exchanges\<close>

lemma dec_newmsg_slot: "dec_newmsg_data (mread b p sizeof_newmsg_data) = dec_newmsg_data (mread b p DPARTITION_SIZE)"
proof -
  have "mread b p sizeof_newmsg_data = take sizeof_newmsg_data (mread b p DPARTITION_SIZE)"
    by (simp add: take_mread DPARTITION_SIZE_def sizeof_newmsg_data_def)
  then show ?thesis by (simp add: dec_newmsg_data_def get32_take drop_take sizeof_newmsg_data_def)
qed

lemma dec_receivers_slot:
  "dec_receivers_message (mread b p sizeof_receivers_message) = dec_receivers_message (mread b p CPARTITION_SIZE)"
proof -
  have "mread b p sizeof_receivers_message = take sizeof_receivers_message (mread b p CPARTITION_SIZE)"
    by (simp add: take_mread CPARTITION_SIZE_def sizeof_receivers_message_def)
  then show ?thesis by (simp add: dec_receivers_message_def get32_take sizeof_receivers_message_def)
qed

text \<open>The row the server deleted and returned.\<close>

definition capacity_retrieved :: "'c pq \<Rightarrow> 'c world \<Rightarrow> byte list \<Rightarrow> byte list \<Rightarrow> bool" where
  "capacity_retrieved pq w ip cap \<longleftrightarrow>
     (let (r, w1) = PQexecPrepared pq ''pr_getcomms'' [] 0 w
      in res_status r = TUPLES_OK \<and> PQgetvalue r 0 0 = Some ip \<and> PQgetvalue r 0 1 = Some cap \<and> length ip \<le> 17)"

definition capacity_of :: "byte list \<Rightarrow> byte list \<Rightarrow> capacity_info" where
  "capacity_of ip cap = \<lparr>ci_capacity = atoi cap, ci_ipaddress = ip @ replicate (17 - length ip) 0\<rparr>"

lemma wf_capacity_of: "length ip \<le> 17 \<Longrightarrow> wf_capacity_info (capacity_of ip cap)"
  by (simp add: wf_capacity_info_def capacity_of_def)

context pg_server
begin

lemma get_data_outcome:
  assumes call: "get_data_locked pq (s, w) = Some (s', w')" and none: "saved (conn w) = None"
  shows "saved (conn w') = None \<and>
    (contents DPARTITION_SIZE 3 (datar_block s) = {#} \<and> s' = s \<and> w' = w \<or>
     (\<exists>b x. s' = s\<lparr>datar_block := b\<rparr> \<and>
        contents DPARTITION_SIZE 3 (datar_block s) = add_mset x (contents DPARTITION_SIZE 3 b) \<and>
        tables (conn w') \<in> {effect ''r_insert_data'' (data_params (dec_newmsg_data x)) (tables (conn w)), tables (conn w)}))"
proof (cases rule: used_slot_cases [where block = "datar_block s" and type = 3])
  case none
  then have "s' = s" "w' = w" "contents DPARTITION_SIZE 3 (datar_block s) = {#}"
    using call by (auto simp: get_data_locked_def contents_empty_iff used_slots_def)
  with assms show ?thesis by blast
next
  case (some k)
  let ?x = "slot_bytes DPARTITION_SIZE (datar_block s) k"
  from call some obtain st where
    a: "retry (store_data_in_database pq (dec_newmsg_data ?x)) 3 w = Some (st, w')"
    and s': "s' = s\<lparr>datar_block := flip k (datar_block s)\<rparr>"
    by (auto simp: get_data_locked_def Let_def bind_eq_Some_conv toggle_bit_flip dec_newmsg_slot slot_bytes_def)
  have "contents DPARTITION_SIZE 3 (datar_block s) = add_mset ?x (contents DPARTITION_SIZE 3 (flip k (datar_block s)))"
    using contents_take [of k 3 "datar_block s" DPARTITION_SIZE] some by simp
  then show ?thesis
    using stores_retry [OF store_data_stores, of "dec_newmsg_data ?x" 3] a none s' unfolding stores_def by blast
qed

lemma get_message_outcome:
  assumes call: "get_message_locked pq (s, w) = Some (s', w')" and none: "saved (conn w) = None"
  shows "saved (conn w') = None \<and>
    (contents CPARTITION_SIZE 2 (commr_block s) = {#} \<and> s' = s \<and> w' = w \<or>
     (\<exists>b x. s' = s\<lparr>commr_block := b\<rparr> \<and>
        contents CPARTITION_SIZE 2 (commr_block s) = add_mset x (contents CPARTITION_SIZE 2 b) \<and>
        contents CPARTITION_SIZE 1 b = contents CPARTITION_SIZE 1 (commr_block s) \<and>
        tables (conn w') \<in> {effect ''r_insert_conns'' (event_params (dec_receivers_message x)) (tables (conn w)), tables (conn w)}))"
proof (cases rule: used_slot_cases [where block = "commr_block s" and type = 2])
  case none
  then have "s' = s" "w' = w" "contents CPARTITION_SIZE 2 (commr_block s) = {#}"
    using call by (auto simp: get_message_locked_def contents_empty_iff used_slots_def)
  with assms show ?thesis by blast
next
  case (some k)
  let ?x = "slot_bytes CPARTITION_SIZE (commr_block s) k"
  from call some obtain st where
    a: "retry (store_commr_into_database pq (dec_receivers_message ?x)) 3 w = Some (st, w')"
    and s': "s' = s\<lparr>commr_block := flip k (commr_block s)\<rparr>"
    by (auto simp: get_message_locked_def Let_def bind_eq_Some_conv toggle_bit_flip dec_receivers_slot slot_bytes_def)
  have "contents CPARTITION_SIZE 2 (commr_block s) = add_mset ?x (contents CPARTITION_SIZE 2 (flip k (commr_block s)))"
    using contents_take [of k 2 "commr_block s" CPARTITION_SIZE] some by simp
  moreover have "contents CPARTITION_SIZE 1 (flip k (commr_block s)) = contents CPARTITION_SIZE 1 (commr_block s)"
    using some halves_disjoint by (intro contents_flip_other) auto
  ultimately show ?thesis
    using stores_retry [OF store_commr_stores, of "dec_receivers_message ?x" 3] a none s' unfolding stores_def by blast
qed

lemma get_comms_outcome:
  assumes call: "get_comms_from_database pq blk p w = Some (r, blk', w')" and none: "saved (conn w) = None"
  shows "saved (conn w') = None \<and>
    (r = 0 \<and> (\<exists>ip cap. capacity_retrieved pq w ip cap \<and> blk' = mwrite blk p (enc_capacity_info (capacity_of ip cap))) \<and>
       tables (conn w') = effect ''pr_getcomms'' [] (tables (conn w))
     \<or> r = -1 \<and> blk' = blk \<and> tables (conn w') = tables (conn w))"
proof -
  obtain rg w1 where g: "PQexecPrepared pq ''pr_getcomms'' [] 0 w = (rg, w1)"
    by (cases "PQexecPrepared pq ''pr_getcomms'' [] 0 w")
  note a = autocommit_step [OF g none] and k = status_kind [OF PQexecPrepared_conn [OF g]]
    and d = delete_none [OF PQexecPrepared_conn [OF g]]
  have s1: "saved (conn w1) = None" using a by simp
  show ?thesis
  proof (cases "res_status rg = TUPLES_OK")
    case False
    then have "res_status rg = FATAL_ERROR" using k by (cases "res_status rg = FATAL_ERROR") (auto simp: is_query_def)
    then show ?thesis using call g False a
      by (auto simp: get_comms_from_database_def bind_eq_Some_conv dest!: log_outside_tx [OF _ s1])
  next
    case True
    then show ?thesis using call g a d
      by (auto simp: get_comms_from_database_def bind_eq_Some_conv PQntuples_def capacity_retrieved_def capacity_of_def
          split: if_splits)
  qed
qed

lemma send_msg_outcome:
  assumes call: "send_msg_locked pq (s, w) = Some (s', w')" and none: "saved (conn w) = None"
  shows "saved (conn w') = None \<and>
    (\<exists>b. s' = s\<lparr>commr_block := b\<rparr> \<and> contents CPARTITION_SIZE 2 b = contents CPARTITION_SIZE 2 (commr_block s) \<and>
       (contents CPARTITION_SIZE 1 b = contents CPARTITION_SIZE 1 (commr_block s) \<and> tables (conn w') = tables (conn w) \<or>
        (\<exists>ip cap. capacity_retrieved pq w ip cap \<and>
           contents CPARTITION_SIZE 1 b =
             add_mset (padded CPARTITION_SIZE (enc_capacity_info (capacity_of ip cap))) (contents CPARTITION_SIZE 1 (commr_block s)) \<and>
           tables (conn w') = effect ''pr_getcomms'' [] (tables (conn w)))))"
proof (cases rule: free_slot_cases [where block = "commr_block s" and type = 1])
  case none
  then have "s' = s\<lparr>commr_block := commr_block s\<rparr>" "w' = w" using call by (auto simp: send_msg_locked_def)
  with assms show ?thesis by blast
next
  case (some k)
  let ?p = "slot_addr CPARTITION_SIZE k" and ?b = "commr_block s"
  let ?z = "mset_bytes ?b ?p 0 CPARTITION_SIZE"
  from call some obtain r b1 where r: "get_comms_from_database pq ?z ?p w = Some (r, b1, w')"
    and s': "r = 0 \<and> s' = s\<lparr>commr_block := flip k b1\<rparr> \<or> r \<noteq> 0 \<and> s' = s\<lparr>commr_block := b1\<rparr>"
    by (auto simp: send_msg_locked_def Let_def bind_eq_Some_conv toggle_bit_flip split: if_splits)
  have k2: "k < 80" "k \<notin> set (slots 2)" "\<not> used ?b k" using some halves_disjoint by auto
  from get_comms_outcome [OF r assms(2)] show ?thesis
  proof (elim conjE disjE exE)
    fix ip cap
    assume r0: "r = 0" and c: "capacity_retrieved pq w ip cap" "b1 = mwrite ?z ?p (enc_capacity_info (capacity_of ip cap))"
      and t: "saved (conn w') = None" "tables (conn w') = effect ''pr_getcomms'' [] (tables (conn w))"
    have len: "length (enc_capacity_info (capacity_of ip cap)) \<le> CPARTITION_SIZE"
      using c(1) capacity_info.enc_length [OF wf_capacity_of, of ip cap]
      by (auto simp: capacity_retrieved_def CPARTITION_SIZE_def split: prod.splits)
    then have same: "same_but CPARTITION_SIZE k ?b b1"
      unfolding c(2) by (intro same_but_mwrite same_but_mset_bytes same_but_refl) auto
    have "slot_bytes CPARTITION_SIZE b1 k = padded CPARTITION_SIZE (enc_capacity_info (capacity_of ip cap))"
      unfolding slot_bytes_def c(2) padded_def by (rule mread_mwrite_mset_bytes [OF len])
    then have "contents CPARTITION_SIZE 1 (flip k b1) =
        add_mset (padded CPARTITION_SIZE (enc_capacity_info (capacity_of ip cap))) (contents CPARTITION_SIZE 1 ?b)"
      using contents_fill [OF same, of 1] some by simp
    moreover have "contents CPARTITION_SIZE 2 (flip k b1) = contents CPARTITION_SIZE 2 ?b"
      using same_but_contents [OF same k2(3)] contents_flip_other [OF k2(1,2)] by simp
    moreover have "s' = s\<lparr>commr_block := flip k b1\<rparr>" using s' r0 by simp
    ultimately show ?thesis using c(1) t by blast
  next
    assume r1: "r = -1" "b1 = ?z" "saved (conn w') = None" "tables (conn w') = tables (conn w)"
    have "same_but CPARTITION_SIZE k ?b b1" unfolding r1(2) by (intro same_but_mset_bytes same_but_refl)
    from same_but_contents [OF this k2(3)] r1 s' show ?thesis by auto
  qed
qed

end


section \<open>A server that refuses nothing\<close>

definition r_names :: "(string \<times> nat) set" where
  "r_names = set (List.map (\<lambda>(n, sql, k). (n, k)) dbs_r)"

lemma length_dec_fd: "length (dec (sint (x :: cint))) < 11 \<longleftrightarrow> length (dec (sint x)) \<noteq> 11"
  using length_dec_sint [of x] by auto

lemma store_data_pg:
  assumes "healthy r_names c" "length (root_jobs (tabs c)) = 1" "length (dec (sint (nm_data1 m))) < 11"
    and "0 \<le> sint (nm_data2 m)" "nat (sint (nm_data2 m)) \<le> length (nm_data m)"
  shows "store_data_in_database pg m \<lparr>conn = c, syslog = l\<rparr> =
    Some (0, \<lparr>conn = c\<lparr>tabs := insert_job (dec (sint (nm_data1 m))) (take (nat (sint (nm_data2 m))) (nm_data m)) (tabs c)\<rparr>, syslog = l\<rparr>)"
proof -
  have "(''r_insert_data'', Suc (Suc 0)) \<in> set (prepared c)"
    using assms(1) by (auto simp: healthy_def r_names_def dbs_r_def numeral_2_eq_2)
  then show ?thesis
    using assms by (simp add: store_data_in_database_def sprintf_buf_def run_healthy healthy_def sql_ok_def is_query_def sql_effect_def)
qed

lemma store_commr_pg:
  assumes "healthy r_names c" "length (dec (sint (rm_fd m))) < 11" "length (dec (sint (rm_ipaddr m))) < 11"
    and "length (dec (sint (rm_status m))) < 11"
  shows "store_commr_into_database pg m \<lparr>conn = c, syslog = l\<rparr> =
    Some (0, \<lparr>conn = c\<lparr>tabs := (tabs c)\<lparr>receiving_conns :=
      upsert_receiving (sint (rm_fd m)) (sint (rm_ipaddr m)) (sint (rm_status m)) (receiving_conns (tabs c))\<rparr>\<rparr>, syslog = l\<rparr>)"
proof -
  have "(''r_insert_conns'', Suc (Suc (Suc 0))) \<in> set (prepared c)"
    using assms(1) by (auto simp: healthy_def r_names_def dbs_r_def numeral_3_eq_3)
  then show ?thesis
    using assms by (simp add: store_commr_into_database_def sprintf_buf_def run_healthy healthy_def sql_ok_def is_query_def
        sql_effect_def int_of_def strtol_dec)
qed

lemma retry_ok: "f w = Some (0, w') \<Longrightarrow> retry f n w = Some (0, w')"
  by (simp add: retry.simps)

lemma get_comms_pg:
  assumes "healthy r_names c" "receivers_comms (tabs c) = rc # rcs" "length (dec (rdata1 rc)) \<le> 17"
  shows "get_comms_from_database pg blk p \<lparr>conn = c, syslog = l\<rparr> =
    Some (0, mwrite blk p (enc_capacity_info (capacity_of (dec (rdata1 rc)) (dec (rdata2 rc)))),
      \<lparr>conn = c\<lparr>tabs := (tabs c)\<lparr>receivers_comms := rcs\<rparr>\<rparr>, syslog = l\<rparr>)"
proof -
  have "(''pr_getcomms'', 0) \<in> set (prepared c)"
    using assms(1) by (auto simp: healthy_def r_names_def dbs_r_def)
  then show ?thesis
    using assms by (simp add: get_comms_from_database_def run_healthy healthy_def sql_ok_def is_query_def
        sql_effect_def sql_rows_def first_def PQntuples_def PQgetvalue_def capacity_of_def)
qed

definition demo_server_r :: server where
  "demo_server_r = new_server demo_tables (List.map (\<lambda>(n, sql, k). (n, k)) dbs_r) []"

lemma demo_r: "healthy r_names demo_server_r" "tabs demo_server_r = demo_tables" "snapshot demo_server_r = None"
  by (simp_all add: healthy_def demo_server_r_def new_server_def r_names_def)

definition idle_r :: r_shared where
  "idle_r = \<lparr>datar_block = (\<lambda>_. 0), commr_block = (\<lambda>_. 0), sem_lock_datar = 1, sem_lock_commr = 1, sem_lock_sigr = 1\<rparr>"

lemma no_slots_used_r: "used_slots t (\<lambda>_. 0) = {}"
  by (simp add: used_slots_def used_def)

lemma dec_small: "dec 9 = bytes ''9''" "dec 0 = bytes ''0''" "dec 2 = bytes ''2''"
  by (simp_all add: dec_def dec_nat.simps digit_def bytes_def)


section \<open>Properties\<close>

text \<open>
  Claim C6: \<open>get_data_from_receiver\<close> stores each received message exactly once or drops it.  It takes
  one message from the data block, when there is one; against any server the tables afterwards are
  those with one job inserted for it, whose source is the fd and whose data are the first \<open>data2\<close>
  bytes of the message, whatever the number of attempts, or those before.  Without a message nothing
  is done, and the communication block is not touched.
\<close>

theorem get_data_stores_message_once:
  assumes "pg_server pq tables saved failed effect" "saved (conn w) = None"
    and "get_data_from_receiver pq (s, w) = Some (s', w')"
  shows "saved (conn w') = None \<and> commr_block s' = commr_block s \<and> sem_lock_datar s' = sem_lock_datar s \<and>
    sem_lock_commr s' = sem_lock_commr s \<and> sem_lock_sigr s' = sem_lock_sigr s \<and>
    (contents DPARTITION_SIZE 3 (datar_block s) = {#} \<and> contents DPARTITION_SIZE 3 (datar_block s') = {#} \<and> w' = w
     \<or> (\<exists>x. contents DPARTITION_SIZE 3 (datar_block s) = add_mset x (contents DPARTITION_SIZE 3 (datar_block s')) \<and>
          tables (conn w') \<in> {effect ''r_insert_data'' (data_params (dec_newmsg_data x)) (tables (conn w)), tables (conn w)}))"
proof -
  obtain l s1 where l: "sem_lock_datar s = Suc l" and
    c: "get_data_locked pq (s\<lparr>sem_lock_datar := l\<rparr>, w) = Some (s1, w')" and s': "s' = s1\<lparr>sem_lock_datar := Suc (sem_lock_datar s1)\<rparr>"
    using assms(3) by (cases "sem_lock_datar s") (auto simp: get_data_from_receiver_def bind_eq_Some_conv sem_wait_def sem_post_def)
  from pg_server.get_data_outcome [OF assms(1) c assms(2)] show ?thesis
    using l s' by (elim conjE disjE exE) auto
qed

definition demo_msg :: newmsg_data where
  "demo_msg = \<lparr>nm_data1 = 9, nm_data2 = 5, nm_data = bytes ''hello'' @ replicate (MESSAGE_SIZE - 5) 0\<rparr>"

lemma demo_msg_fits:
  "sint (nm_data1 demo_msg) = 9" "sint (nm_data2 demo_msg) = 5" "length (nm_data demo_msg) = MESSAGE_SIZE"
  "5 \<le> MESSAGE_SIZE" "length (dec 9) < 11"
proof -
  show "length (nm_data demo_msg) = MESSAGE_SIZE"
    by (simp add: demo_msg_def bytes_def) (simp add: MESSAGE_SIZE_def)
  show "length (dec 9) < 11" using length_dec [of 1 9] by simp
qed (simp_all add: demo_msg_def MESSAGE_SIZE_def)

theorem get_data_stores_message_once_witness:
  "\<exists>s' w'. get_data_from_receiver pg (idle_r\<lparr>datar_block := box_with DPARTITION_SIZE 3 (enc_newmsg_data demo_msg)\<rparr>,
      \<lparr>conn = demo_server_r, syslog = []\<rparr>) = Some (s', w') \<and> contents DPARTITION_SIZE 3 (datar_block s') = {#}"
proof -
  let ?b = "box_with DPARTITION_SIZE 3 (enc_newmsg_data demo_msg)" and ?w = "\<lparr>conn = demo_server_r, syslog = []\<rparr>"
  have wf: "wf_newmsg_data demo_msg" by (simp add: wf_newmsg_data_def demo_msg_def MESSAGE_SIZE_def)
  then have "length (enc_newmsg_data demo_msg) \<le> DPARTITION_SIZE"
    by (simp add: newmsg_data.enc_length DPARTITION_SIZE_def)
  from box_with [OF this, of 3] obtain k where k: "get_subblock ?b 1 3 = int k" "k \<in> set (slots 3)"
    "slot_bytes DPARTITION_SIZE ?b k = padded DPARTITION_SIZE (enc_newmsg_data demo_msg)"
    and c: "contents DPARTITION_SIZE 3 ?b = {#padded DPARTITION_SIZE (enc_newmsg_data demo_msg)#}" by blast
  have d: "dec_newmsg_data (mread ?b (slot_addr DPARTITION_SIZE k) sizeof_newmsg_data) = demo_msg"
    using k(3) wf unfolding dec_newmsg_slot slot_bytes_def by (simp add: padded_def newmsg_data.dec_enc_append)
  have r: "length (root_jobs demo_tables) = 1"
    by (simp add: root_jobs_def demo_tables_def demo_root_def demo_job_def demo_uuid_def)
  have st: "\<exists>w1. store_data_in_database pg demo_msg ?w = Some (0, w1)"
  proof (rule exI, rule store_data_pg [OF demo_r(1)])
    show "length (root_jobs (tabs demo_server_r)) = 1" using r by (simp add: demo_r)
    show "length (dec (sint (nm_data1 demo_msg))) < 11" using demo_msg_fits by simp
  qed (use demo_msg_fits in simp_all)
  then obtain w1 where "store_data_in_database pg demo_msg ?w = Some (0, w1)" by (elim exE)
  then have w1: "retry (store_data_in_database pg demo_msg) 3 ?w = Some (0, w1)" by (rule retry_ok)
  then obtain s' where g: "get_data_from_receiver pg (idle_r\<lparr>datar_block := ?b\<rparr>, ?w) = Some (s', w1)"
    using k d slots_less [OF k(2)]
    by (simp add: get_data_from_receiver_def get_data_locked_def sem_wait_def idle_r_def Let_def toggle_bit_flip)
  have "contents DPARTITION_SIZE 3 (datar_block (idle_r\<lparr>datar_block := ?b\<rparr>)) = {#padded DPARTITION_SIZE (enc_newmsg_data demo_msg)#}"
    using c by simp
  moreover have n: "map_option fst (snapshot (conn ?w)) = None" by (simp add: demo_r)
  ultimately show ?thesis using get_data_stores_message_once [OF db.pg_server_axioms n g] g
    by (metis single_is_union add_mset_add_single add_mset_eq_single empty_not_add_mset)
qed

text \<open>
  Claim C25: \<open>get_message_from_receiver\<close> stores each connection event exactly once or drops it: it takes
  one event from the processor's half of the communication block, when there is one, and leaves the
  tables with the row of its fd inserted or updated, or as before; the other half keeps its messages.
\<close>

theorem get_message_stores_event_once:
  assumes "pg_server pq tables saved failed effect" "saved (conn w) = None"
    and "get_message_from_receiver pq (s, w) = Some (s', w')"
  shows "saved (conn w') = None \<and> datar_block s' = datar_block s \<and> sem_lock_datar s' = sem_lock_datar s \<and>
    sem_lock_commr s' = sem_lock_commr s \<and> sem_lock_sigr s' = sem_lock_sigr s \<and>
    contents CPARTITION_SIZE 1 (commr_block s') = contents CPARTITION_SIZE 1 (commr_block s) \<and>
    (contents CPARTITION_SIZE 2 (commr_block s) = {#} \<and> contents CPARTITION_SIZE 2 (commr_block s') = {#} \<and> w' = w
     \<or> (\<exists>x. contents CPARTITION_SIZE 2 (commr_block s) = add_mset x (contents CPARTITION_SIZE 2 (commr_block s')) \<and>
          tables (conn w') \<in> {effect ''r_insert_conns'' (event_params (dec_receivers_message x)) (tables (conn w)), tables (conn w)}))"
proof -
  obtain l s1 where l: "sem_lock_commr s = Suc l" and
    c: "get_message_locked pq (s\<lparr>sem_lock_commr := l\<rparr>, w) = Some (s1, w')" and s': "s' = s1\<lparr>sem_lock_commr := Suc (sem_lock_commr s1)\<rparr>"
    using assms(3) by (cases "sem_lock_commr s") (auto simp: get_message_from_receiver_def bind_eq_Some_conv sem_wait_def sem_post_def)
  from pg_server.get_message_outcome [OF assms(1) c assms(2)] show ?thesis
    using l s' by (elim conjE disjE exE) auto
qed

theorem get_message_stores_event_once_witness:
  "\<exists>s' w'. get_message_from_receiver pg (idle_r\<lparr>commr_block := box_with CPARTITION_SIZE 2
      (enc_receivers_message \<lparr>rm_fd = 9, rm_ipaddr = 0, rm_status = 2\<rparr>)\<rparr>, \<lparr>conn = demo_server_r, syslog = []\<rparr>) =
    Some (s', w') \<and> contents CPARTITION_SIZE 2 (commr_block s') = {#}"
proof -
  let ?m = "\<lparr>rm_fd = 9, rm_ipaddr = 0, rm_status = 2\<rparr>"
  let ?b = "box_with CPARTITION_SIZE 2 (enc_receivers_message ?m)" and ?w = "\<lparr>conn = demo_server_r, syslog = []\<rparr>"
  have "length (enc_receivers_message ?m) \<le> CPARTITION_SIZE"
    by (simp add: receivers_message.enc_length CPARTITION_SIZE_def)
  from box_with [OF this, of 2] obtain k where k: "get_subblock ?b 1 2 = int k" "k \<in> set (slots 2)"
    "slot_bytes CPARTITION_SIZE ?b k = padded CPARTITION_SIZE (enc_receivers_message ?m)"
    and c: "contents CPARTITION_SIZE 2 ?b = {#padded CPARTITION_SIZE (enc_receivers_message ?m)#}" by blast
  have d: "dec_receivers_message (mread ?b (slot_addr CPARTITION_SIZE k) sizeof_receivers_message) = ?m"
    using k(3) unfolding dec_receivers_slot slot_bytes_def by (simp add: padded_def receivers_message.dec_enc_append)
  have "\<exists>w1. store_commr_into_database pg ?m ?w = Some (0, w1)"
  proof (rule exI, rule store_commr_pg [OF demo_r(1)])
    show "length (dec (sint (rm_fd ?m))) < 11" using length_dec [of 1 9] by simp
    show "length (dec (sint (rm_ipaddr ?m))) < 11" using length_dec [of 1 0] by simp
    show "length (dec (sint (rm_status ?m))) < 11" using length_dec [of 1 2] by simp
  qed
  then obtain w1 where "store_commr_into_database pg ?m ?w = Some (0, w1)" by (elim exE)
  then have w1: "retry (store_commr_into_database pg ?m) 3 ?w = Some (0, w1)" by (rule retry_ok)
  then obtain s' where g: "get_message_from_receiver pg (idle_r\<lparr>commr_block := ?b\<rparr>, ?w) = Some (s', w1)"
    using k d slots_less [OF k(2)]
    by (simp add: get_message_from_receiver_def get_message_locked_def sem_wait_def idle_r_def Let_def toggle_bit_flip)
  have "contents CPARTITION_SIZE 2 (commr_block (idle_r\<lparr>commr_block := ?b\<rparr>)) = {#padded CPARTITION_SIZE (enc_receivers_message ?m)#}"
    using c by simp
  moreover have n: "map_option fst (snapshot (conn ?w)) = None" by (simp add: demo_r)
  ultimately show ?thesis using get_message_stores_event_once [OF db.pg_server_axioms n g] g
    by (metis add_mset_eq_single)
qed

text \<open>
  Claim C26: \<open>send_msg_to_receiver\<close> moves a capacity from the table to the receiver without losing or
  repeating it: either the row the server deleted is in the receiver's half of the block, as a
  \<open>capacity_info\<close> with its address and size, or both are as before.  The receiver is not woken:
  no semaphore changes.
\<close>

theorem send_msg_moves_capacity:
  assumes "pg_server pq tables saved failed effect" "saved (conn w) = None"
    and "send_msg_to_receiver pq (s, w) = Some (s', w')"
  shows "saved (conn w') = None \<and> datar_block s' = datar_block s \<and> sem_lock_datar s' = sem_lock_datar s \<and>
    sem_lock_commr s' = sem_lock_commr s \<and> sem_lock_sigr s' = sem_lock_sigr s \<and>
    contents CPARTITION_SIZE 2 (commr_block s') = contents CPARTITION_SIZE 2 (commr_block s) \<and>
    (contents CPARTITION_SIZE 1 (commr_block s') = contents CPARTITION_SIZE 1 (commr_block s) \<and> tables (conn w') = tables (conn w)
     \<or> (\<exists>ip cap. capacity_retrieved pq w ip cap \<and>
          contents CPARTITION_SIZE 1 (commr_block s') =
            add_mset (padded CPARTITION_SIZE (enc_capacity_info (capacity_of ip cap))) (contents CPARTITION_SIZE 1 (commr_block s)) \<and>
          tables (conn w') = effect ''pr_getcomms'' [] (tables (conn w))))"
proof -
  obtain l s1 where l: "sem_lock_commr s = Suc l" and
    c: "send_msg_locked pq (s\<lparr>sem_lock_commr := l\<rparr>, w) = Some (s1, w')" and s': "s' = s1\<lparr>sem_lock_commr := Suc (sem_lock_commr s1)\<rparr>"
    using assms(3) by (cases "sem_lock_commr s") (auto simp: send_msg_to_receiver_def bind_eq_Some_conv sem_wait_def sem_post_def)
  from pg_server.send_msg_outcome [OF assms(1) c assms(2)] show ?thesis
    using l s' by (elim conjE disjE exE) auto
qed

theorem send_msg_moves_capacity_witness:
  "\<exists>s' w'. send_msg_to_receiver pg (idle_r, \<lparr>conn = demo_server_r, syslog = []\<rparr>) = Some (s', w') \<and>
    size (contents CPARTITION_SIZE 1 (commr_block s')) = 1"
proof -
  let ?w = "\<lparr>conn = demo_server_r, syslog = []\<rparr>"
  have u: "used (\<lambda>_. 0) j = ((0 :: int) = 1)" for j by (simp add: used_def)
  have f: "get_subblock (\<lambda>_. 0) 0 1 = int 0"
    by (simp add: get_subblock_find u slots_def upt_conv_Cons del: upt_rec_numeral)
  have l: "length (dec 2130706433) \<le> 17" using length_dec [of 10 2130706433] by simp
  have rc: "receivers_comms (tabs demo_server_r) = [\<lparr>rcomid = 1, rdata1 = 2130706433, rdata2 = 32768\<rparr>]"
    by (simp add: demo_r demo_tables_def)
  from get_comms_pg [OF demo_r(1) rc] l obtain s' w' where g: "send_msg_to_receiver pg (idle_r, ?w) = Some (s', w')"
    and t: "receivers_comms (tabs (conn w')) = []"
    using f toggle_bit_flip [of 0] by (simp add: send_msg_to_receiver_def send_msg_locked_def sem_wait_def idle_r_def Let_def)
  have "contents CPARTITION_SIZE 1 (commr_block idle_r) = {#}" by (simp add: idle_r_def contents_empty_iff no_slots_used_r)
  moreover have "tabs (conn w') \<noteq> tabs (conn ?w)" using t rc by auto
  moreover have n: "map_option fst (snapshot (conn ?w)) = None" by (simp add: demo_r)
  ultimately obtain x where "contents CPARTITION_SIZE 1 (commr_block s') = {#x#}"
    using send_msg_moves_capacity [OF db.pg_server_axioms n g] by metis
  then have "size (contents CPARTITION_SIZE 1 (commr_block s')) = 1" by (metis size_single)
  with g show ?thesis by blast
qed


end
