(* ===== verification/Sender.thy ===== *)
theory Sender
  imports Channel ProcessorS
begin

text \<open>
  \<open>sender.c\<close>: the process that opens and closes the outgoing connections and sends the messages
  \<open>processor_s\<close> leaves in the data block, and reports the outcome of each in the communication block.
  The socket calls are the fields of \<open>net\<close>, on a network state \<open>'n\<close>; \<open>send\<close> is given the bytes it is
  offered and returns how many it took, or -1.
\<close>

record 'n net =
  net_socket :: "'n \<Rightarrow> int \<times> 'n"
  net_connect :: "int \<Rightarrow> 16 word \<Rightarrow> cint \<Rightarrow> 'n \<Rightarrow> int \<times> 'n"
  net_send :: "int \<Rightarrow> byte list \<Rightarrow> 'n \<Rightarrow> int \<times> 'n"
  net_close :: "int \<Rightarrow> 'n \<Rightarrow> 'n"


section \<open>The code\<close>

definition create_connection :: "'n net \<Rightarrow> 16 word \<Rightarrow> cint \<Rightarrow> 'n \<Rightarrow> int \<times> 'n" where
  "create_connection net port_number ip_address n =
     (let (network_socket, n1) = net_socket net n;
          (connection_status, n2) = net_connect net network_socket port_number ip_address n1
      in (if connection_status = -1 then connection_status else network_socket, n2))"

text \<open>Both readers return the slot and the bytes copied from it; \<open>_locked\<close> is the part under the lock.\<close>

definition get_message_locked :: "s_shared \<Rightarrow> (int \<times> byte list \<times> s_shared) option" where
  "get_message_locked s =
     (let k = get_subblock (comms_block s) 1 1 in
      if 0 \<le> k then do {
        let data = mread (comms_block s) (slot_addr CPARTITION_SIZE (nat k)) CPARTITION_SIZE;
        blk \<leftarrow> toggle_bit k (comms_block s);
        Some (k, data, s\<lparr>comms_block := blk\<rparr>) }
      else Some (k, [], s))"

definition get_message_from_processor :: "s_shared \<Rightarrow> (int \<times> byte list \<times> s_shared) option" where
  "get_message_from_processor s = do {
     l \<leftarrow> sem_wait (sem_lock_comms s);
     (k, data, s1) \<leftarrow> get_message_locked (s\<lparr>sem_lock_comms := l\<rparr>);
     Some (k, data, s1\<lparr>sem_lock_comms := sem_post (sem_lock_comms s1)\<rparr>) }"

definition get_data_locked :: "s_shared \<Rightarrow> (int \<times> byte list \<times> s_shared) option" where
  "get_data_locked s =
     (let k = get_subblock (datas_block s) 1 3 in
      if 0 \<le> k then do {
        let sndmsg = mread (datas_block s) (slot_addr DPARTITION_SIZE (nat k)) sizeof_send_message;
        blk \<leftarrow> toggle_bit k (datas_block s);
        Some (k, sndmsg, s\<lparr>datas_block := blk\<rparr>) }
      else Some (k, replicate sizeof_send_message 0, s))"

definition get_data_from_processor :: "s_shared \<Rightarrow> (int \<times> byte list \<times> s_shared) option" where
  "get_data_from_processor s = do {
     l \<leftarrow> sem_wait (sem_lock_datas s);
     (k, sndmsg, s1) \<leftarrow> get_data_locked (s\<lparr>sem_lock_datas := l\<rparr>);
     Some (k, sndmsg, s1\<lparr>sem_lock_datas := sem_post (sem_lock_datas s1)\<rparr>) }"

text \<open>
  \<open>do { ... } while (attempts > 0 && subblock_position == -1)\<close>, from \<open>attempts = 0\<close>; \<open>msg\<close> is the struct
  handed over by pointer.
\<close>

function send_report_attempts :: "int \<Rightarrow> int \<Rightarrow> byte list \<Rightarrow> s_shared \<Rightarrow> s_shared option" where
  "send_report_attempts attempts type msg s =
     (let k = get_subblock (comms_block s) 0 2 in
      do {
        s1 \<leftarrow> (if 0 \<le> k then do {
                 let p = slot_addr CPARTITION_SIZE (nat k);
                 let blk = mset_bytes (comms_block s) p 0 CPARTITION_SIZE;
                 let blk1 = (if type = 3 then mwrite blk p (take sizeof_connection msg)
                             else if type = 4 then mwrite blk p (take sizeof_message_status msg) else blk);
                 blk2 \<leftarrow> toggle_bit k blk1;
                 Some (s\<lparr>comms_block := blk2, sem_lock_sigps := sem_post (sem_lock_sigps s)\<rparr>) }
               else Some s);
        if attempts - 1 > 0 \<and> k = -1 then send_report_attempts (attempts - 1) type msg s1 else Some s1 })"
  by pat_completeness auto
termination
  by (relation "measure (\<lambda>(attempts, type, msg, s). nat attempts)") auto

declare send_report_attempts.simps [simp del]

definition send_message_to_processor :: "int \<Rightarrow> byte list \<Rightarrow> s_shared \<Rightarrow> s_shared option" where
  "send_message_to_processor type msg s = do {
     l \<leftarrow> sem_wait (sem_lock_comms s);
     s1 \<leftarrow> send_report_attempts 0 type msg (s\<lparr>sem_lock_comms := l\<rparr>);
     Some (s1\<lparr>sem_lock_comms := sem_post (sem_lock_comms s1)\<rparr>) }"

text \<open>
  The loop around \<open>send\<close>.  Every call offers \<open>size\<close> bytes from \<open>data + total_data_sent\<close>, \<open>data\<close> being
  at offset 45 of the struct; bytes outside the struct are undefined.  The loop may run for ever.
\<close>

partial_function (option) send_loop :: "'n net \<Rightarrow> int \<Rightarrow> byte list \<Rightarrow> int \<Rightarrow> int \<Rightarrow> 'n \<Rightarrow> (int \<times> 'n) option" where
  "send_loop net fd sndmsg sz sofar n =
     (if 45 + sofar < 0 \<or> sz < 0 \<or> int (length sndmsg) < 45 + sofar + sz then None
      else let (data_sent, n1) = net_send net fd (take (nat sz) (drop (nat (45 + sofar)) sndmsg)) n;
               total1 = sofar + data_sent
           in if total1 < sz \<and> data_sent \<noteq> 0 then send_loop net fd sndmsg sz total1 n1
              else Some (total1, n1))"

definition handle_instruction :: "'n net \<Rightarrow> byte list \<Rightarrow> s_shared \<times> 'n \<Rightarrow> (s_shared \<times> 'n) option" where
  "handle_instruction net data = (\<lambda>(s, n).
     if get32 data 0 = 1 then do {
       let opncn = dec_open_connection data;
       let (fd, n1) = create_connection net (ucast (oc_port opncn)) (oc_ipaddress opncn) n;
       let cncsts = \<lparr>cs_type = 3, cs_fd = word_of_int fd, cs_ipaddress = oc_ipaddress opncn, cs_scommid = oc_scommid opncn\<rparr>;
       s1 \<leftarrow> send_message_to_processor 3 (enc_connection_status cncsts) s;
       Some (s1, n1) }
     else if get32 data 0 = 2 then do {
       let clscn = dec_close_connection data;
       let n1 = net_close net (sint (cc_fd clscn)) n;
       let cncsts = \<lparr>cs_type = 3, cs_fd = -1, cs_ipaddress = cc_ipaddress clscn, cs_scommid = cc_scommid clscn\<rparr>;
       s1 \<leftarrow> send_message_to_processor 3 (enc_connection_status cncsts) s;
       Some (s1, n1) }
     else Some (s, n))"

definition handle_data :: "'n net \<Rightarrow> byte list \<Rightarrow> s_shared \<times> 'n \<Rightarrow> (s_shared \<times> 'n) option" where
  "handle_data net raw = (\<lambda>(s, n). do {
     let sndmsg = dec_send_message raw;
     (total_data_sent, n1) \<leftarrow> send_loop net (sint (sm_fd sndmsg)) raw (sint (sm_size sndmsg)) 0 n;
     let msgsts = \<lparr>ms_type = 4, ms_status = (if total_data_sent < sint (sm_size sndmsg) then 0 else 1),
                   ms_uuid = (sm_uuid sndmsg)[36 := 0]\<rparr>;
     s1 \<leftarrow> send_message_to_processor 4 (enc_message_status msgsts) s;
     Some (s1, n1) })"

text \<open>One turn of \<open>run_sender\<close>.\<close>

definition run_sender_once :: "'n net \<Rightarrow> s_shared \<times> 'n \<Rightarrow> (s_shared \<times> 'n) option" where
  "run_sender_once net = (\<lambda>(s, n). do {
     l \<leftarrow> sem_wait (sem_lock_sigs s);
     (k, data, s1) \<leftarrow> get_message_from_processor (s\<lparr>sem_lock_sigs := l\<rparr>);
     (s2, n2) \<leftarrow> (if k \<noteq> -1 then handle_instruction net data (s1, n) else Some (s1, n));
     (k, sndmsg, s3) \<leftarrow> get_data_from_processor s2;
     if k \<noteq> -1 then handle_data net sndmsg (s3, n2) else Some (s3, n2) })"

fun run_sender :: "nat \<Rightarrow> 'n net \<Rightarrow> s_shared \<times> 'n \<Rightarrow> (s_shared \<times> 'n) option" where
  "run_sender 0 net x = Some x"
| "run_sender (Suc m) net x = do { x1 \<leftarrow> run_sender_once net x; run_sender m net x1 }"


section \<open>The exchanges with the processor\<close>

lemma get_message_cases:
  assumes "sem_lock_comms s = Suc l"
  obtains (empty) "get_message_from_processor s = Some (-1, [], s)" "contents CPARTITION_SIZE 1 (comms_block s) = {#}"
  | (msg) k data b where "get_message_from_processor s = Some (int k, data, s\<lparr>comms_block := b\<rparr>)"
      "contents CPARTITION_SIZE 1 (comms_block s) = add_mset data (contents CPARTITION_SIZE 1 b)"
      "contents CPARTITION_SIZE 2 b = contents CPARTITION_SIZE 2 (comms_block s)" "length data = CPARTITION_SIZE"
proof (cases rule: used_slot_cases [where block = "comms_block s" and type = 1])
  case none
  then show thesis using assms empty
    by (simp add: get_message_from_processor_def sem_wait_def sem_post_def get_message_locked_def
        contents_empty_iff get_subblock_used_iff [symmetric])
next
  case (some k)
  have "get_message_from_processor s =
      Some (int k, slot_bytes CPARTITION_SIZE (comms_block s) k, s\<lparr>comms_block := flip k (comms_block s)\<rparr>)"
    using assms some by (simp add: get_message_from_processor_def sem_wait_def sem_post_def get_message_locked_def
        toggle_bit_flip slot_bytes_def Let_def)
  moreover have "contents CPARTITION_SIZE 1 (comms_block s) = add_mset (slot_bytes CPARTITION_SIZE (comms_block s) k)
      (contents CPARTITION_SIZE 1 (flip k (comms_block s)))"
    using contents_take [of k 1 "comms_block s" CPARTITION_SIZE] some by simp
  moreover have "contents CPARTITION_SIZE 2 (flip k (comms_block s)) = contents CPARTITION_SIZE 2 (comms_block s)"
    using some halves_disjoint by (intro contents_flip_other) auto
  ultimately show thesis by (rule msg) (simp add: slot_bytes_def)
qed

text \<open>The struct the sender copies runs past the slot; its fields are those of the slot's bytes.\<close>

lemma dec_send_message_slot:
  "dec_send_message (mread b p sizeof_send_message) = dec_send_message (mread b p DPARTITION_SIZE)"
proof -
  have "mread b p DPARTITION_SIZE = take DPARTITION_SIZE (mread b p sizeof_send_message)"
    by (simp add: take_mread DPARTITION_SIZE_def sizeof_send_message_def)
  then show ?thesis by (simp add: dec_send_message_def get32_take drop_take DPARTITION_SIZE_def)
qed

lemma get_data_cases:
  assumes "sem_lock_datas s = Suc l"
  obtains (empty) "get_data_from_processor s = Some (-1, replicate sizeof_send_message 0, s)"
      "contents DPARTITION_SIZE 3 (datas_block s) = {#}"
  | (msg) k raw b x where "get_data_from_processor s = Some (int k, raw, s\<lparr>datas_block := b\<rparr>)"
      "contents DPARTITION_SIZE 3 (datas_block s) = add_mset x (contents DPARTITION_SIZE 3 b)"
      "dec_send_message raw = dec_send_message x" "length raw = sizeof_send_message" "take DPARTITION_SIZE raw = x"
proof (cases rule: used_slot_cases [where block = "datas_block s" and type = 3])
  case none
  then show thesis using assms empty
    by (simp add: get_data_from_processor_def sem_wait_def sem_post_def get_data_locked_def
        contents_empty_iff get_subblock_used_iff [symmetric])
next
  case (some k)
  let ?raw = "mread (datas_block s) (slot_addr DPARTITION_SIZE k) sizeof_send_message"
  have "get_data_from_processor s = Some (int k, ?raw, s\<lparr>datas_block := flip k (datas_block s)\<rparr>)"
    using assms some by (simp add: get_data_from_processor_def sem_wait_def sem_post_def get_data_locked_def
        toggle_bit_flip Let_def)
  moreover have "contents DPARTITION_SIZE 3 (datas_block s) = add_mset (slot_bytes DPARTITION_SIZE (datas_block s) k)
      (contents DPARTITION_SIZE 3 (flip k (datas_block s)))"
    using contents_take [of k 3 "datas_block s" DPARTITION_SIZE] some by simp
  ultimately show thesis
  proof (rule msg)
    show "dec_send_message ?raw = dec_send_message (slot_bytes DPARTITION_SIZE (datas_block s) k)"
      unfolding slot_bytes_def by (rule dec_send_message_slot)
    show "take DPARTITION_SIZE ?raw = slot_bytes DPARTITION_SIZE (datas_block s) k"
      by (simp add: slot_bytes_def take_mread DPARTITION_SIZE_def sizeof_send_message_def)
  qed simp
qed

text \<open>The bytes a report leaves in its slot.\<close>

definition report_bytes :: "int \<Rightarrow> byte list \<Rightarrow> byte list" where
  "report_bytes type msg = padded CPARTITION_SIZE
     (if type = 3 then take sizeof_connection msg else if type = 4 then take sizeof_message_status msg else [])"

lemma mwrite_Nil [simp]: "mwrite b p [] = b"
  by (rule ext) (auto simp: mwrite_def)

lemma send_message_cases:
  assumes "sem_lock_comms s = Suc l"
  obtains (full) "send_message_to_processor type msg s = Some s" "card (used_slots 2 (comms_block s)) = 40"
  | (sent) b where "send_message_to_processor type msg s = Some (s\<lparr>comms_block := b, sem_lock_sigps := sem_lock_sigps s + 1\<rparr>)"
      "contents CPARTITION_SIZE 2 b = add_mset (report_bytes type msg) (contents CPARTITION_SIZE 2 (comms_block s))"
      "contents CPARTITION_SIZE 1 b = contents CPARTITION_SIZE 1 (comms_block s)"
      "card (used_slots 2 (comms_block s)) < 40"
proof (cases rule: free_slot_cases [where block = "comms_block s" and type = 2])
  case none
  have "send_report_attempts 0 type msg s' = Some s'" if "comms_block s' = comms_block s" for s'
    using none that by (subst send_report_attempts.simps) (simp add: Let_def)
  then have "send_message_to_processor type msg s = Some s"
    using assms by (simp add: send_message_to_processor_def sem_wait_def sem_post_def)
  moreover have "card (used_slots 2 (comms_block s)) = 40"
    using none get_subblock_free_iff [of "comms_block s" 2] by (simp add: slots_def del: upt_rec_numeral)
  ultimately show thesis by (rule full)
next
  case (some k)
  let ?p = "slot_addr CPARTITION_SIZE k"
  let ?bs = "if type = 3 then take sizeof_connection msg else if type = 4 then take sizeof_message_status msg else []"
  let ?b = "mwrite (mset_bytes (comms_block s) ?p 0 CPARTITION_SIZE) ?p ?bs"
  have b: "(if type = 3 then mwrite z p (take sizeof_connection msg)
      else if type = 4 then mwrite z p (take sizeof_message_status msg) else z) = mwrite z p ?bs" for z p
    by simp
  have len: "length ?bs \<le> CPARTITION_SIZE"
    by (auto simp: CPARTITION_SIZE_def sizeof_connection_def sizeof_message_status_def)
  have a: "send_report_attempts 0 type msg s' =
      Some (s'\<lparr>comms_block := flip k ?b, sem_lock_sigps := sem_lock_sigps s' + 1\<rparr>)" if "comms_block s' = comms_block s" for s'
    using some that unfolding send_report_attempts.simps [of 0] b by (simp add: Let_def toggle_bit_flip sem_post_def)
  have same: "same_but CPARTITION_SIZE k (comms_block s) ?b"
    using len by (intro same_but_mwrite same_but_mset_bytes same_but_refl) auto
  have "slot_bytes CPARTITION_SIZE ?b k = report_bytes type msg"
    unfolding slot_bytes_def report_bytes_def padded_def by (rule mread_mwrite_mset_bytes [OF len])
  then have "contents CPARTITION_SIZE 2 (flip k ?b) = add_mset (report_bytes type msg) (contents CPARTITION_SIZE 2 (comms_block s))"
    using contents_fill [OF same, of 2] some by simp
  moreover have "contents CPARTITION_SIZE 1 (flip k ?b) = contents CPARTITION_SIZE 1 (comms_block s)"
    using some halves_disjoint same_but_contents [OF same, of 1] by (subst contents_flip_other) auto
  moreover have "send_message_to_processor type msg s = Some (s\<lparr>comms_block := flip k ?b, sem_lock_sigps := sem_lock_sigps s + 1\<rparr>)"
    using assms by (simp add: send_message_to_processor_def sem_wait_def sem_post_def a)
  moreover have "card (used_slots 2 (comms_block s)) < 40"
  proof -
    have "card (used_slots 2 (comms_block s)) \<noteq> 40"
      using some get_subblock_free_iff [of "comms_block s" 2] by (simp add: slots_def del: upt_rec_numeral)
    moreover have "card (used_slots 2 (comms_block s)) \<le> 40"
      using card_used_slots_le [of 2 "comms_block s"] by (simp add: slots_def del: upt_rec_numeral)
    ultimately show ?thesis by simp
  qed
  ultimately show thesis using sent by blast
qed


section \<open>A network to run on\<close>

text \<open>
  A kernel that follows a script: what each \<open>connect\<close> and each \<open>send\<close> answers, all bytes taken being
  appended to the wire.  With no answer left \<open>connect\<close> succeeds and \<open>send\<close> takes all it is offered.
\<close>

record tcp =
  next_fd :: int
  connects :: "int list"
  answers :: "int list"
  wire :: "(int \<times> byte list) list"
  closed :: "int list"

definition tcp_send :: "int \<Rightarrow> byte list \<Rightarrow> tcp \<Rightarrow> int \<times> tcp" where
  "tcp_send fd buf n =
     (let r = (case answers n of [] \<Rightarrow> int (length buf) | a # _ \<Rightarrow> max (-1) (min a (int (length buf))))
      in (r, n\<lparr>answers := tl (answers n), wire := wire n @ [(fd, take (nat r) buf)]\<rparr>))"

definition tcp_net :: "tcp net" where
  "tcp_net = \<lparr>net_socket = (\<lambda>n. (next_fd n, n\<lparr>next_fd := next_fd n + 1\<rparr>)),
     net_connect = (\<lambda>fd port ip n. (case connects n of [] \<Rightarrow> 0 | c # _ \<Rightarrow> c, n\<lparr>connects := tl (connects n)\<rparr>)),
     net_send = tcp_send, net_close = (\<lambda>fd n. n\<lparr>closed := closed n @ [fd]\<rparr>)\<rparr>"

text \<open>The bytes that left on a connection.\<close>

definition bytes_on :: "int \<Rightarrow> tcp \<Rightarrow> byte list" where
  "bytes_on fd n = concat [bs. (f, bs) \<leftarrow> wire n, f = fd]"

text \<open>What the program may expect of any kernel's \<open>send\<close>: it takes a prefix of what it is offered.\<close>

locale stream_net =
  fixes net :: "'n net" and on_wire :: "int \<Rightarrow> 'n \<Rightarrow> byte list"
  assumes send_prefix: "net_send net fd buf n = (r, n') \<Longrightarrow>
    -1 \<le> r \<and> r \<le> int (length buf) \<and> on_wire fd n' = on_wire fd n @ take (nat r) buf"
begin

text \<open>The kernel's answers to the successive calls of the loop are \<open>rs\<close>.\<close>

fun answers_of :: "int \<Rightarrow> byte list \<Rightarrow> int \<Rightarrow> int \<Rightarrow> 'n \<Rightarrow> int list \<Rightarrow> 'n \<Rightarrow> bool" where
  "answers_of fd raw sz sofar n [] n' = (n' = n)"
| "answers_of fd raw sz sofar n (r # rs) n' =
     (\<exists>n1. net_send net fd (take (nat sz) (drop (nat (45 + sofar)) raw)) n = (r, n1) \<and>
        answers_of fd raw sz (sofar + r) n1 rs n')"

lemma send_loop_exact:
  assumes "rs \<noteq> []" "\<forall>r \<in> set rs. 0 < r" "sofar + sum_list rs = sz" "0 \<le> sofar"
    and "45 + sofar + sum_list (butlast rs) + sz \<le> int (length raw)"
    and "answers_of fd raw sz sofar n rs n'"
  shows "send_loop net fd raw sz sofar n = Some (sz, n') \<and>
    on_wire fd n' = on_wire fd n @ take (nat (sz - sofar)) (drop (nat (45 + sofar)) raw)"
  using assms
proof (induction rs arbitrary: sofar n)
  case (Cons r rs)
  let ?buf = "take (nat sz) (drop (nat (45 + sofar)) raw)"
  obtain n1 where n1: "net_send net fd ?buf n = (r, n1)" "answers_of fd raw sz (sofar + r) n1 rs n'"
    using Cons.prems(6) by auto
  have r: "0 < r" using Cons.prems by simp
  have "\<forall>x \<in> set (butlast (r # rs)). 0 < x" using Cons.prems(2) by (blast dest: in_set_butlastD)
  then have pos: "0 \<le> sum_list (butlast (r # rs))" "0 \<le> sum_list rs"
    using sum_list_pos [of "butlast (r # rs)"] sum_list_pos [of rs] Cons.prems(2) by auto
  have inside: "45 + sofar + sz \<le> int (length raw)" using Cons.prems(5) pos by linarith
  have w: "on_wire fd n1 = on_wire fd n @ take (nat r) (drop (nat (45 + sofar)) raw)"
    using send_prefix [OF n1(1)] r Cons.prems(3,4) pos by (auto simp: min_def take_take split: if_splits)
  have step: "send_loop net fd raw sz sofar n =
      (if sofar + r < sz then send_loop net fd raw sz (sofar + r) n1 else Some (sofar + r, n1))"
    using n1(1) inside Cons.prems(3,4) r pos by (subst send_loop.simps) auto
  show ?case
  proof (cases "rs = []")
    case True
    then show ?thesis using step w n1 Cons.prems(3) by auto
  next
    case False
    have "45 + (sofar + r) + sum_list (butlast rs) + sz \<le> int (length raw)" using Cons.prems(5) False by simp
    then have IH: "send_loop net fd raw sz (sofar + r) n1 = Some (sz, n')"
      "on_wire fd n' = on_wire fd n1 @ take (nat (sz - (sofar + r))) (drop (nat (45 + (sofar + r))) raw)"
      using Cons.IH [of "sofar + r" n1] False Cons.prems n1(2) r by auto
    have "sum_list rs \<noteq> 0" using False Cons.prems(2) sum_list_pos [of rs] by auto
    then have "sofar + r < sz" using Cons.prems(3) pos by simp
    moreover have "take (nat r) (drop (nat (45 + sofar)) raw) @ take (nat (sz - (sofar + r))) (drop (nat (45 + (sofar + r))) raw) =
        take (nat (sz - sofar)) (drop (nat (45 + sofar)) raw)"
    proof -
      have "nat (sz - sofar) = nat r + nat (sz - (sofar + r))" "nat (45 + (sofar + r)) = nat r + nat (45 + sofar)"
        using r Cons.prems(4) \<open>sofar + r < sz\<close> by auto
      then show ?thesis by (simp add: take_add add.commute)
    qed
    ultimately show ?thesis using IH step w by simp
  qed
qed simp

end

lemma tcp_stream: "stream_net tcp_net bytes_on"
proof
  fix fd buf n n' and r :: int
  assume "net_send tcp_net fd buf n = (r, n')"
  then show "-1 \<le> r \<and> r \<le> int (length buf) \<and> bytes_on fd n' = bytes_on fd n @ take (nat r) buf"
    by (auto simp: tcp_net_def tcp_send_def Let_def bytes_on_def split: list.splits)
qed

interpretation tcp: stream_net tcp_net bytes_on
  by (rule tcp_stream)


section \<open>The reports\<close>

lemma report_conn: "dec_connection_status (report_bytes 3 (enc_connection_status c)) = c"
  by (simp add: report_bytes_def padded_def sizeof_connection_def connection_status.enc_length connection_status.dec_enc_append)

lemma report_job: "wf_message_status m \<Longrightarrow> dec_message_status (report_bytes 4 (enc_message_status m)) = m"
  by (simp add: report_bytes_def padded_def sizeof_message_status_def message_status.enc_length message_status.dec_enc_append)

text \<open>\<open>r\<close> reports on the instruction \<open>i\<close>, and on the message \<open>x\<close>.\<close>

definition reports_instr :: "byte list \<Rightarrow> byte list \<Rightarrow> bool" where
  "reports_instr i r \<longleftrightarrow> (get32 i 0 = 1 \<or> get32 i 0 = 2) \<and>
     (let c = dec_connection_status r; oc = dec_open_connection i
      in cs_type c = 3 \<and> cs_ipaddress c = oc_ipaddress oc \<and> cs_scommid c = oc_scommid oc \<and>
         (get32 i 0 = 2 \<longrightarrow> cs_fd c = -1))"

definition reports_data :: "byte list \<Rightarrow> byte list \<Rightarrow> bool" where
  "reports_data x r \<longleftrightarrow>
     (let m = dec_message_status r
      in ms_type m = 4 \<and> ms_uuid m = (sm_uuid (dec_send_message x))[36 := 0] \<and> (ms_status m = 0 \<or> ms_status m = 1))"

lemma handle_instruction_outcome:
  assumes "handle_instruction net i (s, n) = Some (s', n')" "sem_lock_comms s = Suc l"
  shows "\<exists>b reps. s' = s\<lparr>comms_block := b, sem_lock_sigps := sem_lock_sigps s + size reps\<rparr> \<and> size reps \<le> 1 \<and>
    contents CPARTITION_SIZE 2 b = contents CPARTITION_SIZE 2 (comms_block s) + reps \<and>
    contents CPARTITION_SIZE 1 b = contents CPARTITION_SIZE 1 (comms_block s) \<and>
    (\<forall>r \<in># reps. reports_instr i r) \<and>
    (card (used_slots 2 (comms_block s)) < 40 \<and> (get32 i 0 = 1 \<or> get32 i 0 = 2) \<longrightarrow> size reps = 1)"
proof (cases "get32 i 0 = 1 \<or> get32 i 0 = 2")
  case False
  then have "s' = s\<lparr>comms_block := comms_block s, sem_lock_sigps := sem_lock_sigps s + size {#}\<rparr>"
    using assms(1) by (simp add: handle_instruction_def)
  with False show ?thesis by (intro exI [of _ "comms_block s"] exI [of _ "{#}"]) auto
next
  case True
  from assms(1) True obtain c where m: "send_message_to_processor 3 (enc_connection_status c) s = Some s'"
    and c: "reports_instr i (report_bytes 3 (enc_connection_status c))"
    by (auto simp: handle_instruction_def reports_instr_def report_conn Let_def bind_eq_Some_conv dec_open_connection_def
        dec_close_connection_def split: if_splits prod.splits)
  from assms(2) show ?thesis
  proof (cases rule: send_message_cases [where type = 3 and msg = "enc_connection_status c"])
    case full
    then have "s' = s\<lparr>comms_block := comms_block s, sem_lock_sigps := sem_lock_sigps s + size {#}\<rparr>" using m by simp
    with full show ?thesis by (intro exI [of _ "comms_block s"] exI [of _ "{#}"]) auto
  next
    case (sent b)
    with m c show ?thesis
      by (intro exI [of _ b] exI [of _ "{#report_bytes 3 (enc_connection_status c)#}"]) auto
  qed
qed

lemma handle_data_outcome:
  assumes "handle_data net raw (s, n) = Some (s', n')" "sem_lock_comms s = Suc l" "dec_send_message raw = dec_send_message x"
    and "length raw = sizeof_send_message"
  shows "\<exists>b reps. s' = s\<lparr>comms_block := b, sem_lock_sigps := sem_lock_sigps s + size reps\<rparr> \<and> size reps \<le> 1 \<and>
    contents CPARTITION_SIZE 2 b = contents CPARTITION_SIZE 2 (comms_block s) + reps \<and>
    contents CPARTITION_SIZE 1 b = contents CPARTITION_SIZE 1 (comms_block s) \<and>
    (\<forall>r \<in># reps. reports_data x r) \<and> (card (used_slots 2 (comms_block s)) < 40 \<longrightarrow> size reps = 1)"
proof -
  let ?u = "(sm_uuid (dec_send_message raw))[36 := 0]"
  have wf: "wf_message_status \<lparr>ms_type = 4, ms_status = st, ms_uuid = ?u\<rparr>" for st
    using assms(4) by (simp add: wf_message_status_def dec_send_message_def sizeof_send_message_def)
  from assms(1) obtain st where m: "send_message_to_processor 4 (enc_message_status \<lparr>ms_type = 4, ms_status = st, ms_uuid = ?u\<rparr>) s = Some s'"
    and st: "st = 0 \<or> st = 1"
    by (auto simp: handle_data_def Let_def bind_eq_Some_conv)
  have c: "reports_data x (report_bytes 4 (enc_message_status \<lparr>ms_type = 4, ms_status = st, ms_uuid = ?u\<rparr>))"
    unfolding reports_data_def assms(3) [symmetric] report_job [OF wf] using st by simp
  from assms(2) show ?thesis
  proof (cases rule: send_message_cases [where type = 4 and msg = "enc_message_status \<lparr>ms_type = 4, ms_status = st, ms_uuid = ?u\<rparr>"])
    case full
    then have "s' = s\<lparr>comms_block := comms_block s, sem_lock_sigps := sem_lock_sigps s + size {#}\<rparr>" using m by simp
    with full show ?thesis by (intro exI [of _ "comms_block s"] exI [of _ "{#}"]) auto
  next
    case (sent b)
    with m c show ?thesis
      by (intro exI [of _ b] exI [of _ "{#report_bytes 4 (enc_message_status \<lparr>ms_type = 4, ms_status = st, ms_uuid = ?u\<rparr>)#}"]) auto
  qed
qed


lemma run_sender_once_steps:
  assumes "run_sender_once net (s, n) = Some (s', n')"
  obtains l k data s1 s2 n2 k2 raw s3 where "sem_lock_sigs s = Suc l"
    "get_message_from_processor (s\<lparr>sem_lock_sigs := l\<rparr>) = Some (k, data, s1)"
    "(if k \<noteq> -1 then handle_instruction net data (s1, n) else Some (s1, n)) = Some (s2, n2)"
    "get_data_from_processor s2 = Some (k2, raw, s3)"
    "(if k2 \<noteq> -1 then handle_data net raw (s3, n2) else Some (s3, n2)) = Some (s', n')"
  using assms by (cases "sem_lock_sigs s") (auto simp: run_sender_once_def sem_wait_def bind_eq_Some_conv)

text \<open>What a turn takes from a block: one message, or nothing when there is none.\<close>

definition took :: "byte list multiset \<Rightarrow> byte list multiset \<Rightarrow> byte list multiset \<Rightarrow> bool" where
  "took before taken after \<longleftrightarrow> before = taken + after \<and> size taken \<le> 1 \<and> (taken = {#} \<longrightarrow> before = {#})"

lemma turn_instruction:
  assumes "get_message_from_processor s = Some (k, data, s1)" "sem_lock_comms s = Suc l"
    and "(if k \<noteq> -1 then handle_instruction net data (s1, n) else Some (s1, n)) = Some (s2, n2)"
  shows "\<exists>b ins reps. s2 = s\<lparr>comms_block := b, sem_lock_sigps := sem_lock_sigps s + size reps\<rparr> \<and>
    took (contents CPARTITION_SIZE 1 (comms_block s)) ins (contents CPARTITION_SIZE 1 b) \<and>
    contents CPARTITION_SIZE 2 b = contents CPARTITION_SIZE 2 (comms_block s) + reps \<and> size reps \<le> 1 \<and>
    (\<forall>r \<in># reps. \<exists>i \<in># ins. reports_instr i r) \<and>
    (card (used_slots 2 (comms_block s)) < 40 \<longrightarrow> size reps = size {# i \<in># ins. get32 i 0 = 1 \<or> get32 i 0 = 2 #})"
  using assms(2)
proof (cases rule: get_message_cases)
  case empty
  then have "s2 = s\<lparr>comms_block := comms_block s, sem_lock_sigps := sem_lock_sigps s + size {#}\<rparr>" using assms(1,3) by simp
  with empty show ?thesis by (intro exI [of _ "comms_block s"] exI [of _ "{#}"]) (auto simp: took_def)
next
  case (msg k' d b1)
  then have eq: "k = int k'" "data = d" "s1 = s\<lparr>comms_block := b1\<rparr>" using assms(1) by auto
  then have h: "handle_instruction net data (s1, n) = Some (s2, n2)" using assms(3) by simp
  obtain b reps where o: "s2 = s1\<lparr>comms_block := b, sem_lock_sigps := sem_lock_sigps s1 + size reps\<rparr>" "size reps \<le> 1"
    "contents CPARTITION_SIZE 2 b = contents CPARTITION_SIZE 2 b1 + reps"
    "contents CPARTITION_SIZE 1 b = contents CPARTITION_SIZE 1 b1" "\<forall>r \<in># reps. reports_instr data r"
    "card (used_slots 2 b1) < 40 \<and> (get32 data 0 = 1 \<or> get32 data 0 = 2) \<longrightarrow> size reps = 1"
    using handle_instruction_outcome [OF h, of l] assms(2) eq(3) by auto
  have "card (used_slots 2 b1) = card (used_slots 2 (comms_block s))" using msg(3) size_contents by metis
  moreover have "reps = {#}" if "\<not> (get32 data 0 = 1 \<or> get32 data 0 = 2)"
    using o(5) that by (auto simp: reports_instr_def multiset_eq_iff not_in_iff)
  ultimately show ?thesis
    using o msg eq by (intro exI [of _ b] exI [of _ "{#d#}"] exI [of _ reps]) (auto simp: took_def)
qed

lemma turn_data:
  assumes "get_data_from_processor s = Some (k, raw, s1)" "sem_lock_datas s = Suc l" "sem_lock_comms s = Suc l'"
    and "(if k \<noteq> -1 then handle_data net raw (s1, n) else Some (s1, n)) = Some (s2, n2)"
  shows "\<exists>b d dat reps. s2 = s\<lparr>datas_block := d, comms_block := b, sem_lock_sigps := sem_lock_sigps s + size reps\<rparr> \<and>
    took (contents DPARTITION_SIZE 3 (datas_block s)) dat (contents DPARTITION_SIZE 3 d) \<and>
    contents CPARTITION_SIZE 1 b = contents CPARTITION_SIZE 1 (comms_block s) \<and>
    contents CPARTITION_SIZE 2 b = contents CPARTITION_SIZE 2 (comms_block s) + reps \<and>
    (\<forall>r \<in># reps. \<exists>x \<in># dat. reports_data x r) \<and> size reps \<le> size dat \<and>
    (card (used_slots 2 (comms_block s)) < 40 \<longrightarrow> size reps = size dat)"
  using assms(2)
proof (cases rule: get_data_cases)
  case empty
  then have "s2 = s\<lparr>datas_block := datas_block s, comms_block := comms_block s, sem_lock_sigps := sem_lock_sigps s + size {#}\<rparr>"
    using assms(1,4) by simp
  with empty show ?thesis
    by (intro exI [of _ "comms_block s"] exI [of _ "datas_block s"] exI [of _ "{#}"]) (auto simp: took_def)
next
  case (msg k' r d x)
  then have eq: "k = int k'" "raw = r" "s1 = s\<lparr>datas_block := d\<rparr>" using assms(1) by auto
  then have h: "handle_data net raw (s1, n) = Some (s2, n2)" using assms(4) by simp
  obtain b reps where o: "s2 = s1\<lparr>comms_block := b, sem_lock_sigps := sem_lock_sigps s1 + size reps\<rparr>" "size reps \<le> 1"
    "contents CPARTITION_SIZE 2 b = contents CPARTITION_SIZE 2 (comms_block s) + reps"
    "contents CPARTITION_SIZE 1 b = contents CPARTITION_SIZE 1 (comms_block s)" "\<forall>r \<in># reps. reports_data x r"
    "card (used_slots 2 (comms_block s)) < 40 \<longrightarrow> size reps = 1"
    using handle_data_outcome [OF h, of l' x] assms(3) eq msg by auto
  then show ?thesis
    using msg eq by (intro exI [of _ b] exI [of _ d] exI [of _ "{#x#}"] exI [of _ reps]) (auto simp: took_def)
qed


section \<open>Properties\<close>

text \<open>
  Claim C7: a turn of the sender takes at most one instruction and at most one message, exactly one
  when there is any, and answers each: with two free slots for reports every instruction to open or
  close is answered by one connection report with its address and id, every message by one job report
  with its uuid, and \<open>sigps\<close> is posted once per report.  With fewer free slots a report may be dropped,
  but none is made up, and nothing else in the blocks changes.
\<close>

theorem sender_answers_each_message:
  assumes "run_sender_once net (s, n) = Some (s', n')" "sem_lock_comms s = 1" "sem_lock_datas s = 1"
  shows "sem_lock_sigs s = sem_lock_sigs s' + 1 \<and> sem_lock_comms s' = 1 \<and> sem_lock_datas s' = 1 \<and>
    (\<exists>ins dat rep1 rep2.
      took (contents CPARTITION_SIZE 1 (comms_block s)) ins (contents CPARTITION_SIZE 1 (comms_block s')) \<and>
      took (contents DPARTITION_SIZE 3 (datas_block s)) dat (contents DPARTITION_SIZE 3 (datas_block s')) \<and>
      contents CPARTITION_SIZE 2 (comms_block s') = contents CPARTITION_SIZE 2 (comms_block s) + rep1 + rep2 \<and>
      sem_lock_sigps s' = sem_lock_sigps s + size rep1 + size rep2 \<and>
      (\<forall>r \<in># rep1. \<exists>i \<in># ins. reports_instr i r) \<and> (\<forall>r \<in># rep2. \<exists>x \<in># dat. reports_data x r) \<and>
      size rep1 \<le> size ins \<and> size rep2 \<le> size dat \<and>
      (card (used_slots 2 (comms_block s)) < 39 \<longrightarrow>
         size rep1 = size {# i \<in># ins. get32 i 0 = 1 \<or> get32 i 0 = 2 #} \<and> size rep2 = size dat))"
proof -
  obtain l k data s1 s2 n2 k2 raw s3 where t: "sem_lock_sigs s = Suc l"
    "get_message_from_processor (s\<lparr>sem_lock_sigs := l\<rparr>) = Some (k, data, s1)"
    "(if k \<noteq> -1 then handle_instruction net data (s1, n) else Some (s1, n)) = Some (s2, n2)"
    "get_data_from_processor s2 = Some (k2, raw, s3)"
    "(if k2 \<noteq> -1 then handle_data net raw (s3, n2) else Some (s3, n2)) = Some (s', n')"
    by (rule run_sender_once_steps [OF assms(1)])
  obtain b ins rep1 where i: "s2 = s\<lparr>sem_lock_sigs := l, comms_block := b, sem_lock_sigps := sem_lock_sigps s + size rep1\<rparr>"
    "took (contents CPARTITION_SIZE 1 (comms_block s)) ins (contents CPARTITION_SIZE 1 b)"
    "contents CPARTITION_SIZE 2 b = contents CPARTITION_SIZE 2 (comms_block s) + rep1" "size rep1 \<le> 1"
    "\<forall>r \<in># rep1. \<exists>i \<in># ins. reports_instr i r"
    "card (used_slots 2 (comms_block s)) < 40 \<longrightarrow> size rep1 = size {# i \<in># ins. get32 i 0 = 1 \<or> get32 i 0 = 2 #}"
    using turn_instruction [OF t(2) _ t(3), of 0] assms(2) by auto
  obtain b' d dat rep2 where j: "s' = s2\<lparr>datas_block := d, comms_block := b', sem_lock_sigps := sem_lock_sigps s2 + size rep2\<rparr>"
    "took (contents DPARTITION_SIZE 3 (datas_block s2)) dat (contents DPARTITION_SIZE 3 d)"
    "contents CPARTITION_SIZE 1 b' = contents CPARTITION_SIZE 1 b"
    "contents CPARTITION_SIZE 2 b' = contents CPARTITION_SIZE 2 b + rep2"
    "\<forall>r \<in># rep2. \<exists>x \<in># dat. reports_data x r" "size rep2 \<le> size dat" "card (used_slots 2 b) < 40 \<longrightarrow> size rep2 = size dat"
    using turn_data [OF t(4) _ _ t(5), of 0 0] assms(2,3) i(1) by auto
  have "card (used_slots 2 b) \<le> card (used_slots 2 (comms_block s)) + 1"
    using i(3,4) size_contents [of CPARTITION_SIZE 2 b] size_contents [of CPARTITION_SIZE 2 "comms_block s"] by simp
  moreover have "size rep1 \<le> size ins"
  proof (cases "ins = {#}")
    case True
    with i(5) have "rep1 = {#}" by (metis empty_iff set_mset_empty multiset_nonemptyE)
    then show ?thesis by simp
  next
    case False
    then have "1 \<le> size ins" by (metis One_nat_def Suc_leI nonempty_has_size)
    with i(4) show ?thesis by simp
  qed
  ultimately have room: "card (used_slots 2 (comms_block s)) < 39 \<longrightarrow>
      size rep1 = size {# i \<in># ins. get32 i 0 = 1 \<or> get32 i 0 = 2 #} \<and> size rep2 = size dat"
    and le: "size rep1 \<le> size ins" using i(6) j(7) by auto
  have f: "sem_lock_sigs s = sem_lock_sigs s' + 1" "sem_lock_comms s' = 1" "sem_lock_datas s' = 1"
    "comms_block s' = b'" "datas_block s' = d" "sem_lock_sigps s' = sem_lock_sigps s + size rep1 + size rep2"
    "datas_block s2 = datas_block s"
    using t(1) assms(2,3) by (simp_all add: j(1) i(1))
  have c: "contents CPARTITION_SIZE 2 b' = contents CPARTITION_SIZE 2 (comms_block s) + rep1 + rep2"
    "took (contents CPARTITION_SIZE 1 (comms_block s)) ins (contents CPARTITION_SIZE 1 b')"
    "took (contents DPARTITION_SIZE 3 (datas_block s)) dat (contents DPARTITION_SIZE 3 d)"
    using i(2,3) j(2-4) f(7) by simp_all
  show ?thesis unfolding f(4,5) using f(1-3,6) c room le i(5) j(5,6) by blast
qed


lemma handle_instruction_returns:
  assumes "sem_lock_comms s = Suc l"
  shows "\<exists>x. handle_instruction net i (s, n) = Some x"
proof -
  have "\<exists>s1. send_message_to_processor 3 msg s = Some s1" for msg
    using assms by (cases rule: send_message_cases [where type = 3 and msg = msg]) auto
  then show ?thesis by (auto simp: handle_instruction_def Let_def bind_eq_Some_conv split: prod.splits)
qed

lemma run_sender_once_idle:
  assumes "sem_lock_sigs s = Suc l" "sem_lock_comms s = 1" "sem_lock_datas s = 1" "contents DPARTITION_SIZE 3 (datas_block s) = {#}"
  shows "\<exists>s' n'. run_sender_once net (s, n) = Some (s', n')"
proof -
  let ?s = "s\<lparr>sem_lock_sigs := l\<rparr>"
  obtain k data s1 where g: "get_message_from_processor ?s = Some (k, data, s1)" and s1: "\<exists>b. s1 = ?s\<lparr>comms_block := b\<rparr>"
  proof -
    have "sem_lock_comms ?s = Suc 0" using assms(2) by simp
    then show ?thesis
    proof (cases rule: get_message_cases)
      case empty
      moreover have "?s = ?s\<lparr>comms_block := comms_block ?s\<rparr>" by simp
      ultimately show ?thesis using that by blast
    next
      case (msg k d b)
      then show ?thesis using that by blast
    qed
  qed
  obtain s2 n2 where h: "(if k \<noteq> -1 then handle_instruction net data (s1, n) else Some (s1, n)) = Some (s2, n2)"
    using handle_instruction_returns [of s1 0 net data n] s1 assms(2) by (cases "k = -1") auto
  have "datas_block s2 = datas_block s" "sem_lock_datas s2 = 1"
    using turn_instruction [OF g _ h, of 0] assms(2,3) by auto
  then have "get_data_from_processor s2 = Some (-1, replicate sizeof_send_message 0, s2)"
    using assms(4) get_data_cases [of s2 0] by (metis One_nat_def empty_not_add_mset)
  then show ?thesis using assms(1) g h by (simp add: run_sender_once_def sem_wait_def)
qed

definition close_instr :: "byte list" where
  "close_instr = enc_close_connection \<lparr>cc_type = 2, cc_fd = 9, cc_ipaddress = 2130706433, cc_scommid = 3\<rparr>"

definition fresh_net :: "int list \<Rightarrow> tcp" where
  "fresh_net rs = \<lparr>next_fd = 9, connects = [], answers = rs, wire = [], closed = []\<rparr>"

theorem sender_answers_each_message_witness:
  "\<exists>s' n'. run_sender_once tcp_net (idle_shared\<lparr>comms_block := box_with CPARTITION_SIZE 1 close_instr, sem_lock_sigs := 1\<rparr>, fresh_net []) = Some (s', n') \<and>
    sem_lock_sigs s' = 0 \<and> size (contents CPARTITION_SIZE 1 (comms_block s')) = 0"
proof -
  let ?s = "idle_shared\<lparr>comms_block := box_with CPARTITION_SIZE 1 close_instr, sem_lock_sigs := 1\<rparr>"
  have "length close_instr \<le> CPARTITION_SIZE" by (simp add: close_instr_def close_connection.enc_length CPARTITION_SIZE_def)
  then have c: "contents CPARTITION_SIZE 1 (comms_block ?s) = {#padded CPARTITION_SIZE close_instr#}"
    using box_with [of close_instr CPARTITION_SIZE 1] by simp
  have "contents DPARTITION_SIZE 3 (datas_block ?s) = {#}"
    by (simp add: idle_shared_def contents_empty_iff no_slots_used)
  then obtain s' n' where r: "run_sender_once tcp_net (?s, fresh_net []) = Some (s', n')"
    using run_sender_once_idle [of ?s 0 tcp_net "fresh_net []"] by (auto simp: idle_shared_def)
  obtain ins where "took {#padded CPARTITION_SIZE close_instr#} ins (contents CPARTITION_SIZE 1 (comms_block s'))"
    and "sem_lock_sigs s' = 0"
    using sender_answers_each_message [OF r] unfolding c by (auto simp: idle_shared_def)
  then have "contents CPARTITION_SIZE 1 (comms_block s') = {#}"
    by (auto simp: took_def union_is_single single_is_union)
  with r \<open>sem_lock_sigs s' = 0\<close> show ?thesis by (simp del: size_contents)
qed

text \<open>
  Claim C21: on any network whose \<open>send\<close> takes prefixes, when \<open>send\<close> never takes more than what is left
  of the message and never fails, the loop ends, whatever the sizes of the pieces, with exactly the
  bytes of the message on the wire and their number as its result, provided the last call does not
  offer bytes beyond the struct.
\<close>

theorem send_loop_delivers_pieces:
  assumes "stream_net net on_wire" "stream_net.answers_of net fd raw sz 0 n rs n'"
    and "rs \<noteq> []" "\<forall>r \<in> set rs. 0 < r" "sum_list rs = sz"
    and "45 + sum_list (butlast rs) + sz \<le> int (length raw)"
  shows "send_loop net fd raw sz 0 n = Some (sz, n') \<and>
    on_wire fd n' = on_wire fd n @ take (nat sz) (drop 45 raw)"
  using stream_net.send_loop_exact [OF assms(1,3,4), of 0] assms(2,5,6) by simp

theorem send_loop_delivers_pieces_witness:
  "\<exists>n'. send_loop tcp_net 9 (replicate 45 0 @ bytes ''abcd'' @ replicate 20 0) 4 0 (fresh_net [1, 3]) = Some (4, n') \<and>
    bytes_on 9 n' = bytes ''abcd''"
proof -
  let ?raw = "replicate 45 0 @ bytes ''abcd'' @ replicate 20 0"
  let ?n1 = "(fresh_net [3])\<lparr>wire := [(9, bytes ''a'')]\<rparr>"
  let ?n2 = "?n1\<lparr>answers := [], wire := [(9, bytes ''a''), (9, bytes ''bcd'')]\<rparr>"
  have 1: "net_send tcp_net 9 (take 4 (drop 45 ?raw)) (fresh_net [1, 3]) = (1, ?n1)"
    "net_send tcp_net 9 (take 4 (drop 46 ?raw)) ?n1 = (3, ?n2)"
    by (simp_all add: tcp_net_def tcp_send_def fresh_net_def bytes_def Let_def)
  then have "tcp.answers_of 9 ?raw 4 0 (fresh_net [1, 3]) [1, 3] ?n2" by simp
  from send_loop_delivers_pieces [OF tcp_stream this] show ?thesis
    by (auto simp: bytes_on_def fresh_net_def bytes_def)
qed

text \<open>
  Every call of \<open>send\<close> offers \<open>size\<close> bytes again, so the kernel may take more than is left
  of the message: here 4 bytes are to be sent, the first call takes 2 and the second 4.  The wire
  carries two bytes the message does not have, and the loop still counts the message as sent.
\<close>

theorem send_loop_overshoots:
  "\<exists>n'. send_loop tcp_net 9 (replicate 45 0 @ bytes ''abcd'' @ replicate 20 0) 4 0 (fresh_net [2, 4]) = Some (6, n') \<and>
    bytes_on 9 n' = bytes ''abcd'' @ [0, 0]"
  by (subst send_loop.simps, simp add: tcp_net_def tcp_send_def fresh_net_def bytes_def Let_def)
    (subst send_loop.simps, simp add: tcp_net_def tcp_send_def fresh_net_def bytes_def bytes_on_def Let_def numeral_2_eq_2)



end
