(* ===== verification/Receiver.thy ===== *)
theory Receiver
  imports ProcessorR Hashtable
begin

unbundle bit_operations_syntax

text \<open>
  \<open>receiver.c\<close>: the process that accepts the connections of other systems and cuts the bytes that
  arrive on them into messages of the size agreed with each address.  It keeps the agreed sizes in the
  hash table, and exchanges messages, events and sizes with \<open>processor_r\<close> in the shared blocks.

  The system calls are the fields of \<open>kernel\<close>, on a state \<open>'k\<close>.  \<open>rcv\<close> holds the globals of the file
  and the two locals of \<open>run_receiver\<close> that keep their bytes from one turn to the next: \<open>addr\<close> (its
  \<open>s_addr\<close>, in network order) and \<open>nmsg\<close> (the raw bytes of the struct).
\<close>

record 'k kernel =
  k_socket :: "'k \<Rightarrow> int \<times> 'k"
  k_setsockopt :: "int \<Rightarrow> cint \<Rightarrow> 'k \<Rightarrow> int \<times> 'k"
  k_bind :: "int \<Rightarrow> 16 word \<Rightarrow> cint \<Rightarrow> 'k \<Rightarrow> int \<times> 'k"
  k_listen :: "int \<Rightarrow> 'k \<Rightarrow> int \<times> 'k"
  k_accept :: "int \<Rightarrow> 'k \<Rightarrow> (int \<times> cint) \<times> 'k"
  k_fcntl :: "int \<Rightarrow> int \<Rightarrow> int \<Rightarrow> 'k \<Rightarrow> int \<times> 'k"
  k_epoll_create1 :: "'k \<Rightarrow> int \<times> 'k"
  k_epoll_ctl :: "int \<Rightarrow> int \<Rightarrow> int \<Rightarrow> cint \<Rightarrow> 'k \<Rightarrow> int \<times> 'k"
  k_epoll_wait :: "int \<Rightarrow> int \<Rightarrow> int \<Rightarrow> 'k \<Rightarrow> (int \<times> (int \<times> cint) list) \<times> 'k"
  k_getsockname :: "int \<Rightarrow> cint \<Rightarrow> 'k \<Rightarrow> cint \<times> 'k"
  k_read :: "int \<Rightarrow> int \<Rightarrow> 'k \<Rightarrow> (int \<times> byte list) \<times> 'k"
  k_close :: "int \<Rightarrow> 'k \<Rightarrow> int \<times> 'k"
  k_again :: "'k \<Rightarrow> bool"
  k_strerror :: "'k \<Rightarrow> byte list"

record server_info =
  port :: cint
  maxevents :: int
  servsoc_fd :: int
  epoll_fd :: int
  ipaddress :: "64 word"

record ('c, 'k) rcv =
  s_info :: server_info
  shm :: r_shared
  htable :: hashtable
  db_world :: "'c world"
  kern :: 'k
  addr :: cint
  nmsg :: "byte list"

text \<open>A system call, a log line, and a step on the shared blocks, each on its part of the state.\<close>

definition syscall :: "('k \<Rightarrow> 'r \<times> 'k) \<Rightarrow> ('c, 'k) rcv \<Rightarrow> 'r \<times> ('c, 'k) rcv" where
  "syscall f st = (let (r, k) = f (kern st) in (r, st\<lparr>kern := k\<rparr>))"

definition log_line :: "'c pq \<Rightarrow> string \<Rightarrow> vararg list \<Rightarrow> ('c, 'k) rcv \<Rightarrow> ('c, 'k) rcv option" where
  "log_line pq fmt args st = map_option (\<lambda>w. st\<lparr>db_world := w\<rparr>) (storelog pq fmt args (db_world st))"

definition on_shared :: "(r_shared \<Rightarrow> r_shared option) \<Rightarrow> ('c, 'k) rcv \<Rightarrow> ('c, 'k) rcv option" where
  "on_shared f st = map_option (\<lambda>s. st\<lparr>shm := s\<rparr>) (f (shm st))"

definition strerror_arg :: "'k kernel \<Rightarrow> ('c, 'k) rcv \<Rightarrow> vararg" where
  "strerror_arg kn st = VStr (k_strerror kn (kern st))"

definition int_arg :: "int \<Rightarrow> vararg" where
  "int_arg i = VInt (word_of_int i)"

text \<open>\<open>htonl\<close> and \<open>htons\<close> on a little-endian machine.\<close>

definition htonl :: "cint \<Rightarrow> cint" where
  "htonl a = get32 (rev (le32 a)) 0"

definition htons :: "16 word \<Rightarrow> 16 word" where
  "htons p = push_bit 8 p OR drop_bit 8 p"


section \<open>The shared blocks\<close>

text \<open>\<open>do { ... } while (attempts > 0 && subblock_position == -1)\<close> of both writers, under their lock.\<close>

fun send_data_attempts :: "nat \<Rightarrow> byte list \<Rightarrow> r_shared \<Rightarrow> r_shared option" where
  "send_data_attempts attempts msg s =
     (let k = get_subblock (datar_block s) 0 3 in
      do {
        s1 \<leftarrow> (if 0 \<le> k then do {
                 let p = slot_addr DPARTITION_SIZE (nat k);
                 blk \<leftarrow> toggle_bit k (mwrite (mset_bytes (datar_block s) p 0 DPARTITION_SIZE) p (take sizeof_newmsg_data msg));
                 Some (s\<lparr>datar_block := blk, sem_lock_sigr := sem_post (sem_lock_sigr s)\<rparr>) }
               else Some s);
        if 0 < attempts - 1 \<and> k = -1 then send_data_attempts (attempts - 1) msg s1 else Some s1 })"

fun send_event_attempts :: "nat \<Rightarrow> receivers_message \<Rightarrow> r_shared \<Rightarrow> r_shared option" where
  "send_event_attempts attempts rcvm s =
     (let k = get_subblock (commr_block s) 0 2 in
      do {
        s1 \<leftarrow> (if 0 \<le> k then do {
                 let p = slot_addr CPARTITION_SIZE (nat k);
                 blk \<leftarrow> toggle_bit k (mwrite (mset_bytes (commr_block s) p 0 CPARTITION_SIZE) p (enc_receivers_message rcvm));
                 Some (s\<lparr>commr_block := blk, sem_lock_sigr := sem_post (sem_lock_sigr s)\<rparr>) }
               else Some s);
        if 0 < attempts - 1 \<and> k = -1 then send_event_attempts (attempts - 1) rcvm s1 else Some s1 })"

declare send_data_attempts.simps [simp del] send_event_attempts.simps [simp del]

definition send_to_processor :: "byte list \<Rightarrow> r_shared \<Rightarrow> r_shared option" where
  "send_to_processor msg s = do {
     l \<leftarrow> sem_wait (sem_lock_datar s);
     s1 \<leftarrow> send_data_attempts 3 msg (s\<lparr>sem_lock_datar := l\<rparr>);
     Some (s1\<lparr>sem_lock_datar := sem_post (sem_lock_datar s1)\<rparr>) }"

definition send_message_to_processor :: "receivers_message \<Rightarrow> r_shared \<Rightarrow> r_shared option" where
  "send_message_to_processor rcvm s = do {
     l \<leftarrow> sem_wait (sem_lock_commr s);
     s1 \<leftarrow> send_event_attempts 3 rcvm (s\<lparr>sem_lock_commr := l\<rparr>);
     Some (s1\<lparr>sem_lock_commr := sem_post (sem_lock_commr s1)\<rparr>) }"

text \<open>
  Returns the slot and the bytes of \<open>cpif\<close>.  \<open>memcpy(blkptr, &cpif, ...)\<close> copies into the slot the
  bytes of the parameter's own place on the stack, \<open>frame\<close>: the pointer and what lies above it.
\<close>

definition get_message_locked :: "byte list \<Rightarrow> r_shared \<Rightarrow> (int \<times> byte list \<times> r_shared) option" where
  "get_message_locked frame s =
     (let k = get_subblock (commr_block s) 1 1 in
      if 0 \<le> k then do {
        let p = slot_addr CPARTITION_SIZE (nat k);
        let cpif = mread (commr_block s) p sizeof_capacity_info;
        blk \<leftarrow> toggle_bit k (mwrite (commr_block s) p (take sizeof_capacity_info frame));
        Some (k, cpif, s\<lparr>commr_block := blk\<rparr>) }
      else Some (k, [], s))"

definition get_message_from_processor :: "byte list \<Rightarrow> r_shared \<Rightarrow> (int \<times> byte list \<times> r_shared) option" where
  "get_message_from_processor frame s = do {
     l \<leftarrow> sem_wait (sem_lock_commr s);
     (k, cpif, s1) \<leftarrow> get_message_locked frame (s\<lparr>sem_lock_commr := l\<rparr>);
     Some (k, cpif, s1\<lparr>sem_lock_commr := sem_post (sem_lock_commr s1)\<rparr>) }"


section \<open>Sockets and connections\<close>

text \<open>\<open>F_GETFL\<close>, \<open>F_SETFL\<close>, \<open>O_NONBLOCK\<close>, \<open>EPOLL_CTL_ADD\<close>, \<open>EPOLL_CTL_DEL\<close> and the event bits, on Linux.\<close>

definition "F_GETFL = (3 :: int)"
definition "F_SETFL = (4 :: int)"
definition "O_NONBLOCK = (2048 :: int)"
definition "CTL_ADD = (1 :: int)"
definition "CTL_DEL = (2 :: int)"
definition "EPOLLIN = (0x1 :: cint)"
definition "EPOLLERR = (0x8 :: cint)"
definition "EPOLLHUP = (0x10 :: cint)"
definition "EPOLLET = (0x80000000 :: cint)"

definition make_nonblocking :: "'c pq \<Rightarrow> 'k kernel \<Rightarrow> int \<Rightarrow> ('c, 'k) rcv \<Rightarrow> (int \<times> ('c, 'k) rcv) option" where
  "make_nonblocking pq kn active_fd st =
     (let (flags, st1) = syscall (k_fcntl kn active_fd F_GETFL 0) st in
      if flags = -1 then do {
        st2 \<leftarrow> log_line pq ''%s%s%s%d'' [VStr (bytes ''failed to get current flags : ''), strerror_arg kn st1,
                 VStr (bytes '' fd : ''), int_arg active_fd] st1;
        Some (-1, st2) }
      else
        let (r, st2) = syscall (k_fcntl kn active_fd F_SETFL (flags OR O_NONBLOCK)) st1 in
        if r = -1 then do {
          st3 \<leftarrow> log_line pq ''%s%s%s%d'' [VStr (bytes ''failed to set non blocking : ''), strerror_arg kn st2,
                   VStr (bytes '' fd : ''), int_arg active_fd] st2;
          Some (-1, st3) }
        else Some (0, st2))"

definition create_socket :: "'c pq \<Rightarrow> 'k kernel \<Rightarrow> ('c, 'k) rcv \<Rightarrow> (int \<times> ('c, 'k) rcv) option" where
  "create_socket pq kn st0 =
     (let (fd, st1) = syscall (k_socket kn) st0;
          st = st1\<lparr>s_info := (s_info st1)\<lparr>servsoc_fd := fd\<rparr>\<rparr> in
      if fd = -1 then do {
        st2 \<leftarrow> log_line pq ''%s'' [VStr (bytes ''receiver creating socket failed'')] st;
        Some (-1, st2) }
      else
        let optval = 1; (r, st2) = syscall (k_setsockopt kn fd optval) st in
        if r < 0 then do {
          st3 \<leftarrow> log_line pq ''%s%s%s%d%s%d'' [VStr (bytes ''setting socket option reuseaddr failed :''), strerror_arg kn st2,
                   VStr (bytes ''s_info.servsoc_fd : ''), int_arg fd, VStr (bytes ''optval : ''), VInt optval] st2;
          Some (-1, st3) }
        else
          let s_addr = htonl (ucast (ipaddress (s_info st2)));
              (b, st3) = syscall (k_bind kn fd (htons (ucast (port (s_info st2)))) s_addr) st2 in
          if b = -1 then do {
            st4 \<leftarrow> log_line pq ''%s%s%s%d%s%d'' [VStr (bytes ''binding address to socketfd failed : ''), strerror_arg kn st3,
                     VStr (bytes ''s_info.servsoc_fd : ''), int_arg fd, VStr (bytes ''servaddr : ''), VInt s_addr] st3;
            Some (-1, st4) }
          else Some (0, st3))"

definition add_to_list :: "'c pq \<Rightarrow> 'k kernel \<Rightarrow> int \<Rightarrow> ('c, 'k) rcv \<Rightarrow> (int \<times> ('c, 'k) rcv) option" where
  "add_to_list pq kn active_fd st =
     (let (r, st1) = syscall (k_epoll_ctl kn (epoll_fd (s_info st)) CTL_ADD active_fd (EPOLLIN OR EPOLLET)) st in
      if r = -1 then do {
        st2 \<leftarrow> log_line pq ''%s%s%s%d%s%d'' [VStr (bytes ''adding to epoll list failed : ''), strerror_arg kn st1,
                 VStr (bytes '' epollfd : ''), int_arg (epoll_fd (s_info st1)), VStr (bytes '' fd to be added : ''), int_arg active_fd] st1;
        Some (-1, st2) }
      else Some (0, st1))"

definition remove_from_list :: "'c pq \<Rightarrow> 'k kernel \<Rightarrow> int \<Rightarrow> ('c, 'k) rcv \<Rightarrow> (int \<times> ('c, 'k) rcv) option" where
  "remove_from_list pq kn active_fd st =
     (let (r, st1) = syscall (k_epoll_ctl kn (epoll_fd (s_info st)) CTL_DEL active_fd (-1)) st in
      if r = -1 then do {
        st2 \<leftarrow> log_line pq ''%s%s%s%d%s%d'' [VStr (bytes ''removing from epoll list failed : ''), strerror_arg kn st1,
                 VStr (bytes '' epollfd : ''), int_arg (epoll_fd (s_info st1)), VStr (bytes '' fd to be removed : ''), int_arg active_fd] st1;
        Some (-1, st2) }
      else Some (0, st1))"

text \<open>Accepts as long as the kernel has connections; a kernel that always has one keeps the loop going.\<close>

partial_function (option) accept_connection ::
  "'c pq \<Rightarrow> 'k kernel \<Rightarrow> ('c, 'k) rcv \<Rightarrow> (int \<times> ('c, 'k) rcv) option" where
  "accept_connection pq kn st =
     (let ((client_fd, client_addr), st1) = syscall (k_accept kn (servsoc_fd (s_info st))) st in
      if client_fd < 0 then
        if k_again kn (kern st1) then Some (0, st1)
        else do {
          st2 \<leftarrow> log_line pq ''%s%s%s%d'' [VStr (bytes ''error accepting connection : ''), strerror_arg kn st1,
                   VStr (bytes '' servsocfd : ''), int_arg (servsoc_fd (s_info st1))] st1;
          Some (-1, st2) }
      else do {
        (r, st2) \<leftarrow> make_nonblocking pq kn client_fd st1;
        if r = -1 then Some (-1, st2)
        else do {
          (r2, st3) \<leftarrow> add_to_list pq kn client_fd st2;
          if r2 = -1 then Some (-1, snd (syscall (k_close kn client_fd) st3))
          else do {
            let rcvm = \<lparr>rm_fd = word_of_int client_fd, rm_ipaddr = htonl client_addr, rm_status = 2\<rparr>;
            st4 \<leftarrow> on_shared (send_message_to_processor rcvm) st3;
            accept_connection pq kn st4 } } })"

definition end_connection :: "'c pq \<Rightarrow> 'k kernel \<Rightarrow> int \<Rightarrow> cint \<Rightarrow> ('c, 'k) rcv \<Rightarrow> (int \<times> ('c, 'k) rcv) option" where
  "end_connection pq kn fd address st = do {
     (r, st1) \<leftarrow> remove_from_list pq kn fd st;
     if r = -1 then Some (-1, st1)
     else do {
       let (address1, st2) = syscall (k_getsockname kn fd address) st1;
       key \<leftarrow> sprintf_buf 17 (dec (sint (htonl address1)));
       let st3 = snd (syscall (k_close kn fd) st2);
       let rcvm = \<lparr>rm_fd = word_of_int fd, rm_ipaddr = 0, rm_status = 1\<rparr>;
       st4 \<leftarrow> on_shared (send_message_to_processor rcvm) st3;
       Some (0, st4) } }"


section \<open>The loop of the receiver\<close>

text \<open>\<open>bs\<close> copied to offset \<open>off\<close> of an array; \<open>memset(arr, 0, n)\<close>.  Writing past the array is undefined.\<close>

definition put_bytes :: "byte list \<Rightarrow> nat \<Rightarrow> byte list \<Rightarrow> byte list option" where
  "put_bytes arr off bs =
     (if off + length bs \<le> length arr then Some (take off arr @ bs @ drop (off + length bs) arr) else None)"

text \<open>The clearing of \<open>nmsg\<close> before each message, with \<open>nmsg.data1 = fd\<close>.\<close>

definition clear_nmsg :: "int \<Rightarrow> int \<Rightarrow> byte list \<Rightarrow> byte list option" where
  "clear_nmsg fd message_size raw = do {
     raw1 \<leftarrow> put_bytes raw 0 (replicate (nat message_size) 0);
     put_bytes raw1 0 (le32 (word_of_int fd)) }"

text \<open>
  The inner \<open>while (1)\<close>: \<open>read\<close> returns how many bytes it took, or 0 or -1, and the bytes; the loop
  ends at the first call that takes none.  It does not look at what is left in the buffer then.
\<close>

partial_function (option) read_loop ::
  "'k kernel \<Rightarrow> int \<Rightarrow> int \<Rightarrow> int \<Rightarrow> byte list \<Rightarrow> r_shared \<Rightarrow> 'k \<Rightarrow> (byte list \<times> r_shared \<times> 'k) option" where
  "read_loop kn fd message_size sofar raw s k =
     (let ((bytes_read, bs), k1) = k_read kn (sint (get32 raw 0)) (message_size - sofar) k in
      if bytes_read \<le> 0 then Some (raw, s, k1)
      else do {
        raw1 \<leftarrow> put_bytes raw (8 + nat sofar) bs;
        let sofar1 = sofar + bytes_read;
        if sofar1 = message_size then do {
          raw2 \<leftarrow> put_bytes raw1 4 (le32 (word_of_int sofar1));
          s1 \<leftarrow> send_to_processor raw2 s;
          raw3 \<leftarrow> clear_nmsg fd message_size raw2;
          read_loop kn fd message_size 0 raw3 s1 k1 }
        else read_loop kn fd message_size sofar1 raw1 s k1 })"

definition ip_key :: "cint \<Rightarrow> byte list option" where
  "ip_key s_addr = do {
     txt \<leftarrow> sprintf_buf 17 (dec (sint (htonl s_addr)));
     Some (txt @ replicate (17 - length txt) 0) }"

text \<open>Bytes on a connection: the size agreed with the address decides.\<close>

definition receive_data :: "'c pq \<Rightarrow> 'k kernel \<Rightarrow> int \<Rightarrow> ('c, 'k) rcv \<Rightarrow> (int \<times> ('c, 'k) rcv) option" where
  "receive_data pq kn fd st = do {
     let (a, st0) = syscall (k_getsockname kn fd (addr st)) st;
     let st1 = st0\<lparr>addr := a\<rparr>;
     key \<leftarrow> ip_key a;
     message_size \<leftarrow> hget (htable st1) key;
     if message_size \<ge> 0 then do {
       raw \<leftarrow> clear_nmsg fd message_size (nmsg st1);
       (raw1, s1, k1) \<leftarrow> read_loop kn fd message_size 0 raw (shm st1) (kern st1);
       Some (0, st1\<lparr>nmsg := raw1, shm := s1, kern := k1\<rparr>) }
     else do {
       st2 \<leftarrow> log_line pq ''%s%d%s%d%s%s'' [VStr (bytes ''invalid size : ''), int_arg message_size,
                VStr (bytes '' for fd : ''), int_arg fd, VStr (bytes '' ip : ''), VStr key] st1;
       end_connection pq kn fd (addr st2) st2 } }"

text \<open>
  One event of \<open>epoll_wait\<close>, with the value \<open>run_receiver\<close> returns when it is not 0.  What
  \<open>accept_connection\<close> returns is not looked at.
\<close>

definition handle_event :: "'c pq \<Rightarrow> 'k kernel \<Rightarrow> int \<times> cint \<Rightarrow> ('c, 'k) rcv \<Rightarrow> (int \<times> ('c, 'k) rcv) option" where
  "handle_event pq kn ev st =
     (let (fd, evs) = ev in
      if evs AND EPOLLERR \<noteq> 0 \<or> evs AND EPOLLHUP \<noteq> 0 \<or> evs AND EPOLLIN = 0 then end_connection pq kn fd (addr st) st
      else if fd = servsoc_fd (s_info st) \<and> evs AND EPOLLIN \<noteq> 0 then do {
        (_, st1) \<leftarrow> accept_connection pq kn st;
        Some (0, st1) }
      else if evs AND EPOLLIN \<noteq> 0 then receive_data pq kn fd st
      else Some (0, st))"

fun handle_events :: "'c pq \<Rightarrow> 'k kernel \<Rightarrow> (int \<times> cint) list \<Rightarrow> ('c, 'k) rcv \<Rightarrow> (int \<times> ('c, 'k) rcv) option" where
  "handle_events pq kn [] st = Some (0, st)"
| "handle_events pq kn (ev # evs) st = do {
     (r, st1) \<leftarrow> handle_event pq kn ev st;
     if r = -1 then Some (-1, st1) else handle_events pq kn evs st1 }"

definition take_capacity :: "'c pq \<Rightarrow> byte list \<Rightarrow> ('c, 'k) rcv \<Rightarrow> ('c, 'k) rcv option" where
  "take_capacity pq frame st = do {
     (k, cpif, s1) \<leftarrow> get_message_from_processor frame (shm st);
     let st1 = st\<lparr>shm := s1\<rparr>;
     if k \<noteq> -1 then do {
       (status, h) \<leftarrow> hput (htable st1) (drop 4 cpif) (get32 cpif 0);
       let st2 = st1\<lparr>htable := h\<rparr>;
       if status \<noteq> 0 then do {
         ip \<leftarrow> c_string (drop 4 cpif);
         log_line pq ''%s%d%s%s%s%d'' [VStr (bytes ''failed to insert key, value in table status : ''), int_arg status,
           VStr (bytes '' ip : ''), VStr ip, VStr (bytes ''capacity : ''), VInt (get32 cpif 0)] st2 }
       else Some st2 }
     else Some st1 }"

text \<open>One turn; -1 is the end of \<open>run_receiver\<close>.  The array holds the events \<open>epoll_wait\<close> counts.\<close>

definition run_receiver_once :: "'c pq \<Rightarrow> 'k kernel \<Rightarrow> byte list \<Rightarrow> ('c, 'k) rcv \<Rightarrow> (int \<times> ('c, 'k) rcv) option" where
  "run_receiver_once pq kn frame st = do {
     let ((act_events_cnt, events), st1) = syscall (k_epoll_wait kn (epoll_fd (s_info st)) (maxevents (s_info st)) 1000) st;
     st2 \<leftarrow> take_capacity pq frame st1;
     if act_events_cnt = -1 then do {
       st3 \<leftarrow> log_line pq ''%s%s%s%d'' [VStr (bytes ''epoll wait failed : ''), strerror_arg kn st2,
                VStr (bytes '' epollfd : ''), int_arg (epoll_fd (s_info st2))] st2;
       Some (-1, st3) }
     else handle_events pq kn (take (nat act_events_cnt) events) st2 }"

fun run_receiver :: "nat \<Rightarrow> 'c pq \<Rightarrow> 'k kernel \<Rightarrow> byte list \<Rightarrow> ('c, 'k) rcv \<Rightarrow> (int \<times> ('c, 'k) rcv) option" where
  "run_receiver 0 pq kn frame st = Some (0, st)"
| "run_receiver (Suc n) pq kn frame st = do {
     (r, st1) \<leftarrow> run_receiver_once pq kn frame st;
     if r = -1 then Some (-1, st1) else run_receiver n pq kn frame st1 }"

text \<open>
  The part of \<open>main\<close> between attaching the blocks and the loop, with what the \<open>calloc\<close> calls of
  \<open>hcreate_table\<close> return.  The code compares the result of \<open>epoll_create1\<close> with -2.
\<close>

definition start_receiver :: "'c pq \<Rightarrow> 'k kernel \<Rightarrow> bool \<Rightarrow> nat option list \<Rightarrow> ('c, 'k) rcv \<Rightarrow> (int \<times> ('c, 'k) rcv) option" where
  "start_receiver pq kn table_ok callocs st = do {
     (r1, st1) \<leftarrow> create_socket pq kn (st\<lparr>s_info := (s_info st)\<lparr>maxevents := 1000\<rparr>\<rparr>);
     if r1 = -1 then Some (-1, st1) else do {
     (r2, st2) \<leftarrow> make_nonblocking pq kn (servsoc_fd (s_info st1)) st1;
     if r2 = -1 then Some (-1, st2) else do {
     let (r3, st3) = syscall (k_listen kn (servsoc_fd (s_info st2))) st2;
     if r3 < 0 then do {
       st4 \<leftarrow> log_line pq ''%s'' [VStr (bytes ''receiver failed to listen on port'')] st3;
       Some (-1, st4) } else do {
     let (e, st4) = syscall (k_epoll_create1 kn) st3;
     let st5 = st4\<lparr>s_info := (s_info st4)\<lparr>epoll_fd := e\<rparr>\<rparr>;
     if e = -2 then do {
       st6 \<leftarrow> log_line pq ''%s'' [VStr (bytes ''receiver failed to create epoll instance'')] st5;
       Some (-1, st6) } else do {
     (r4, st6) \<leftarrow> add_to_list pq kn (servsoc_fd (s_info st5)) st5;
     if r4 = -1 then Some (-1, st6) else do {
     (r5, h) \<leftarrow> hcreate_table table_ok callocs (htable st6) 1000;
     let st7 = st6\<lparr>htable := h\<rparr>;
     if r5 \<noteq> 0 then do {
       st8 \<leftarrow> log_line pq ''%s'' [VStr (bytes ''receiver failed to create fd-capacity table'')] st7;
       Some (-1, st8) }
     else Some (0, st7) } } } } } }"


section \<open>What each function leaves in the blocks\<close>

text \<open>Both writers put one message into a free slot and post \<open>sigr\<close>, or leave everything as it is.\<close>

definition post_data :: "byte list \<Rightarrow> r_shared \<Rightarrow> r_shared" where
  "post_data msg s = (case ch_put DPARTITION_SIZE 3 msg (datar_block s) of
     None \<Rightarrow> s | Some b \<Rightarrow> s\<lparr>datar_block := b, sem_lock_sigr := Suc (sem_lock_sigr s)\<rparr>)"

definition post_event :: "receivers_message \<Rightarrow> r_shared \<Rightarrow> r_shared" where
  "post_event m s = (case ch_put CPARTITION_SIZE 2 (enc_receivers_message m) (commr_block s) of
     None \<Rightarrow> s | Some b \<Rightarrow> s\<lparr>commr_block := b, sem_lock_sigr := Suc (sem_lock_sigr s)\<rparr>)"

lemma post_locks [simp]:
  "sem_lock_datar (post_data msg s) = sem_lock_datar s" "sem_lock_commr (post_data msg s) = sem_lock_commr s"
  "commr_block (post_data msg s) = commr_block s"
  "sem_lock_datar (post_event m s) = sem_lock_datar s" "sem_lock_commr (post_event m s) = sem_lock_commr s"
  "datar_block (post_event m s) = datar_block s"
  by (simp_all add: post_data_def post_event_def split: option.splits)

lemma send_data_attempts_post:
  "length msg = sizeof_newmsg_data \<Longrightarrow> send_data_attempts n msg s = Some (post_data msg s)"
proof (induction n arbitrary: s)
  case 0
  then show ?case
    by (cases rule: free_slot_cases [where block = "datar_block s" and type = 3])
      (simp_all add: send_data_attempts.simps [of 0] post_data_def ch_put_def Let_def toggle_bit_flip sem_post_def)
next
  case (Suc n)
  then show ?case
    by (cases rule: free_slot_cases [where block = "datar_block s" and type = 3])
      (simp_all add: send_data_attempts.simps [of "Suc n"] post_data_def ch_put_def Let_def toggle_bit_flip sem_post_def)
qed

lemma send_event_attempts_post: "send_event_attempts n m s = Some (post_event m s)"
proof (induction n arbitrary: s)
  case 0
  show ?case
    by (cases rule: free_slot_cases [where block = "commr_block s" and type = 2])
      (simp_all add: send_event_attempts.simps [of 0] post_event_def ch_put_def Let_def toggle_bit_flip sem_post_def)
next
  case (Suc n)
  then show ?case
    by (cases rule: free_slot_cases [where block = "commr_block s" and type = 2])
      (simp_all add: send_event_attempts.simps [of "Suc n"] post_event_def ch_put_def Let_def toggle_bit_flip sem_post_def)
qed

lemma post_data_frame: "post_data msg (s\<lparr>sem_lock_datar := l\<rparr>) = (post_data msg s)\<lparr>sem_lock_datar := l\<rparr>"
  by (simp add: post_data_def split: option.splits)

lemma post_event_frame: "post_event m (s\<lparr>sem_lock_commr := l\<rparr>) = (post_event m s)\<lparr>sem_lock_commr := l\<rparr>"
  by (simp add: post_event_def split: option.splits)

lemma send_to_processor_post:
  assumes "length msg = sizeof_newmsg_data" "0 < sem_lock_datar s"
  shows "send_to_processor msg s = Some (post_data msg s)"
proof -
  have "(post_data msg s)\<lparr>sem_lock_datar := sem_lock_datar s\<rparr> = post_data msg s"
    by (simp add: post_data_def split: option.splits)
  then show ?thesis using assms
    by (simp add: send_to_processor_def sem_wait_def sem_post_def send_data_attempts_post post_data_frame)
qed

lemma send_message_to_processor_post:
  assumes "0 < sem_lock_commr s"
  shows "send_message_to_processor m s = Some (post_event m s)"
proof -
  have "(post_event m s)\<lparr>sem_lock_commr := sem_lock_commr s\<rparr> = post_event m s"
    by (simp add: post_event_def split: option.splits)
  then show ?thesis using assms
    by (simp add: send_message_to_processor_def sem_wait_def sem_post_def send_event_attempts_post post_event_frame)
qed

text \<open>What a sequence of messages leaves: the first ones, up to the free slots of the block.\<close>

definition room :: "r_shared \<Rightarrow> nat" where
  "room s = 80 - card (used_slots 3 (datar_block s))"

lemma post_data_room:
  assumes "length msg \<le> DPARTITION_SIZE"
  shows "room s = 0 \<and> post_data msg s = s \<or>
    room s = Suc (room (post_data msg s)) \<and> sem_lock_sigr (post_data msg s) = Suc (sem_lock_sigr s) \<and>
    contents DPARTITION_SIZE 3 (datar_block (post_data msg s)) =
      add_mset (padded DPARTITION_SIZE msg) (contents DPARTITION_SIZE 3 (datar_block s))"
  using assms
proof (cases rule: ch_put_cases [where type = 3 and block = "datar_block s"])
  case full
  then show ?thesis by (simp add: post_data_def room_def slots_def del: upt_rec_numeral)
next
  case (put k b')
  let ?b = "flip k b'"
  have c: "contents DPARTITION_SIZE 3 ?b = add_mset (padded DPARTITION_SIZE msg) (contents DPARTITION_SIZE 3 (datar_block s))"
    using put by (simp add: contents_fill)
  then have "card (used_slots 3 ?b) = Suc (card (used_slots 3 (datar_block s)))" by (metis size_contents size_add_mset)
  moreover have "card (used_slots 3 ?b) \<le> 80" using card_used_slots_le [of 3 ?b] by (simp add: slots_def del: upt_rec_numeral)
  ultimately have "room s = Suc (room (post_data msg s))" using put(1) by (simp add: post_data_def room_def)
  with put(1) c show ?thesis by (simp add: post_data_def)
qed

lemma post_data_list:
  "\<forall>m \<in> set ms. length m \<le> DPARTITION_SIZE \<Longrightarrow>
   contents DPARTITION_SIZE 3 (datar_block (fold post_data ms s)) =
     contents DPARTITION_SIZE 3 (datar_block s) + mset (map (padded DPARTITION_SIZE) (take (room s) ms)) \<and>
   sem_lock_sigr (fold post_data ms s) = sem_lock_sigr s + min (room s) (length ms) \<and>
   sem_lock_datar (fold post_data ms s) = sem_lock_datar s \<and> sem_lock_commr (fold post_data ms s) = sem_lock_commr s \<and>
   commr_block (fold post_data ms s) = commr_block s"
proof (induction ms arbitrary: s)
  case (Cons m ms)
  then have l: "length m \<le> DPARTITION_SIZE" by simp
  have ih: "contents DPARTITION_SIZE 3 (datar_block (fold post_data ms s')) =
     contents DPARTITION_SIZE 3 (datar_block s') + mset (map (padded DPARTITION_SIZE) (take (room s') ms)) \<and>
   sem_lock_sigr (fold post_data ms s') = sem_lock_sigr s' + min (room s') (length ms) \<and>
   sem_lock_datar (fold post_data ms s') = sem_lock_datar s' \<and> sem_lock_commr (fold post_data ms s') = sem_lock_commr s' \<and>
   commr_block (fold post_data ms s') = commr_block s'" for s'
    using Cons by simp
  from post_data_room [OF l, of s] show ?case
  proof (elim disjE conjE)
    assume "room s = 0" "post_data m s = s"
    then show ?thesis using ih [of s] by simp
  next
    assume "room s = Suc (room (post_data m s))" "sem_lock_sigr (post_data m s) = Suc (sem_lock_sigr s)"
      "contents DPARTITION_SIZE 3 (datar_block (post_data m s)) =
        add_mset (padded DPARTITION_SIZE m) (contents DPARTITION_SIZE 3 (datar_block s))"
    then show ?thesis using ih [of "post_data m s"] by simp
  qed
qed simp


section \<open>Cutting the stream\<close>

text \<open>The consecutive pieces of \<open>m\<close> bytes of a stream; what is left at the end is in no piece.\<close>

function frames :: "nat \<Rightarrow> 'a list \<Rightarrow> 'a list list" where
  "frames m xs = (if 0 < m \<and> m \<le> length xs then take m xs # frames m (drop m xs) else [])"
  by pat_completeness auto
termination by (relation "measure (\<lambda>(m, xs). length xs)") auto

declare frames.simps [simp del]

lemma frames_short: "length xs < m \<Longrightarrow> frames m xs = []"
  by (simp add: frames.simps)

lemma frames_cons: "length f = m \<Longrightarrow> 0 < m \<Longrightarrow> frames m (f @ xs) = f # frames m xs"
  by (simp add: frames.simps [of m "f @ xs"])

lemma length_frames: "0 < m \<Longrightarrow> length (frames m xs) = length xs div m"
proof (induction m xs rule: frames.induct)
  case (1 m xs)
  then show ?case by (subst frames.simps) (auto simp: le_div_geq not_le)
qed

lemma frame_length: "f \<in> set (frames m xs) \<Longrightarrow> length f = m"
proof (induction m xs rule: frames.induct)
  case (1 m xs)
  then show ?case by (subst (asm) frames.simps) (auto split: if_splits)
qed

text \<open>
  A kernel whose connections are byte streams: \<open>pending\<close> is what has arrived and was not read.
  \<open>read\<close> takes a non-empty prefix of it, of any length up to what is asked, and says none only when
  there is none.  Asking for the local address takes nothing.
\<close>

locale stream_source =
  fixes kn :: "'k kernel" and pending :: "int \<Rightarrow> 'k \<Rightarrow> byte list"
  assumes read_some: "k_read kn fd n k = ((r, bs), k') \<Longrightarrow> 0 < n \<Longrightarrow> pending fd k \<noteq> [] \<Longrightarrow>
      0 < r \<and> r \<le> n \<and> int (length bs) = r \<and> pending fd k = bs @ pending fd k'"
    and read_none: "k_read kn fd n k = ((r, bs), k') \<Longrightarrow> 0 < n \<Longrightarrow> pending fd k = [] \<Longrightarrow> r \<le> 0 \<and> pending fd k' = []"
    and name_keeps: "k_getsockname kn fd a k = (a', k') \<Longrightarrow> pending fd k' = pending fd k"

text \<open>The struct as it is handed over.\<close>

definition message_bytes :: "int \<Rightarrow> nat \<Rightarrow> byte list \<Rightarrow> byte list \<Rightarrow> byte list" where
  "message_bytes fd m tail f = le32 (word_of_int fd) @ le32 (word_of_nat m) @ f @ tail"

lemma length_message_bytes [simp]: "length (message_bytes fd m tail f) = 8 + length f + length tail"
  by (simp add: message_bytes_def)

text \<open>\<open>nmsg\<close> while a message is read: \<open>p\<close> are the bytes of it received so far.\<close>

definition holds_part :: "int \<Rightarrow> nat \<Rightarrow> byte list \<Rightarrow> byte list \<Rightarrow> byte list \<Rightarrow> bool" where
  "holds_part fd m tail p raw \<longleftrightarrow> length raw = sizeof_newmsg_data \<and> take 4 raw = le32 (word_of_int fd) \<and>
     take (length p) (drop 8 raw) = p \<and> drop (m + 8) raw = tail"

lemma clear_nmsg_part:
  assumes "length raw = sizeof_newmsg_data" "m \<le> MESSAGE_SIZE" "drop (m + 8) raw = tail"
  shows "\<exists>raw'. clear_nmsg fd (int m) raw = Some raw' \<and> holds_part fd m tail [] raw'"
proof -
  let ?r1 = "replicate m 0 @ drop m raw"
  let ?r2 = "le32 (word_of_int fd) @ drop 4 ?r1"
  have l: "length ?r1 = sizeof_newmsg_data" using assms by (simp add: sizeof_newmsg_data_def)
  then have "clear_nmsg fd (int m) raw = Some ?r2"
    using assms by (simp add: clear_nmsg_def put_bytes_def sizeof_newmsg_data_def)
  moreover have "drop (m + 8) ?r2 = drop (m + 4) (drop 4 ?r1)" by simp
  moreover have "drop (m + 4) (drop 4 ?r1) = drop 8 (drop m ?r1)" by (simp only: drop_drop) (simp add: add.commute)
  moreover have "drop 8 (drop m ?r1) = drop 8 (drop m raw)" by (simp del: drop_drop)
  moreover have "drop 8 (drop m raw) = tail" using assms(3) by (simp add: add.commute)
  moreover have "length ?r2 = sizeof_newmsg_data" using l by (simp add: sizeof_newmsg_data_def)
  ultimately show ?thesis by (auto simp: holds_part_def)
qed

lemma put_part:
  assumes "holds_part fd m tail p raw" "length p + length bs \<le> m" "m \<le> MESSAGE_SIZE"
  shows "\<exists>raw'. put_bytes raw (8 + length p) bs = Some raw' \<and> holds_part fd m tail (p @ bs) raw'"
proof -
  let ?r = "take (8 + length p) raw @ bs @ drop (8 + length p + length bs) raw"
  have l: "length raw = sizeof_newmsg_data" "8 + length p + length bs \<le> length raw"
    using assms by (auto simp: holds_part_def sizeof_newmsg_data_def)
  have p: "take (8 + length p) raw = take 8 raw @ p"
    using assms(1) by (simp add: holds_part_def take_add)
  have l8: "length (take 8 raw) = 8" using l by simp
  have "drop (m + 8) ?r = drop (m + 8) raw" using assms(2) l by simp
  moreover have "take 4 ?r = take 4 raw" using l by simp
  moreover have "take (length (p @ bs)) (drop 8 ?r) = p @ bs" unfolding p using l8 by simp
  ultimately have "holds_part fd m tail (p @ bs) ?r" using assms(1) l by (simp add: holds_part_def)
  moreover have "put_bytes raw (8 + length p) bs = Some ?r" using l by (simp add: put_bytes_def)
  ultimately show ?thesis by blast
qed

lemma full_part:
  assumes "holds_part fd m tail f raw" "length f = m" "m \<le> MESSAGE_SIZE"
  shows "put_bytes raw 4 (le32 (word_of_nat m)) = Some (message_bytes fd m tail f)"
    and "length (message_bytes fd m tail f) = sizeof_newmsg_data" "drop (m + 8) (message_bytes fd m tail f) = tail"
proof -
  have "take m (drop 8 raw) = f" "drop m (drop 8 raw) = tail" using assms by (simp_all add: holds_part_def)
  then have "drop 8 raw = f @ tail" by (metis append_take_drop_id)
  then show "put_bytes raw 4 (le32 (word_of_nat m)) = Some (message_bytes fd m tail f)"
    using assms by (simp add: put_bytes_def holds_part_def sizeof_newmsg_data_def message_bytes_def)
  have "length tail = sizeof_newmsg_data - (8 + m)" using assms by (auto simp: holds_part_def)
  then show "length (message_bytes fd m tail f) = sizeof_newmsg_data"
    using assms by (simp add: sizeof_newmsg_data_def)
  show "drop (m + 8) (message_bytes fd m tail f) = tail" using assms by (simp add: message_bytes_def)
qed

lemma holds_part_fd:
  assumes "holds_part fd m tail p raw" "- (2 ^ 31) \<le> fd" "fd < 2 ^ 31"
  shows "sint (get32 raw 0) = fd"
proof -
  have "get32 raw 0 = get32 (take 4 raw) 0"
    by (simp add: get32_take)
  also have "\<dots> = word_of_int fd" using assms(1) by (simp add: holds_part_def get32_le32_0)
  finally show ?thesis using assms(2,3) by (simp add: sint_word_of_int)
qed


context stream_source
begin

lemma read_loop_frames:
  assumes "0 < m" "m \<le> MESSAGE_SIZE" "- (2 ^ 31) \<le> fd" "fd < 2 ^ 31"
  shows "holds_part fd m tail p raw \<Longrightarrow> length p < m \<Longrightarrow> 0 < sem_lock_datar s \<Longrightarrow>
    \<exists>raw' k'. read_loop kn fd (int m) (int (length p)) raw s k =
      Some (raw', fold post_data (map (message_bytes fd m tail) (frames m (p @ pending fd k))) s, k') \<and>
      pending fd k' = [] \<and> length raw' = sizeof_newmsg_data"
proof (induction "length (pending fd k)" arbitrary: p raw s k rule: less_induct)
  case less
  note part = less.prems(1)
  obtain r bs k1 where rd: "k_read kn fd (int m - int (length p)) k = ((r, bs), k1)" by (metis prod.exhaust)
  have n: "0 < int m - int (length p)" using less.prems(2) by simp
  note unfold = read_loop.simps [of kn fd "int m" "int (length p)" raw s k] holds_part_fd [OF part assms(3,4)] rd
  show ?case
  proof (cases "pending fd k = []")
    case True
    from read_none [OF rd n True] have "r \<le> 0" "pending fd k1 = []" by auto
    with True less.prems(2) part show ?thesis by (simp add: unfold frames_short holds_part_def)
  next
    case False
    from read_some [OF rd n False] have r: "0 < r" "r \<le> int m - int (length p)" "int (length bs) = r"
      and pd: "pending fd k = bs @ pending fd k1" by auto
    have shorter: "length (pending fd k1) < length (pending fd k)" using pd r by (cases bs) auto
    have len: "length p + length bs \<le> m" using r by linarith
    obtain raw1 where raw1: "put_bytes raw (8 + length p) bs = Some raw1" "holds_part fd m tail (p @ bs) raw1"
      using put_part [OF part len assms(2)] by blast
    show ?thesis
    proof (cases "length p + length bs = m")
      case True
      then have lf: "length (p @ bs) = m" by simp
      note f = full_part [OF raw1(2) lf assms(2)]
      obtain raw3 where raw3: "clear_nmsg fd (int m) (message_bytes fd m tail (p @ bs)) = Some raw3" "holds_part fd m tail [] raw3"
        using clear_nmsg_part [OF f(2) assms(2) f(3)] by blast
      have st: "send_to_processor (message_bytes fd m tail (p @ bs)) s = Some (post_data (message_bytes fd m tail (p @ bs)) s)"
        using f(2) less.prems(3) by (rule send_to_processor_post)
      have w: "(word_of_int (int m) :: cint) = word_of_nat m" by simp
      have eq: "int (length p) + r = int m" using True r(3) by linarith
      have "frames m (p @ pending fd k) = (p @ bs) # frames m (pending fd k1)"
        using frames_cons [OF lf assms(1), of "pending fd k1"] pd by simp
      moreover from less.hyps [OF shorter raw3(2), of "post_data (message_bytes fd m tail (p @ bs)) s"] assms(1) less.prems(3)
      obtain raw' k' where "read_loop kn fd (int m) 0 raw3 (post_data (message_bytes fd m tail (p @ bs)) s) k1 =
          Some (raw', fold post_data (map (message_bytes fd m tail) (frames m (pending fd k1)))
                        (post_data (message_bytes fd m tail (p @ bs)) s), k')"
          "pending fd k' = []" "length raw' = sizeof_newmsg_data" by auto
      ultimately show ?thesis using r(1) raw1(1) raw3(1) f(1) st by (simp add: unfold eq)
    next
      case ne: False
      then have eq: "int (length p) + r = int (length (p @ bs))" "int (length p) + r \<noteq> int m" using r(3) by auto
      have lt: "length (p @ bs) < m" using len ne by simp
      from less.hyps [OF shorter raw1(2) lt less.prems(3)]
      obtain raw' k' where "read_loop kn fd (int m) (int (length (p @ bs))) raw1 s k1 =
          Some (raw', fold post_data (map (message_bytes fd m tail) (frames m ((p @ bs) @ pending fd k1))) s, k')"
          "pending fd k' = []" "length raw' = sizeof_newmsg_data" by blast
      with r(1) raw1(1) eq pd show ?thesis by (simp add: unfold)
    qed
  qed
qed

lemma receive_data_frames:
  assumes "0 < m" "m \<le> MESSAGE_SIZE" "- (2 ^ 31) \<le> fd" "fd < 2 ^ 31"
    and "k_getsockname kn fd (addr st) (kern st) = (a, k0)" "ip_key a = Some key" "hget (htable st) key = Some (int m)"
    and "length (nmsg st) = sizeof_newmsg_data" "0 < sem_lock_datar (shm st)"
  shows "\<exists>st'. receive_data pq kn fd st = Some (0, st') \<and> pending fd (kern st') = [] \<and> htable st' = htable st \<and>
    shm st' = fold post_data (map (message_bytes fd m (drop (m + 8) (nmsg st))) (frames m (pending fd (kern st)))) (shm st)"
proof -
  obtain raw where raw: "clear_nmsg fd (int m) (nmsg st) = Some raw" "holds_part fd m (drop (m + 8) (nmsg st)) [] raw"
    using clear_nmsg_part [OF assms(8,2) refl] by blast
  from read_loop_frames [OF assms(1-4) raw(2) _ assms(9), of k0] assms(1)
  obtain raw' k' where "read_loop kn fd (int m) 0 raw (shm st) k0 =
      Some (raw', fold post_data (map (message_bytes fd m (drop (m + 8) (nmsg st))) (frames m (pending fd k0))) (shm st), k')"
      "pending fd k' = []" by auto
  with raw(1) assms(5-7) name_keeps [OF assms(5)] show ?thesis
    by (simp add: receive_data_def syscall_def)
qed

end

lemma decode_message_bytes:
  assumes "length f = m" "m + 8 \<le> sizeof_newmsg_data" "length tail = sizeof_newmsg_data - (m + 8)"
  shows "nm_data1 (dec_newmsg_data (message_bytes fd m tail f)) = word_of_int fd"
    "nm_data2 (dec_newmsg_data (message_bytes fd m tail f)) = word_of_nat m"
    "take m (nm_data (dec_newmsg_data (message_bytes fd m tail f))) = f"
    "padded DPARTITION_SIZE (message_bytes fd m tail f) = message_bytes fd m tail f @ replicate 38 0"
proof -
  show "take m (nm_data (dec_newmsg_data (message_bytes fd m tail f))) = f"
    using assms by (simp add: dec_newmsg_data_def message_bytes_def sizeof_newmsg_data_def)
  show "padded DPARTITION_SIZE (message_bytes fd m tail f) = message_bytes fd m tail f @ replicate 38 0"
    using assms by (simp add: padded_def DPARTITION_SIZE_def sizeof_newmsg_data_def)
qed (simp_all add: dec_newmsg_data_def message_bytes_def codec_simps)


section \<open>Accepting connections\<close>

text \<open>
  A kernel with a queue of connections, on which the calls that prepare a new descriptor succeed.
\<close>

locale listener =
  fixes kn :: "'k kernel" and queue :: "'k \<Rightarrow> (int \<times> cint) list"
  assumes accept_some: "k_accept kn lfd k = ((fd, a), k') \<Longrightarrow> queue k \<noteq> [] \<Longrightarrow> queue k = (fd, a) # queue k' \<and> 0 \<le> fd"
    and accept_none: "k_accept kn lfd k = ((fd, a), k') \<Longrightarrow> queue k = [] \<Longrightarrow> fd < 0 \<and> k_again kn k' \<and> queue k' = []"
    and fcntl_keeps: "k_fcntl kn fd c x k = (r, k') \<Longrightarrow> queue k' = queue k \<and> r \<noteq> -1"
    and epoll_keeps: "k_epoll_ctl kn e op fd ev k = (r, k') \<Longrightarrow> queue k' = queue k \<and> r \<noteq> -1"
begin

lemma accept_connection_queue:
  "0 < sem_lock_commr (shm st) \<Longrightarrow>
   \<exists>k'. accept_connection pq kn st = Some (0, st\<lparr>kern := k', shm := fold post_event
     (map (\<lambda>(fd, a). \<lparr>rm_fd = word_of_int fd, rm_ipaddr = htonl a, rm_status = 2\<rparr>) (queue (kern st))) (shm st)\<rparr>) \<and> queue k' = []"
proof (induction "length (queue (kern st))" arbitrary: st)
  case 0
  obtain fd a k' where "k_accept kn (servsoc_fd (s_info st)) (kern st) = ((fd, a), k')" by (metis prod.exhaust)
  with accept_none [OF this] 0 show ?case
    by (intro exI [of _ k'], subst accept_connection.simps) (simp add: syscall_def)
next
  case (Suc n)
  obtain fd a k1 where acc: "k_accept kn (servsoc_fd (s_info st)) (kern st) = ((fd, a), k1)" by (metis prod.exhaust)
  from Suc.hyps(2) have "queue (kern st) \<noteq> []" by auto
  from accept_some [OF acc this] have q: "queue (kern st) = (fd, a) # queue k1" "0 \<le> fd" by auto
  obtain r1 k2 where f1: "k_fcntl kn fd F_GETFL 0 k1 = (r1, k2)" by (metis prod.exhaust)
  obtain r2 k3 where f2: "k_fcntl kn fd F_SETFL (r1 OR O_NONBLOCK) k2 = (r2, k3)" by (metis prod.exhaust)
  obtain r3 k4 where f3: "k_epoll_ctl kn (epoll_fd (s_info st)) CTL_ADD fd (EPOLLIN OR EPOLLET) k3 = (r3, k4)" by (metis prod.exhaust)
  note k = fcntl_keeps [OF f1] fcntl_keeps [OF f2] epoll_keeps [OF f3]
  let ?m = "\<lparr>rm_fd = word_of_int fd, rm_ipaddr = htonl a, rm_status = 2\<rparr>"
  let ?st = "st\<lparr>kern := k4, shm := post_event ?m (shm st)\<rparr>"
  have "accept_connection pq kn st = accept_connection pq kn ?st"
    using acc q(2) f1 f2 f3 k Suc.prems send_message_to_processor_post [OF Suc.prems, of ?m]
    by (subst accept_connection.simps)
      (simp add: syscall_def make_nonblocking_def add_to_list_def on_shared_def not_less [symmetric])
  moreover have "n = length (queue (kern ?st))" using Suc.hyps(2) q(1) k by simp
  from Suc.hyps(1) [OF this] Suc.prems obtain k' where
    "accept_connection pq kn ?st = Some (0, ?st\<lparr>kern := k', shm := fold post_event
       (map (\<lambda>(fd, a). \<lparr>rm_fd = word_of_int fd, rm_ipaddr = htonl a, rm_status = 2\<rparr>) (queue (kern ?st))) (shm ?st)\<rparr>)" "queue k' = []"
    by auto
  ultimately show ?case using q(1) k by (intro exI [of _ k']) simp
qed

end

text \<open>What a sequence of events leaves in the half of the communication block that is for the processor.\<close>

definition event_room :: "r_shared \<Rightarrow> nat" where
  "event_room s = 40 - card (used_slots 2 (commr_block s))"

lemma length_event [simp]: "length (enc_receivers_message m) = 12"
  by (simp add: enc_receivers_message_def)

lemma post_event_room:
  "event_room s = 0 \<and> post_event m s = s \<or>
   event_room s = Suc (event_room (post_event m s)) \<and> sem_lock_sigr (post_event m s) = Suc (sem_lock_sigr s) \<and>
   contents CPARTITION_SIZE 1 (commr_block (post_event m s)) = contents CPARTITION_SIZE 1 (commr_block s) \<and>
   contents CPARTITION_SIZE 2 (commr_block (post_event m s)) =
     add_mset (padded CPARTITION_SIZE (enc_receivers_message m)) (contents CPARTITION_SIZE 2 (commr_block s))"
proof -
  have l: "length (enc_receivers_message m) \<le> CPARTITION_SIZE" by (simp add: CPARTITION_SIZE_def)
  then show ?thesis
  proof (cases rule: ch_put_cases [where type = 2 and block = "commr_block s"])
    case full
    then show ?thesis by (simp add: post_event_def event_room_def slots_def del: upt_rec_numeral)
  next
    case (put k b')
    let ?b = "flip k b'"
    have c: "contents CPARTITION_SIZE 2 ?b = add_mset (padded CPARTITION_SIZE (enc_receivers_message m)) (contents CPARTITION_SIZE 2 (commr_block s))"
      using put by (simp add: contents_fill)
    then have "card (used_slots 2 ?b) = Suc (card (used_slots 2 (commr_block s)))" by (metis size_contents size_add_mset)
    moreover have "card (used_slots 2 ?b) \<le> 40" using card_used_slots_le [of 2 ?b] by (simp add: slots_def del: upt_rec_numeral)
    ultimately have "event_room s = Suc (event_room (post_event m s))" using put(1) by (simp add: post_event_def event_room_def)
    with put(1) c ch_put_frame [OF l put(1) halves_disjoint(2)] show ?thesis by (simp add: post_event_def)
  qed
qed

lemma post_event_list:
  "contents CPARTITION_SIZE 2 (commr_block (fold post_event ms s)) = contents CPARTITION_SIZE 2 (commr_block s) +
     mset (map (padded CPARTITION_SIZE \<circ> enc_receivers_message) (take (event_room s) ms)) \<and>
   contents CPARTITION_SIZE 1 (commr_block (fold post_event ms s)) = contents CPARTITION_SIZE 1 (commr_block s) \<and>
   sem_lock_sigr (fold post_event ms s) = sem_lock_sigr s + min (event_room s) (length ms) \<and>
   datar_block (fold post_event ms s) = datar_block s"
proof (induction ms arbitrary: s)
  case (Cons m ms)
  from post_event_room [of s m] show ?case
  proof (elim disjE conjE)
    assume "event_room s = 0" "post_event m s = s"
    then show ?thesis using Cons [of s] by simp
  next
    assume "event_room s = Suc (event_room (post_event m s))" "sem_lock_sigr (post_event m s) = Suc (sem_lock_sigr s)"
      "contents CPARTITION_SIZE 1 (commr_block (post_event m s)) = contents CPARTITION_SIZE 1 (commr_block s)"
      "contents CPARTITION_SIZE 2 (commr_block (post_event m s)) =
        add_mset (padded CPARTITION_SIZE (enc_receivers_message m)) (contents CPARTITION_SIZE 2 (commr_block s))"
    then show ?thesis using Cons [of "post_event m s"] by simp
  qed
qed simp


section \<open>A kernel\<close>

text \<open>
  Bytes that arrived on each descriptor, and how many bytes the next calls of \<open>read\<close> take at most;
  connections that wait to be accepted; the events the next calls of \<open>epoll_wait\<close> report.
\<close>

record feed =
  arrived :: "int \<Rightarrow> byte list"
  limits :: "nat list"
  waiting :: "(nat \<times> cint) list"
  local_addr :: "int \<Rightarrow> cint"
  polls :: "(int \<times> cint) list list"
  gone :: "int list"

definition feed_read :: "int \<Rightarrow> int \<Rightarrow> feed \<Rightarrow> (int \<times> byte list) \<times> feed" where
  "feed_read fd n k =
     (let bs = take (case limits k of [] \<Rightarrow> nat n | l # _ \<Rightarrow> min (nat n) (Suc l)) (arrived k fd) in
      if bs = [] then ((-1, []), k)
      else ((int (length bs), bs),
        k\<lparr>arrived := (arrived k)(fd := drop (length bs) (arrived k fd)), limits := tl (limits k)\<rparr>))"

definition feed_kernel :: "feed kernel" where
  "feed_kernel = \<lparr>
     k_socket = \<lambda>k. (3, k), k_setsockopt = \<lambda>fd v k. (0, k), k_bind = \<lambda>fd p a k. (0, k), k_listen = \<lambda>fd k. (0, k),
     k_accept = \<lambda>fd k. (case waiting k of
                   [] \<Rightarrow> ((-1, 0), k)
                 | (c, a) # cs \<Rightarrow> ((int c, a), k\<lparr>waiting := cs\<rparr>)),
     k_fcntl = \<lambda>fd c x k. (2, k), k_epoll_create1 = \<lambda>k. (4, k), k_epoll_ctl = \<lambda>e op fd ev k. (0, k),
     k_epoll_wait = \<lambda>e n t k. (case polls k of
                   [] \<Rightarrow> ((0, []), k)
                 | evs # ps \<Rightarrow> ((int (length evs), evs), k\<lparr>polls := ps\<rparr>)),
     k_getsockname = \<lambda>fd a k. (local_addr k fd, k),
     k_read = feed_read,
     k_close = \<lambda>fd k. (0, k\<lparr>gone := gone k @ [fd]\<rparr>),
     k_again = \<lambda>k. True,
     k_strerror = \<lambda>k. []\<rparr>"

lemma feed_kernel_simps [simp]:
  "k_getsockname feed_kernel = (\<lambda>fd a k. (local_addr k fd, k))" "k_read feed_kernel = feed_read"
  "k_fcntl feed_kernel fd c x k = (2, k)" "k_epoll_ctl feed_kernel e op fd ev k = (0, k)"
  "k_close feed_kernel fd k = (0, k\<lparr>gone := gone k @ [fd]\<rparr>)" "k_again feed_kernel k"
  by (simp_all add: feed_kernel_def)

definition pending_on :: "int \<Rightarrow> feed \<Rightarrow> byte list" where
  "pending_on fd k = arrived k fd"

definition accept_queue :: "feed \<Rightarrow> (int \<times> cint) list" where
  "accept_queue k = map (\<lambda>(c, a). (int c, a)) (waiting k)"

interpretation feed: stream_source feed_kernel pending_on
proof
  fix fd n r bs and k k' :: feed
  assume rd: "k_read feed_kernel fd n k = ((r, bs), k')" and n: "0 < n"
  let ?l = "case limits k of [] \<Rightarrow> nat n | l # _ \<Rightarrow> min (nat n) (Suc l)"
  have l: "0 < ?l" "?l \<le> nat n" using n by (auto split: list.splits)
  show "0 < r \<and> r \<le> n \<and> int (length bs) = r \<and> pending_on fd k = bs @ pending_on fd k'" if p: "pending_on fd k \<noteq> []"
  proof -
    have "take ?l (arrived k fd) \<noteq> []" using p l by (simp add: pending_on_def)
    then have b: "bs = take ?l (arrived k fd)" "r = int (length bs)" "bs \<noteq> []"
      "k' = k\<lparr>arrived := (arrived k)(fd := drop (length bs) (arrived k fd)), limits := tl (limits k)\<rparr>"
      using rd unfolding feed_kernel_simps feed_read_def Let_def by auto
    have "length bs \<le> nat n" using l unfolding b(1) by simp
    moreover have "arrived k fd = bs @ drop (length bs) (arrived k fd)"
      by (subst (2) append_take_drop_id [of "length bs", symmetric]) (simp add: b(1))
    ultimately show ?thesis using b(2-4) n by (auto simp: pending_on_def)
  qed
  show "r \<le> 0 \<and> pending_on fd k' = []" if "pending_on fd k = []"
    using rd that by (auto simp: feed_read_def pending_on_def)
qed (auto simp: pending_on_def)

interpretation feed: listener feed_kernel accept_queue
  by unfold_locales (auto simp: feed_kernel_def accept_queue_def split: list.splits if_splits prod.splits)


section \<open>What every turn keeps\<close>

text \<open>
  The invariant of the loop: both locks are free, the table is well formed and \<open>nmsg\<close> keeps its size.
  \<open>keeps\<close> is the relation between the states before and after a call.
\<close>

definition rcv_ok :: "('c, 'k) rcv \<Rightarrow> bool" where
  "rcv_ok st \<longleftrightarrow> sem_lock_datar (shm st) = 1 \<and> sem_lock_commr (shm st) = 1 \<and> length (nmsg st) = sizeof_newmsg_data \<and>
     ht_wf (htable st) \<and> pool_clean (htable st)"

definition keeps :: "('c, 'k) rcv \<Rightarrow> ('c, 'k) rcv \<Rightarrow> bool" where
  "keeps st st' \<longleftrightarrow> (rcv_ok st \<longrightarrow> rcv_ok st') \<and> s_info st' = s_info st"

lemma keeps_refl [simp, intro]: "keeps st st"
  by (simp add: keeps_def)

lemma keeps_trans [trans]: "keeps a b \<Longrightarrow> keeps b c \<Longrightarrow> keeps a c"
  by (simp add: keeps_def)

lemma keeps_parts [simp]:
  "keeps st (st\<lparr>kern := k\<rparr>)" "keeps st (st\<lparr>db_world := w\<rparr>)" "keeps st (st\<lparr>addr := a\<rparr>)"
  "keeps st (st\<lparr>kern := k, addr := a\<rparr>)"
  by (simp_all add: keeps_def rcv_ok_def)

lemma syscall_keeps: "syscall f st = (r, st') \<Longrightarrow> keeps st st'"
  by (auto simp: syscall_def split: prod.splits)

lemma log_line_keeps: "log_line pq fmt args st = Some st' \<Longrightarrow> keeps st st'"
  by (auto simp: log_line_def)

definition locks :: "r_shared \<Rightarrow> nat \<times> nat" where
  "locks s = (sem_lock_datar s, sem_lock_commr s)"

lemma on_shared_keeps:
  assumes "on_shared f st = Some st'" "\<And>s s'. f s = Some s' \<Longrightarrow> locks s' = locks s"
  shows "keeps st st'"
  using assms by (auto simp: on_shared_def keeps_def rcv_ok_def locks_def)

lemma send_message_locks: "send_message_to_processor m s = Some s' \<Longrightarrow> locks s' = locks s"
  using send_message_to_processor_post [of s m]
  by (cases "sem_lock_commr s") (auto simp: send_message_to_processor_def sem_wait_def locks_def)

lemma send_data_locks:
  "length msg = sizeof_newmsg_data \<Longrightarrow> send_to_processor msg s = Some s' \<Longrightarrow> locks s' = locks s"
  using send_to_processor_post [of msg s]
  by (cases "sem_lock_datar s") (auto simp: send_to_processor_def sem_wait_def locks_def)

lemma make_nonblocking_keeps: "make_nonblocking pq kn fd st = Some (r, st') \<Longrightarrow> keeps st st' \<and> (r = 0 \<or> r = -1)"
  by (auto simp: make_nonblocking_def bind_eq_Some_conv split: prod.splits if_splits
      dest!: syscall_keeps log_line_keeps intro: keeps_trans)

lemma add_to_list_keeps: "add_to_list pq kn fd st = Some (r, st') \<Longrightarrow> keeps st st' \<and> (r = 0 \<or> r = -1)"
  by (auto simp: add_to_list_def bind_eq_Some_conv split: prod.splits if_splits
      dest!: syscall_keeps log_line_keeps intro: keeps_trans)

lemma remove_from_list_keeps: "remove_from_list pq kn fd st = Some (r, st') \<Longrightarrow> keeps st st' \<and> (r = 0 \<or> r = -1)"
  by (auto simp: remove_from_list_def bind_eq_Some_conv split: prod.splits if_splits
      dest!: syscall_keeps log_line_keeps intro: keeps_trans)

lemma end_connection_keeps:
  assumes "end_connection pq kn fd a st = Some (r, st')"
  shows "keeps st st' \<and> (r = 0 \<or> r = -1)"
proof -
  obtain r1 st1 where 1: "remove_from_list pq kn fd st = Some (r1, st1)"
    using assms by (auto simp: end_connection_def bind_eq_Some_conv)
  then have k: "keeps st st1" using remove_from_list_keeps by blast
  obtain a1 st2 where 2: "syscall (k_getsockname kn fd a) st1 = (a1, st2)" by (metis prod.exhaust)
  obtain c st3 where 3: "syscall (k_close kn fd) st2 = (c, st3)" by (metis prod.exhaust)
  have "(r = -1 \<and> st' = st1) \<or>
    (r = 0 \<and> on_shared (send_message_to_processor \<lparr>rm_fd = word_of_int fd, rm_ipaddr = 0, rm_status = 1\<rparr>) st3 = Some st')"
    using assms by (auto simp: end_connection_def 1 2 3 bind_eq_Some_conv split: if_splits)
  then show ?thesis
  proof (elim disjE conjE)
    assume "r = 0" and s: "on_shared (send_message_to_processor \<lparr>rm_fd = word_of_int fd, rm_ipaddr = 0, rm_status = 1\<rparr>) st3 = Some st'"
    note k
    also note syscall_keeps [OF 2]
    also note syscall_keeps [OF 3]
    also have "keeps st3 st'" using s by (rule on_shared_keeps) (rule send_message_locks)
    finally show ?thesis using \<open>r = 0\<close> by simp
  qed (use k in simp)
qed

lemma accept_connection_keeps:
  assumes "accept_connection pq kn st = Some x"
  shows "keeps st (snd x) \<and> (fst x = 0 \<or> fst x = -1)"
proof (rule accept_connection.raw_induct [OF _ assms, where P = "\<lambda>pq kn st x. keeps st (snd x) \<and> (fst x = 0 \<or> fst x = -1)"], goal_cases)
  case (1 accept pq kn st x)
  obtain r st' where x: "x = (r, st')" by (cases x)
  note 1 = 1 [unfolded x]
  obtain fd a st1 where acc: "syscall (k_accept kn (servsoc_fd (s_info st))) st = ((fd, a), st1)" by (metis prod.exhaust)
  note k1 = syscall_keeps [OF acc]
  have "keeps st st' \<and> (r = 0 \<or> r = -1)"
  proof (cases "fd < 0")
    case True
    with 1(2) acc show ?thesis
      by (auto simp: bind_eq_Some_conv split: if_splits dest!: log_line_keeps intro: keeps_trans [OF k1] k1)
  next
    case False
    with 1(2) acc obtain r2 st2 where mk: "make_nonblocking pq kn fd st1 = Some (r2, st2)"
      by (auto simp: bind_eq_Some_conv)
    then have k2: "keeps st st2" "r2 = 0 \<or> r2 = -1" using make_nonblocking_keeps keeps_trans [OF k1] by blast+
    show ?thesis
    proof (cases "r2 = -1")
      case True
      with False 1(2) acc mk k2 show ?thesis by auto
    next
      case r2: False
      with False 1(2) acc mk obtain r3 st3 where al: "add_to_list pq kn fd st2 = Some (r3, st3)"
        by (auto simp: bind_eq_Some_conv)
      then have k3: "keeps st st3" using add_to_list_keeps keeps_trans [OF k2(1)] by blast
      show ?thesis
      proof (cases "r3 = -1")
        case True
        obtain c st4 where "syscall (k_close kn fd) st3 = (c, st4)" by (metis prod.exhaust)
        with True False r2 1(2) acc mk al k3 show ?thesis by (auto dest: syscall_keeps intro: keeps_trans)
      next
        case r3: False
        with False r2 1(2) acc mk al obtain st4 where
          4: "on_shared (send_message_to_processor \<lparr>rm_fd = word_of_int fd, rm_ipaddr = htonl a, rm_status = 2\<rparr>) st3 = Some st4"
          and rec: "accept pq kn st4 = Some (r, st')"
          by (auto simp: bind_eq_Some_conv)
        from 4 have "keeps st3 st4" by (rule on_shared_keeps) (rule send_message_locks)
        with k3 have "keeps st st4" by (rule keeps_trans)
        then show ?thesis using 1(1) [OF rec] by (auto intro: keeps_trans)
      qed
    qed
  qed
  then show ?case using x by simp
qed

lemma put_bytes_length: "put_bytes arr off bs = Some arr' \<Longrightarrow> length arr' = length arr"
  by (auto simp: put_bytes_def split: if_splits)

lemma clear_nmsg_length: "clear_nmsg fd n raw = Some raw' \<Longrightarrow> length raw' = length raw"
  by (auto simp: clear_nmsg_def bind_eq_Some_conv put_bytes_length dest!: put_bytes_length)

lemma read_loop_keeps:
  assumes "read_loop kn fd n sofar raw s k = Some x"
  shows "length raw = sizeof_newmsg_data \<longrightarrow> length (fst x) = sizeof_newmsg_data \<and> locks (fst (snd x)) = locks s"
proof (rule read_loop.raw_induct [OF _ assms, where P = "\<lambda>kn fd n sofar raw s k x. length raw = sizeof_newmsg_data \<longrightarrow>
    length (fst x) = sizeof_newmsg_data \<and> locks (fst (snd x)) = locks s"], goal_cases)
  case (1 loop kn fd n sofar raw s k x)
  obtain r bs k1 where rd: "k_read kn (sint (get32 raw 0)) (n - sofar) k = ((r, bs), k1)" by (metis prod.exhaust)
  show ?case
  proof (cases "r \<le> 0")
    case True
    with 1(2) rd show ?thesis by auto
  next
    case False
    with 1(2) rd obtain raw1 where r1: "put_bytes raw (8 + nat sofar) bs = Some raw1"
      by (auto simp: bind_eq_Some_conv)
    show ?thesis
    proof (cases "sofar + r = n")
      case True
      with False 1(2) rd r1 obtain raw2 s1 raw3 where r2: "put_bytes raw1 4 (le32 (word_of_int n)) = Some raw2"
        and s1: "send_to_processor raw2 s = Some s1" and r3: "clear_nmsg fd n raw2 = Some raw3"
        and rec: "loop kn fd n 0 raw3 s1 k1 = Some x"
        by (auto simp: bind_eq_Some_conv)
      note l = put_bytes_length [OF r1] put_bytes_length [OF r2] clear_nmsg_length [OF r3]
      show ?thesis using 1(1) [OF rec] send_data_locks [OF _ s1] l by simp
    next
      case ne: False
      with False 1(2) rd r1 have rec: "loop kn fd n (sofar + r) raw1 s k1 = Some x" by simp
      show ?thesis using 1(1) [OF rec] put_bytes_length [OF r1] by simp
    qed
  qed
qed

lemma receive_data_keeps:
  assumes "receive_data pq kn fd st = Some (r, st')"
  shows "keeps st st' \<and> (r = 0 \<or> r = -1)"
proof -
  obtain a st0 where 0: "syscall (k_getsockname kn fd (addr st)) st = (a, st0)" by (metis prod.exhaust)
  let ?st1 = "st0\<lparr>addr := a\<rparr>"
  from syscall_keeps [OF 0] have k1: "keeps st ?st1" by (rule keeps_trans) simp
  obtain key n where key: "ip_key a = Some key" "hget (htable ?st1) key = Some n"
    using assms by (auto simp: receive_data_def 0 Let_def bind_eq_Some_conv)
  show ?thesis
  proof (cases "n \<ge> 0")
    case True
    with assms key obtain raw x where raw: "clear_nmsg fd n (nmsg ?st1) = Some raw"
      and x: "read_loop kn fd n 0 raw (shm ?st1) (kern ?st1) = Some x"
      and e: "r = 0" "st' = ?st1\<lparr>nmsg := fst x, shm := fst (snd x), kern := snd (snd x)\<rparr>"
      by (auto simp: receive_data_def 0 Let_def bind_eq_Some_conv)
    have "keeps ?st1 st'"
      using read_loop_keeps [OF x] clear_nmsg_length [OF raw] by (auto simp: keeps_def rcv_ok_def locks_def e)
    then show ?thesis using keeps_trans [OF k1] e(1) by blast
  next
    case False
    with assms key obtain fmt args st2 where l: "log_line pq fmt args ?st1 = Some st2"
      and e: "end_connection pq kn fd (addr st2) st2 = Some (r, st')"
      by (auto simp: receive_data_def 0 Let_def bind_eq_Some_conv)
    from end_connection_keeps [OF e] keeps_trans [OF k1 log_line_keeps [OF l]] show ?thesis
      by (auto intro: keeps_trans)
  qed
qed

lemma handle_event_keeps:
  assumes "handle_event pq kn ev st = Some (r, st')"
  shows "keeps st st' \<and> (r = 0 \<or> r = -1)"
proof -
  obtain fd evs where ev: "ev = (fd, evs)" by (cases ev)
  consider (stop) "end_connection pq kn fd (addr st) st = Some (r, st')"
    | (acc) x where "accept_connection pq kn st = Some x" "r = 0" "st' = snd x"
    | (data) "receive_data pq kn fd st = Some (r, st')" | (none) "r = 0" "st' = st"
    using assms by (auto simp: handle_event_def ev bind_eq_Some_conv split: if_splits)
  then show ?thesis
  proof cases
    case acc
    then show ?thesis using accept_connection_keeps [OF acc(1)] by simp
  qed (auto dest: end_connection_keeps receive_data_keeps)
qed

lemma handle_events_keeps: "handle_events pq kn evs st = Some (r, st') \<Longrightarrow> keeps st st' \<and> (r = 0 \<or> r = -1)"
proof (induction pq kn evs st rule: handle_events.induct)
  case (2 pq kn ev evs st)
  then obtain r1 st1 where h: "handle_event pq kn ev st = Some (r1, st1)" by (auto simp: bind_eq_Some_conv)
  note k = handle_event_keeps [OF h]
  show ?case
  proof (cases "r1 = -1")
    case True
    with 2(2) h k show ?thesis by auto
  next
    case False
    with 2 h have "keeps st1 st' \<and> (r = 0 \<or> r = -1)" by auto
    with k show ?thesis by (blast intro: keeps_trans)
  qed
qed auto

lemma length_cstr_less: "0 \<in> set bs \<Longrightarrow> length (cstr bs) < length bs"
  unfolding cstr_def by (induction bs) auto

lemma hput_keeps:
  assumes "hput h key v = Some (r, h')" "ht_wf h" "pool_clean h" "length key = 20"
  shows "ht_wf h' \<and> pool_clean h'"
proof (cases "unat (available_node_count h) = 0")
  case True
  with assms show ?thesis by (simp add: hput_full)
next
  case False
  then have "\<not> available_node_count h < 1" by (simp add: word_less_nat_alt unat_eq_0)
  then have "strlen key \<noteq> None" using assms(1) by (auto simp: hput_def hget_hash_def bind_eq_Some_conv)
  then have "0 \<in> set key" by (simp add: strlen_def split: if_splits)
  moreover from this have "length (cstr key) < 20" using length_cstr_less [of key] assms(4) by simp
  ultimately show ?thesis using ht.put_room [of h key v] assms(1-3) False by auto
qed

lemma take_capacity_keeps:
  assumes "take_capacity pq frame st = Some st'"
  shows "keeps st st'"
proof -
  obtain k cpif s1 where g: "get_message_from_processor frame (shm st) = Some (k, cpif, s1)"
    using assms by (auto simp: take_capacity_def bind_eq_Some_conv)
  have "get_subblock (commr_block (shm st)) 1 1 < 0 \<longrightarrow> get_subblock (commr_block (shm st)) 1 1 = -1"
    by (cases rule: used_slot_cases [where block = "commr_block (shm st)" and type = 1]) auto
  with g have l: "locks s1 = locks (shm st)" "k \<noteq> -1 \<longrightarrow> length cpif = 24"
    by (auto simp: get_message_from_processor_def get_message_locked_def sem_wait_def sem_post_def locks_def
        bind_eq_Some_conv Let_def sizeof_capacity_info_def split: if_splits intro: le_less_trans)
  have k1: "keeps st (st\<lparr>shm := s1\<rparr>)" using l by (simp add: keeps_def rcv_ok_def locks_def)
  show ?thesis
  proof (cases "k = -1")
    case True
    with assms g k1 show ?thesis by (simp add: take_capacity_def)
  next
    case False
    with assms g obtain r h where p: "hput (htable st) (drop 4 cpif) (get32 cpif 0) = Some (r, h)"
      and "st' = st\<lparr>shm := s1, htable := h\<rparr> \<or> (\<exists>fmt args. log_line pq fmt args (st\<lparr>shm := s1, htable := h\<rparr>) = Some st')"
      by (auto simp: take_capacity_def Let_def bind_eq_Some_conv split: if_splits)
    moreover have "keeps st (st\<lparr>shm := s1, htable := h\<rparr>)"
      using k1 hput_keeps [OF p] l False by (simp add: keeps_def rcv_ok_def)
    ultimately show ?thesis by (auto dest: log_line_keeps intro: keeps_trans)
  qed
qed

lemma run_receiver_once_keeps:
  assumes "run_receiver_once pq kn frame st = Some (r, st')"
  shows "keeps st st' \<and> (r = 0 \<or> r = -1)"
proof -
  obtain c evs st1 where 1: "syscall (k_epoll_wait kn (epoll_fd (s_info st)) (maxevents (s_info st)) 1000) st = ((c, evs), st1)"
    by (metis prod.exhaust)
  obtain st2 where 2: "take_capacity pq frame st1 = Some st2"
    using assms by (auto simp: run_receiver_once_def 1 bind_eq_Some_conv)
  have k: "keeps st st2" using syscall_keeps [OF 1] take_capacity_keeps [OF 2] by (rule keeps_trans)
  show ?thesis
  proof (cases "c = -1")
    case True
    with assms show ?thesis
      by (auto simp: run_receiver_once_def 1 2 bind_eq_Some_conv dest!: log_line_keeps intro: keeps_trans [OF k])
  next
    case False
    with assms have "handle_events pq kn (take (nat c) evs) st2 = Some (r, st')" by (simp add: run_receiver_once_def 1 2)
    from handle_events_keeps [OF this] k show ?thesis by (blast intro: keeps_trans)
  qed
qed

lemma run_receiver_keeps: "run_receiver n pq kn frame st = Some (r, st') \<Longrightarrow> keeps st st' \<and> (r = 0 \<or> r = -1)"
proof (induction n arbitrary: st)
  case (Suc n)
  then obtain r1 st1 where o: "run_receiver_once pq kn frame st = Some (r1, st1)" by (auto simp: bind_eq_Some_conv)
  note k = run_receiver_once_keeps [OF o]
  show ?case
  proof (cases "r1 = -1")
    case True
    with Suc.prems o k show ?thesis by auto
  next
    case False
    with Suc.prems o have "run_receiver n pq kn frame st1 = Some (r, st')" by simp
    from Suc.IH [OF this] k show ?thesis by (blast intro: keeps_trans)
  qed
qed auto


section \<open>Properties\<close>

lemma ip_key_some:
  "\<exists>key. ip_key a = Some key \<and> cstr key = dec (sint (htonl a)) \<and> 0 \<in> set key \<and> length (cstr key) < 20"
proof -
  have l: "length (dec (sint (htonl a))) \<le> 11" by (rule length_dec_sint)
  then have "ip_key a = Some (dec (sint (htonl a)) @ replicate (17 - length (dec (sint (htonl a)))) 0)"
    by (simp add: ip_key_def sprintf_buf_def)
  with l show ?thesis using dec_no_nul by (auto simp: cstr_append_replicate)
qed

text \<open>
  Claim C3: the receiver cuts the bytes of a connection into messages.  On any kernel whose connections
  are byte streams, however \<open>read\<close> splits them, and with a size \<open>m\<close> agreed for the address: the loop ends
  with the stream empty, and the messages added to the data block are, in order, the consecutive pieces
  of \<open>m\<close> bytes, each with the descriptor and the size, as many as the block had free slots for, with
  one signal each.  Pieces beyond the free slots and an incomplete last piece are dropped.
\<close>

theorem receive_data_cuts_stream:
  assumes "stream_source kn pending" "0 < m" "m \<le> MESSAGE_SIZE" "- (2 ^ 31) \<le> fd" "fd < 2 ^ 31"
    and "k_getsockname kn fd (addr st) (kern st) = (a, k0)" "ip_key a = Some key" "hget (htable st) key = Some (int m)"
    and "length (nmsg st) = sizeof_newmsg_data" "0 < sem_lock_datar (shm st)"
  shows "\<exists>st' msgs. receive_data pq kn fd st = Some (0, st') \<and> pending fd (kern st') = [] \<and>
    map (\<lambda>x. (sint (nm_data1 (dec_newmsg_data x)), nm_data2 (dec_newmsg_data x), take m (nm_data (dec_newmsg_data x)))) msgs =
      map (\<lambda>f. (fd, word_of_nat m, f)) (take (room (shm st)) (frames m (pending fd (kern st)))) \<and>
    contents DPARTITION_SIZE 3 (datar_block (shm st')) = contents DPARTITION_SIZE 3 (datar_block (shm st)) + mset msgs \<and>
    sem_lock_sigr (shm st') = sem_lock_sigr (shm st) + length msgs \<and>
    commr_block (shm st') = commr_block (shm st) \<and> htable st' = htable st"
proof -
  let ?tail = "drop (m + 8) (nmsg st)" and ?fs = "frames m (pending fd (kern st))"
  have m: "m + 8 \<le> sizeof_newmsg_data" "length ?tail = sizeof_newmsg_data - (m + 8)"
    using assms(3,9) by (simp_all add: sizeof_newmsg_data_def)
  have lf: "length f = m" if "f \<in> set ?fs" for f using that by (rule frame_length)
  then have le: "\<forall>x \<in> set (map (message_bytes fd m ?tail) ?fs). length x \<le> DPARTITION_SIZE"
    using m by (auto simp: DPARTITION_SIZE_def sizeof_newmsg_data_def)
  let ?msgs = "map (padded DPARTITION_SIZE \<circ> message_bytes fd m ?tail) (take (room (shm st)) ?fs)"
  have w: "sint (word_of_int fd :: cint) = fd" using assms(4,5) by (rule sint_word_of_int)
  have d: "dec_newmsg_data (padded DPARTITION_SIZE (message_bytes fd m ?tail f)) = dec_newmsg_data (message_bytes fd m ?tail f)"
    if "length f = m" for f
    using that m by (simp add: decode_message_bytes(4) dec_newmsg_data_def get32_def nth_append sizeof_newmsg_data_def)
  obtain st' where st': "receive_data pq kn fd st = Some (0, st')" "pending fd (kern st') = []" "htable st' = htable st"
    "shm st' = fold post_data (map (message_bytes fd m ?tail) ?fs) (shm st)"
    using stream_source.receive_data_frames [OF assms] by blast
  have dm: "map (\<lambda>x. (sint (nm_data1 (dec_newmsg_data x)), nm_data2 (dec_newmsg_data x), take m (nm_data (dec_newmsg_data x)))) ?msgs =
      map (\<lambda>f. (fd, word_of_nat m, f)) (take (room (shm st)) ?fs)"
    unfolding map_map
  proof (rule map_cong [OF refl])
    fix f assume "f \<in> set (take (room (shm st)) ?fs)"
    then have "length f = m" by (meson lf in_set_takeD)
    then show "((\<lambda>x. (sint (nm_data1 (dec_newmsg_data x)), nm_data2 (dec_newmsg_data x), take m (nm_data (dec_newmsg_data x)))) \<circ>
        (padded DPARTITION_SIZE \<circ> message_bytes fd m ?tail)) f = (fd, word_of_nat m, f)"
      by (simp add: d decode_message_bytes(1-3) [OF _ m] w)
  qed
  have "map (padded DPARTITION_SIZE) (take (room (shm st)) (map (message_bytes fd m ?tail) ?fs)) = ?msgs"
    "length ?msgs = min (room (shm st)) (length (map (message_bytes fd m ?tail) ?fs))"
    by (simp_all add: take_map)
  note p = post_data_list [OF le, of "shm st", unfolded this(1) this(2) [symmetric]]
  show ?thesis
    by (rule exI [of _ st'], rule exI [of _ ?msgs], unfold st'(4), intro conjI)
      (use st'(1-3) dm p in satx)+
qed

text \<open>A receiver that was told the size 3 for 127.0.0.1, with seven bytes on the descriptor 9.\<close>

definition demo_rcv :: "hashtable \<Rightarrow> byte list \<Rightarrow> (server, feed) rcv" where
  "demo_rcv h input = \<lparr>s_info = \<lparr>port = 8000, maxevents = 1000, servsoc_fd = 3, epoll_fd = 4, ipaddress = 0\<rparr>, shm = idle_r,
     htable = h, db_world = \<lparr>conn = demo_server_r, syslog = []\<rparr>,
     kern = \<lparr>arrived = (\<lambda>_. [])(9 := input), limits = [0, 3], waiting = [(9, 0x0100007F)], local_addr = \<lambda>_. 0x0100007F,
       polls = [], gone = []\<rparr>,
     addr = 0, nmsg = replicate sizeof_newmsg_data 0\<rparr>"

lemma demo_rcv_simps [simp]:
  "s_info (demo_rcv h input) = \<lparr>port = 8000, maxevents = 1000, servsoc_fd = 3, epoll_fd = 4, ipaddress = 0\<rparr>"
  "htable (demo_rcv h input) = h" "shm (demo_rcv h input) = idle_r" "length (nmsg (demo_rcv h input)) = sizeof_newmsg_data"
  "pending_on 9 (kern (demo_rcv h input)) = input" "local_addr (kern (demo_rcv h input)) fd = 0x0100007F"
  "accept_queue (kern (demo_rcv h input)) = [(9, 0x0100007F)]"
  by (simp_all add: demo_rcv_def pending_on_def accept_queue_def)

lemma agreed_table: "\<exists>h. ht_wf h \<and> pool_clean h \<and> (\<exists>key. ip_key 0x0100007F = Some key \<and> hget h key = Some 3)"
proof -
  obtain key where key: "ip_key 0x0100007F = Some key" "0 \<in> set key" "length (cstr key) < 20" using ip_key_some by blast
  then show ?thesis
    using ht.get_after_put [of two_nodes key key 3] two_nodes_ok by (auto simp: sint_small)
qed

theorem receive_data_cuts_stream_witness:
  "\<exists>h st'. receive_data pg feed_kernel 9 (demo_rcv h (bytes ''abcdefg'')) = Some (0, st') \<and>
    sem_lock_sigr (shm st') = 3"
proof -
  obtain h key where h: "ip_key 0x0100007F = Some key" "hget h key = Some (int 3)" using agreed_table by auto
  have r: "room idle_r = 80" by (simp add: room_def idle_r_def no_slots_used_r)
  have f: "length (frames 3 (bytes ''abcdefg'')) = 2" by (simp add: length_frames bytes_def)
  obtain st' msgs where s: "receive_data pg feed_kernel 9 (demo_rcv h (bytes ''abcdefg'')) = Some (0, st')"
    and m: "map (\<lambda>x. (sint (nm_data1 (dec_newmsg_data x)), nm_data2 (dec_newmsg_data x), take 3 (nm_data (dec_newmsg_data x)))) msgs =
      map (\<lambda>f. (9, word_of_nat 3, f)) (take (room idle_r) (frames 3 (bytes ''abcdefg'')))"
    and g: "sem_lock_sigr (shm st') = sem_lock_sigr idle_r + length msgs"
    using receive_data_cuts_stream [OF feed.stream_source_axioms, of 3 9 "demo_rcv h (bytes ''abcdefg'')" "0x0100007F"
        "kern (demo_rcv h (bytes ''abcdefg''))" key pg] h
    by (auto simp: MESSAGE_SIZE_def idle_r_def)
  have "length msgs = 2" using arg_cong [OF m, of length] r f by simp
  then have "sem_lock_sigr (shm st') = 3" using g by (simp add: idle_r_def)
  with s show ?thesis by blast
qed




text \<open>The calls before the loop leave the blocks and \<open>nmsg\<close> as they are.\<close>

definition same_memory :: "('c, 'k) rcv \<Rightarrow> ('c, 'k) rcv \<Rightarrow> bool" where
  "same_memory st st' \<longleftrightarrow> shm st' = shm st \<and> nmsg st' = nmsg st"

lemma same_memory_trans [trans]: "same_memory a b \<Longrightarrow> same_memory b c \<Longrightarrow> same_memory a c"
  by (simp add: same_memory_def)

lemma same_memory_parts [simp]:
  "same_memory st st" "same_memory st (st\<lparr>s_info := i\<rparr>)" "same_memory (st\<lparr>s_info := i\<rparr>) st' = same_memory st st'"
  "same_memory st (st\<lparr>htable := h\<rparr>)"
  by (simp_all add: same_memory_def)

lemma syscall_memory: "syscall f st = (r, st') \<Longrightarrow> same_memory st st'"
  by (auto simp: syscall_def same_memory_def split: prod.splits)

lemma log_line_memory: "log_line pq fmt args st = Some st' \<Longrightarrow> same_memory st st'"
  by (auto simp: log_line_def same_memory_def)

lemma prepare_socket_memory:
  "make_nonblocking pq kn fd st = Some (r, st') \<Longrightarrow> same_memory st st'"
  "add_to_list pq kn fd st = Some (r, st') \<Longrightarrow> same_memory st st'"
  by (auto simp: make_nonblocking_def add_to_list_def bind_eq_Some_conv split: prod.splits if_splits
      dest!: syscall_memory log_line_memory intro: same_memory_trans)

lemma create_socket_memory: "create_socket pq kn st = Some (r, st') \<Longrightarrow> same_memory st st'"
  by (auto simp: create_socket_def Let_def bind_eq_Some_conv split: prod.splits if_splits
      dest!: syscall_memory log_line_memory) (auto simp: same_memory_def)

lemma start_receiver_ok:
  assumes "start_receiver pq kn ok callocs st = Some (0, st')"
  shows "same_memory st st' \<and> (\<exists>h0. hcreate_table ok callocs h0 1000 = Some (0, htable st'))"
proof -
  let ?st = "st\<lparr>s_info := (s_info st)\<lparr>maxevents := 1000\<rparr>\<rparr>"
  obtain r1 st1 where 1: "create_socket pq kn ?st = Some (r1, st1)" "r1 \<noteq> -1"
    using assms by (auto simp: start_receiver_def bind_eq_Some_conv split: if_splits)
  then obtain r2 st2 where 2: "make_nonblocking pq kn (servsoc_fd (s_info st1)) st1 = Some (r2, st2)" "r2 \<noteq> -1"
    using assms by (auto simp: start_receiver_def bind_eq_Some_conv split: if_splits)
  obtain r3 st3 where 3: "syscall (k_listen kn (servsoc_fd (s_info st2))) st2 = (r3, st3)" by (metis prod.exhaust)
  obtain e st4 where 4: "syscall (k_epoll_create1 kn) st3 = (e, st4)" by (metis prod.exhaust)
  let ?st5 = "st4\<lparr>s_info := (s_info st4)\<lparr>epoll_fd := e\<rparr>\<rparr>"
  obtain r4 st6 r5 h where 6: "add_to_list pq kn (servsoc_fd (s_info ?st5)) ?st5 = Some (r4, st6)" "r4 \<noteq> -1"
    "hcreate_table ok callocs (htable st6) 1000 = Some (r5, h)" "r5 = 0" "st' = st6\<lparr>htable := h\<rparr>"
    using assms 1 2 by (auto simp: start_receiver_def 3 4 Let_def bind_eq_Some_conv split: if_splits)
  have "same_memory st st1" using create_socket_memory [OF 1(1)] by simp
  also have "same_memory st1 st2" using prepare_socket_memory(1) [OF 2(1)] .
  also have "same_memory st2 st3" using syscall_memory [OF 3] .
  also have "same_memory st3 st4" using syscall_memory [OF 4] .
  also have "same_memory st4 st6" using prepare_socket_memory(2) [OF 6(1)] by simp
  also have "same_memory st6 st'" using 6(5) by simp
  finally show ?thesis using 6 by auto
qed

text \<open>
  Claim C28: from the start of the receiver on, for any kernel, any server and any number of turns that
  return: both locks of the blocks are free between turns, the table is well formed (its chains and its
  pool partition the thousand nodes), \<open>nmsg\<close> keeps its size, the sockets of the server stay the same, and
  the value returned is 0 or -1.
\<close>

theorem receiver_keeps_invariant:
  assumes "start_receiver pq kn True (map Some as) st = Some (0, st0)" "length as = 1000" "distinct as"
    and "sem_lock_datar (shm st) = 1" "sem_lock_commr (shm st) = 1" "length (nmsg st) = sizeof_newmsg_data"
    and "run_receiver n pq kn frame st0 = Some (r, st')"
  shows "sem_lock_datar (shm st') = 1 \<and> sem_lock_commr (shm st') = 1 \<and> length (nmsg st') = sizeof_newmsg_data \<and>
    ht_wf (htable st') \<and> s_info st' = s_info st0 \<and> (r = 0 \<or> r = -1)"
proof -
  obtain h0 where s: "same_memory st st0" and h: "hcreate_table True (map Some as) h0 1000 = Some (0, htable st0)"
    using start_receiver_ok [OF assms(1)] by blast
  have "ht_wf (htable st0) \<and> pool_clean (htable st0)"
    using hcreate_ok [of as 1000 h0] assms(2,3) h by (auto simp: word_less_nat_alt)
  with s assms(4-6) have "rcv_ok st0" by (simp add: rcv_ok_def same_memory_def)
  with run_receiver_keeps [OF assms(7)] show ?thesis by (auto simp: keeps_def rcv_ok_def)
qed

lemma no_capacity_idle: "get_message_from_processor frame idle_r = Some (-1, [], idle_r)"
  using get_subblock_used_iff [of "\<lambda>_. 0" 1]
  by (simp add: get_message_from_processor_def get_message_locked_def sem_wait_def sem_post_def idle_r_def no_slots_used_r Let_def)

lemma demo_start:
  "\<exists>st0. start_receiver pg feed_kernel True (map Some [0..<1000]) (demo_rcv no_table []) = Some (0, st0) \<and>
    shm st0 = idle_r \<and> polls (kern st0) = []"
proof -
  obtain h where h: "hcreate_table True (map Some [0..<1000]) no_table 1000 = Some (0, h)"
    using hcreate_ok [of "[0..<1000]" 1000 no_table] by (auto simp: word_less_nat_alt simp del: upt_rec_numeral)
  show ?thesis
    using h by (simp add: start_receiver_def create_socket_def make_nonblocking_def add_to_list_def syscall_def
        feed_kernel_def demo_rcv_def Let_def del: upt_rec_numeral)
qed

theorem receiver_keeps_invariant_witness:
  "\<exists>st0 r st'. start_receiver pg feed_kernel True (map Some [0..<1000]) (demo_rcv no_table []) = Some (0, st0) \<and>
    run_receiver 1 pg feed_kernel [] st0 = Some (r, st') \<and> ht_wf (htable st')"
proof -
  obtain st0 where st0: "start_receiver pg feed_kernel True (map Some [0..<1000]) (demo_rcv no_table []) = Some (0, st0)"
    "shm st0 = idle_r" "polls (kern st0) = []" using demo_start by blast
  have "\<exists>st'. run_receiver 1 pg feed_kernel [] st0 = Some (0, st')"
    using st0(2,3) by (simp add: run_receiver_once_def syscall_def feed_kernel_def take_capacity_def no_capacity_idle)
  then obtain st' where r: "run_receiver 1 pg feed_kernel [] st0 = Some (0, st')" by (elim exE)
  have "ht_wf (htable st')"
    using receiver_keeps_invariant [OF st0(1) _ _ _ _ _ r] by (simp add: idle_r_def del: upt_rec_numeral)
  with st0(1) r show ?thesis by blast
qed


lemma storelog_short:
  assumes "log_text fmt args = Some t" "length t < 1000"
  shows "\<exists>w'. storelog pq fmt args w = Some w'"
  using assms by (simp add: storelog_text Let_def split: prod.splits)

text \<open>
  Claim C33: a connection that hung up is ended by taking its descriptor off the epoll list, closing it
  and posting one event with status 1 and address 0, if there is a free slot; the database is not
  touched.  When the kernel cannot take the descriptor off the list, nothing is posted or closed, the
  remaining events are not handled, and the receiver's loop ends with -1.
\<close>

theorem end_connection_outcomes:
  assumes "0 < sem_lock_commr (shm st)" "length (k_strerror kn k1) \<le> 800" "evs AND EPOLLHUP \<noteq> 0"
    and "k_epoll_ctl kn (epoll_fd (s_info st)) CTL_DEL fd (-1) (kern st) = (c, k1)"
  shows "if c = -1 then \<exists>st'. handle_events pq kn ((fd, evs) # rest) st = Some (-1, st') \<and> shm st' = shm st \<and> kern st' = k1
    else handle_events pq kn ((fd, evs) # rest) st = handle_events pq kn rest
      (st\<lparr>kern := snd (k_close kn fd (snd (k_getsockname kn fd (addr st) k1))),
          shm := post_event \<lparr>rm_fd = word_of_int fd, rm_ipaddr = 0, rm_status = 1\<rparr> (shm st)\<rparr>)"
proof -
  have ev: "handle_event pq kn (fd, evs) st = end_connection pq kn fd (addr st) st"
    using assms(3) by (simp add: handle_event_def)
  note sys = assms(4) syscall_def
  show ?thesis
  proof (cases "c = -1")
    case True
    let ?args = "[VStr (bytes ''removing from epoll list failed : ''), VStr (k_strerror kn k1), VStr (bytes '' epollfd : ''),
      int_arg (epoll_fd (s_info st)), VStr (bytes '' fd to be removed : ''), int_arg fd]"
    let ?t = "cstr (bytes ''removing from epoll list failed : '') @ cstr (k_strerror kn k1) @ cstr (bytes '' epollfd : '') @
      dec (sint (word_of_int (epoll_fd (s_info st)) :: cint)) @ cstr (bytes '' fd to be removed : '') @ dec (sint (word_of_int fd :: cint))"
    have "log_text ''%s%s%s%d%s%d'' ?args = Some ?t" by (simp add: int_arg_def)
    moreover have "length ?t < 1000"
      using length_cstr_le [of "bytes ''removing from epoll list failed : ''"] length_cstr_le [of "k_strerror kn k1"]
        length_cstr_le [of "bytes '' epollfd : ''"] length_cstr_le [of "bytes '' fd to be removed : ''"]
        length_dec_sint [of "word_of_int (epoll_fd (s_info st))"] length_dec_sint [of "word_of_int fd"] assms(2)
      by (simp add: bytes_def)
    ultimately obtain w' where "storelog pq ''%s%s%s%d%s%d'' ?args (db_world st) = Some w'"
      using storelog_short by blast
    then show ?thesis using True
      by (simp add: ev end_connection_def remove_from_list_def sys log_line_def strerror_arg_def)
  next
    case False
    obtain a k2 where 2: "k_getsockname kn fd (addr st) k1 = (a, k2)" by (metis prod.exhaust)
    obtain key where key: "sprintf_buf 17 (dec (sint (htonl a))) = Some key"
      using length_dec_sint [of "htonl a"] by (simp add: sprintf_buf_def)
    show ?thesis using False
      by (simp add: ev end_connection_def remove_from_list_def sys 2 key on_shared_def
          send_message_to_processor_post [OF assms(1)] split: prod.splits)
  qed
qed

theorem end_connection_outcomes_witness:
  "\<exists>st'. handle_events pg feed_kernel [(9, EPOLLHUP)] (demo_rcv no_table []) = Some (0, st') \<and> gone (kern st') = [9] \<and>
    shm st' = post_event \<lparr>rm_fd = 9, rm_ipaddr = 0, rm_status = 1\<rparr> idle_r"
proof -
  have "gone (kern (demo_rcv no_table [])) = []" by (simp add: demo_rcv_def)
  then show ?thesis
    using end_connection_outcomes [of "demo_rcv no_table []" feed_kernel "kern (demo_rcv no_table [])" EPOLLHUP 9 0 pg "[]"]
    by (auto simp: idle_r_def EPOLLHUP_def feed_kernel_def)
qed

end
