(* ===== verification/InitialSender.thy ===== *)
theory InitialSender
  imports Sender Database
begin

text \<open>
  \<open>initial_sender.c\<close>: the process that sends the first message of a handshake (147 bytes) to a system it
  has no connection with yet.  One turn takes the text and the address of a job in state \<open>S-5\<close> from the
  database, connects, sends, and stores the outcome in the job's state.  The socket calls are those of
  \<open>net\<close>; \<open>err\<close> is the text of \<open>strerror\<close>.

  The array that \<open>update_status\<close> prints the status into has two bytes.  Every status the program
  reports, -1 and 147, needs more, so the functions that lead there have the size of the array as a
  parameter, \<open>cap\<close>; \<open>status_param_size\<close> is the value in the code.
\<close>

definition ISMESSAGE_SIZE :: nat where
  "ISMESSAGE_SIZE = 147"

definition status_param_size :: nat where
  "status_param_size = 2"

record is_info =
  is_port :: cint
  is_ipaddress :: "64 word"
  is_uuid :: "byte list"
  is_data :: "byte list"

text \<open>\<open>memset(&servinfo, 0, sizeof(servinfo))\<close>.\<close>

definition is_clear :: is_info where
  "is_clear = \<lparr>is_port = 0, is_ipaddress = 0, is_uuid = replicate 37 0, is_data = replicate ISMESSAGE_SIZE 0\<rparr>"

text \<open>\<open>dbs\<close> of \<open>initial_sender.h\<close>; runs of blanks in the SQL text are shortened.\<close>

definition dbs_is :: "db_statement list" where
  "dbs_is = [
    (''storelog'', ''INSERT INTO logs (log) VALUES ($1);'', 1),
    (''get_info'', ''SELECT si.comssport, si.ipaddress, js.jobid FROM job_scheduler js JOIN sysinfo si ON js.jdestination = si.system_name WHERE js.jstate = 'S-5' ORDER BY js.jpriority LIMIT 1;'', 0),
    (''get_data'', ''SELECT jobdata FROM job_scheduler WHERE jobid = $1::uuid;'', 1),
    (''update_status'', ''UPDATE job_scheduler SET jstate = (SELECT CASE WHEN $1 > 0 THEN 'C' ELSE 'D' END) WHERE jobid = $2::uuid;'', 2)]"

lemma stmt_name_dbs_is [simp]:
  "stmt_name dbs_is (Suc 0) = ''get_info''" "stmt_name dbs_is 2 = ''get_data''" "stmt_name dbs_is 3 = ''update_status''"
  by (simp_all add: stmt_name_def dbs_is_def)


section \<open>The code\<close>

text \<open>\<open>memcpy\<close> to the start of an array: more bytes than the array has are undefined.\<close>

definition fill :: "byte list \<Rightarrow> byte list \<Rightarrow> byte list option" where
  "fill arr bs = (if length bs \<le> length arr then Some (bs @ drop (length bs) arr) else None)"

definition read_data_from_database :: "'c pq \<Rightarrow> is_info \<Rightarrow> 'c world \<Rightarrow> (int \<times> is_info \<times> 'c world) option" where
  "read_data_from_database pq servinfo w0 =
     (let (res, w1) = PQexec pq ''BEGIN'' w0 in
      if res_status res \<noteq> COMMAND_OK then do {
        w2 \<leftarrow> storelog pq ''%s%s'' [VStr (bytes ''BEGIN command in transaction failed in initial sender : ''), VStr (PQerrorMessage pq w1)] w1;
        Some (-1, servinfo, w2) }
      else
        let (res, w2) = PQexecPrepared pq (stmt_name dbs_is 1) [] 0 w1 in
        if res_status res \<noteq> TUPLES_OK \<or> PQntuples res \<le> 0 then do {
          w3 \<leftarrow> storelog pq ''%s%s'' [VStr (bytes ''retriving data for intial sender failed : ''), VStr (PQerrorMessage pq w2)] w2;
          w4 \<leftarrow> rollback pq ''initial sender'' w3;
          Some (-1, servinfo, w4) }
        else do {
          p \<leftarrow> PQgetvalue res 0 0;
          ip \<leftarrow> PQgetvalue res 0 1;
          u \<leftarrow> PQgetvalue res 0 2;
          uuid \<leftarrow> fill (is_uuid servinfo) u;
          let info = servinfo\<lparr>is_port := atoi p, is_ipaddress := scast (atoi ip), is_uuid := uuid\<rparr>;
          key \<leftarrow> text_param uuid;
          let (res, w3) = PQexecPrepared pq (stmt_name dbs_is 2) [key] 1 w2;
          if res_status res \<noteq> TUPLES_OK \<or> PQntuples res \<le> 0 then do {
            w4 \<leftarrow> storelog pq ''%s%s%s%s'' [VStr (bytes ''failed to get message data : ''), VStr uuid,
                     VStr (bytes '' error : ''), VStr (PQerrorMessage pq w3)] w3;
            w5 \<leftarrow> rollback pq ''initial sender'' w4;
            Some (-1, info, w5) }
          else do {
            d \<leftarrow> PQgetvalue res 0 0;
            dat \<leftarrow> fill (is_data info) d;
            (st, w4) \<leftarrow> commit pq ''initial sender'' w3;
            Some (st, info\<lparr>is_data := dat\<rparr>, w4) } })"

definition update_status :: "nat \<Rightarrow> 'c pq \<Rightarrow> byte list \<Rightarrow> int \<Rightarrow> 'c world \<Rightarrow> 'c world option" where
  "update_status cap pq uuid status w0 = do {
     status_param \<leftarrow> sprintf_buf cap (dec status);
     u \<leftarrow> text_param uuid;
     let (res, w1) = PQexecPrepared pq (stmt_name dbs_is 3) [Text status_param, u] 0 w0;
     if res_status res \<noteq> COMMAND_OK then
       storelog pq ''%s%s%s%d%s%s'' [VStr (bytes ''failed to update status of message''), VStr uuid, VStr (bytes '' status : ''),
         VInt (word_of_int status), VStr (bytes '' error : ''), VStr (PQerrorMessage pq w1)] w1
     else Some w1 }"

text \<open>
  The loop around \<open>send\<close>: each call offers 147 bytes from \<open>data + total_data_sent\<close>, which after a partial
  \<open>send\<close> reach past the array (and past the struct, whose last field it is).
\<close>

function is_send_loop :: "'n net \<Rightarrow> int \<Rightarrow> byte list \<Rightarrow> int \<Rightarrow> 'n \<Rightarrow> (int \<times> 'n) option" where
  "is_send_loop net fd dat sofar n =
     (if sofar < 0 \<or> length dat < nat sofar + ISMESSAGE_SIZE then None
      else let (data_sent, n1) = net_send net fd (take ISMESSAGE_SIZE (drop (nat sofar) dat)) n;
               sofar1 = sofar + data_sent
           in if sofar1 < int ISMESSAGE_SIZE \<and> data_sent > 0 then is_send_loop net fd dat sofar1 n1
              else Some (sofar1, n1))"
  by pat_completeness auto
termination by (relation "measure (\<lambda>(net, fd, dat, sofar, n). nat (int ISMESSAGE_SIZE - sofar))") auto

declare is_send_loop.simps [simp del]

text \<open>The part of a turn after a job was found.\<close>

definition send_to_remote :: "nat \<Rightarrow> 'c pq \<Rightarrow> 'n net \<Rightarrow> byte list \<Rightarrow> is_info \<Rightarrow> 'c world \<times> 'n \<Rightarrow> ('c world \<times> 'n) option" where
  "send_to_remote cap pq net err servinfo = (\<lambda>(w0, n0).
     let (fd, n1) = net_socket net n0 in
     if fd = -1 then do {
       w1 \<leftarrow> storelog pq ''%s%s'' [VStr (bytes ''initial sender failed to create client socket : ''), VStr err] w0;
       w2 \<leftarrow> update_status cap pq (is_uuid servinfo) (-1) w1;
       Some (w2, n1) }
     else
       let (c, n2) = net_connect net fd (ucast (is_port servinfo)) (ucast (is_ipaddress servinfo)) n1 in
       if c = -1 then do {
         w1 \<leftarrow> storelog pq ''%s%s'' [VStr (bytes ''failed to connect form connection with remote host : ''), VStr err] w0;
         w2 \<leftarrow> update_status cap pq (is_uuid servinfo) (-1) w1;
         Some (w2, net_close net fd n2) }
       else do {
         (total_data_sent, n3) \<leftarrow> is_send_loop net fd (is_data servinfo) 0 n2;
         w1 \<leftarrow> update_status cap pq (is_uuid servinfo)
                 (if total_data_sent \<noteq> int ISMESSAGE_SIZE then -1 else total_data_sent) w0;
         Some (w1, net_close net fd n3) })"

text \<open>One turn of \<open>run_server\<close>, with the value of the semaphore, and the first \<open>k\<close> turns.\<close>

definition run_server_once :: "nat \<Rightarrow> 'c pq \<Rightarrow> 'n net \<Rightarrow> byte list \<Rightarrow> nat \<times> 'c world \<times> 'n \<Rightarrow> (nat \<times> 'c world \<times> 'n) option" where
  "run_server_once cap pq net err = (\<lambda>(sem_lock_isender, w, n). do {
     l \<leftarrow> sem_wait sem_lock_isender;
     (r, servinfo, w1) \<leftarrow> read_data_from_database pq is_clear w;
     if r \<noteq> -1 then do {
       (w2, n2) \<leftarrow> send_to_remote cap pq net err servinfo (w1, n);
       Some (l, w2, n2) }
     else Some (l, w1, n) })"

fun run_server :: "nat \<Rightarrow> nat \<Rightarrow> 'c pq \<Rightarrow> 'n net \<Rightarrow> byte list \<Rightarrow> nat \<times> 'c world \<times> 'n \<Rightarrow> (nat \<times> 'c world \<times> 'n) option" where
  "run_server 0 cap pq net err x = Some x"
| "run_server (Suc k) cap pq net err x = do { x1 \<leftarrow> run_server_once cap pq net err x; run_server k cap pq net err x1 }"


section \<open>What a turn does\<close>

context pg_server
begin

lemma initial_read_outcome:
  assumes call: "read_data_from_database pq servinfo w = Some (r, info, w')" and none: "saved (conn w) = None"
  shows "saved (conn w') = None \<and> tables (conn w') = tables (conn w) \<and> (r = 0 \<or> r = -1)"
proof -
  obtain rb w1 where b: "PQexec pq ''BEGIN'' w = (rb, w1)" by (cases "PQexec pq ''BEGIN'' w")
  note tx = begin_tx [OF none PQexec_conn [OF b]]
  show ?thesis
  proof (cases "res_status rb = COMMAND_OK")
    case False
    then show ?thesis
      using call tx b log_outside_tx [of _ _ w1] by (auto simp: read_data_from_database_def bind_eq_Some_conv)
  next
    case True
    then have sv1: "saved (conn w1) = Some (tables (conn w))" and t1: "tables (conn w1) = tables (conn w)"
      using tx by auto
    obtain ri w2 where i: "PQexecPrepared pq ''get_info'' [] 0 w1 = (ri, w2)"
      by (cases "PQexecPrepared pq ''get_info'' [] 0 w1")
    have sv2: "saved (conn w2) = Some (tables (conn w))" using failed_step [OF i] sv1 by simp
    show ?thesis
    proof (cases "res_status ri = TUPLES_OK \<and> PQntuples ri > 0")
      case False
      then have "\<exists>fmt args w3. storelog pq fmt args w2 = Some w3 \<and> rollback pq ''initial sender'' w3 = Some w' \<and> r = -1"
        using call b True i by (auto simp: read_data_from_database_def bind_eq_Some_conv)
      then show ?thesis using log_and_rollback [OF sv2] by blast
    next
      case q1: True
      then have q1': "res_status ri = TUPLES_OK" "PQntuples ri \<noteq> 0" by auto
      note def1 = read_data_from_database_def b True i q1'
      obtain p where p: "PQgetvalue ri 0 0 = Some p" using call by (cases "PQgetvalue ri 0 0") (auto simp: def1)
      obtain ip where ip: "PQgetvalue ri 0 1 = Some ip" using call p by (cases "PQgetvalue ri 0 1") (auto simp: def1)
      obtain u where u: "PQgetvalue ri 0 2 = Some u" using call p ip by (cases "PQgetvalue ri 0 2") (auto simp: def1)
      obtain uuid where uuid: "fill (is_uuid servinfo) u = Some uuid"
        using call p ip u by (cases "fill (is_uuid servinfo) u") (auto simp: def1)
      obtain key where key: "text_param uuid = Some key"
        using call p ip u uuid by (cases "text_param uuid") (auto simp: def1)
      obtain rd w3 where d: "PQexecPrepared pq ''get_data'' [key] 1 w2 = (rd, w3)"
        by (cases "PQexecPrepared pq ''get_data'' [key] 1 w2")
      note def2 = def1 p ip u uuid key d
      have sv3: "saved (conn w3) = Some (tables (conn w))" using failed_step [OF d] sv2 by simp
      show ?thesis
      proof (cases "res_status rd = TUPLES_OK \<and> PQntuples rd > 0")
        case False
        then have "\<exists>fmt args w4. storelog pq fmt args w3 = Some w4 \<and> rollback pq ''initial sender'' w4 = Some w' \<and> r = -1"
          using call ip by (auto simp: def2 bind_eq_Some_conv)
        then show ?thesis using log_and_rollback [OF sv3] by blast
      next
        case q2: True
        then have c: "commit pq ''initial sender'' w3 = Some (r, w')"
          using call ip by (auto simp: def2 bind_eq_Some_conv)
        have "tables (conn w3) = tables (conn w)" "\<not> failed (conn w3)"
          using query_step [OF i] query_step [OF d] q1 q2 t1 by (simp_all add: select_effect is_query_def)
        then show ?thesis using commit_or_restore [OF c sv3] by auto
      qed
    qed
  qed
qed

lemma update_status_outcome:
  assumes "update_status cap pq uuid st w = Some w'" "saved (conn w) = None"
  shows "saved (conn w') = None \<and>
    tables (conn w') \<in> {tables (conn w), effect ''update_status'' [Text (dec st), Text (cstr uuid)] (tables (conn w))}"
proof -
  let ?ps = "[Text (dec st), Text (cstr uuid)]"
  obtain ru w1 where u: "PQexecPrepared pq ''update_status'' ?ps 0 w = (ru, w1)" by (cases "PQexecPrepared pq ''update_status'' ?ps 0 w")
  have "w' = w1 \<or> (\<exists>fmt args. storelog pq fmt args w1 = Some w')"
    using assms(1) u by (auto simp: update_status_def sprintf_buf_Some text_param_def c_string_def bind_eq_Some_conv split: if_splits)
  then show ?thesis using autocommit_step [OF u assms(2)] log_outside_tx by (auto split: if_splits)
qed

end

text \<open>The loop around \<open>send\<close> is one call, or undefined.\<close>

lemma is_send_loop_once:
  assumes "length dat = ISMESSAGE_SIZE"
  shows "is_send_loop net fd dat 0 n =
    (let (r, n1) = net_send net fd dat n in if 0 < r \<and> r < int ISMESSAGE_SIZE then None else Some (r, n1))"
proof -
  have "is_send_loop net fd dat r n1 = None" if "0 < r" for r n1
    using that assms by (subst is_send_loop.simps) simp
  then show ?thesis using assms
    by (subst is_send_loop.simps) (cases "net_send net fd dat n"; simp add: ISMESSAGE_SIZE_def)
qed

lemma fill_length: "fill arr bs = Some arr' \<Longrightarrow> length arr' = length arr"
  by (auto simp: fill_def split: if_splits)

lemma read_data_size:
  assumes "read_data_from_database pq is_clear w = Some (0, info, w')"
  shows "length (is_data info) = ISMESSAGE_SIZE"
  using assms by (auto simp: read_data_from_database_def is_clear_def Let_def bind_eq_Some_conv case_prod_beta dest!: fill_length
      split: if_splits)


text \<open>What a turn reports after a job was found, and in which state of the network and the log.\<close>

lemma send_to_remote_steps:
  assumes "send_to_remote cap pq net err info (w, n) = Some (w', n')" "length (is_data info) = ISMESSAGE_SIZE"
  obtains (failed) w1 where "update_status cap pq (is_uuid info) (-1) w1 = Some w'"
      "w1 = w \<or> (\<exists>fmt args. storelog pq fmt args w = Some w1)"
  | (sent) fd n1 n2 where "update_status cap pq (is_uuid info) 147 w = Some w'"
      "net_send net fd (is_data info) n1 = (147, n2)"
proof -
  obtain fd n1 where s: "net_socket net n = (fd, n1)" by (metis prod.exhaust)
  show thesis
  proof (cases "fd = -1")
    case True
    then show thesis using assms(1) s failed by (auto simp: send_to_remote_def bind_eq_Some_conv)
  next
    case False
    obtain c n2 where c: "net_connect net fd (ucast (is_port info)) (ucast (is_ipaddress info)) n1 = (c, n2)" by (metis prod.exhaust)
    show thesis
    proof (cases "c = -1")
      case True
      then show thesis using assms(1) s c False failed by (auto simp: send_to_remote_def bind_eq_Some_conv)
    next
      case ok: False
      obtain r n3 where r: "net_send net fd (is_data info) n2 = (r, n3)" by (metis prod.exhaust)
      note l = is_send_loop_once [OF assms(2), of net fd n2, unfolded r]
      have "update_status cap pq (is_uuid info) (if r \<noteq> 147 then -1 else r) w = Some w'"
        using assms(1) l by (auto simp: send_to_remote_def s c False ok bind_eq_Some_conv ISMESSAGE_SIZE_def split: if_splits)
      then show thesis using sent failed r by (cases "r = 147") auto
    qed
  qed
qed

lemma update_status_small: "update_status status_param_size pq uuid (-1) w = None" "update_status status_param_size pq uuid 147 w = None"
proof -
  have "length (dec (-1)) = 2" by (simp add: dec_def dec_nat.simps)
  moreover have "length (dec 147) = 3" by (simp add: dec_def dec_nat.simps)
  ultimately show "update_status status_param_size pq uuid (-1) w = None" "update_status status_param_size pq uuid 147 w = None"
    by (simp_all add: update_status_def sprintf_buf_def status_param_size_def)
qed


section \<open>On the server of \<open>Database\<close>\<close>

definition is_names :: "(string \<times> nat) set" where
  "is_names = set (List.map (\<lambda>(n, sql, k). (n, k)) dbs_is)"

lemma pick_min_text_Some: "pick_min_text k xs = Some x \<Longrightarrow> x \<in> set xs"
  by (induction xs arbitrary: x) (auto split: option.splits if_splits)

text \<open>Reading with a job to send, and without.\<close>

lemma initial_read_pg:
  assumes h: "healthy is_names c"
    and best: "pick_min_text (\<lambda>(si, js). jpriority js) (handshake_jobs (tabs c)) = Some (si, js)"
    and d: "distinct (List.map jobid (job_scheduler (tabs c)))"
    and u: "length (jobid js) = 36" "0 \<notin> set (jobid js)" and len: "length (jobdata js) \<le> ISMESSAGE_SIZE"
  shows "read_data_from_database pg is_clear \<lparr>conn = c, syslog = l\<rparr> =
    Some (0, \<lparr>is_port = atoi (dec (comssport si)), is_ipaddress = scast (atoi (dec (Database.ipaddress si))), is_uuid = jobid js @ [0],
      is_data = jobdata js @ replicate (ISMESSAGE_SIZE - length (jobdata js)) 0\<rparr>, \<lparr>conn = c, syslog = l\<rparr>)"
proof -
  have js: "js \<in> set (job_scheduler (tabs c))" using pick_min_text_Some [OF best] by (auto simp: handshake_jobs_def)
  let ?c1 = "c\<lparr>snapshot := Some (tabs c, logs c), tx_failed := False\<rparr>"
  have pr: "(''get_info'', 0) \<in> set (prepared c)" "(''get_data'', Suc 0) \<in> set (prepared c)"
    using h by (auto simp: healthy_def is_names_def dbs_is_def)
  have q: "PQexecPrepared pg ''get_info'' [] 0 \<lparr>conn = ?c1, syslog = l\<rparr> =
      (\<lparr>res_status = TUPLES_OK, res_rows = [[dec (comssport si), dec (Database.ipaddress si), jobid js]]\<rparr>, \<lparr>conn = ?c1, syslog = l\<rparr>)"
    using h pr best by (simp add: run_healthy healthy_def sql_ok_def is_query_def sql_rows_def sql_effect_def)
  have g: "PQexecPrepared pg ''get_data'' [Text (jobid js)] 1 \<lparr>conn = ?c1, syslog = l\<rparr> =
      (\<lparr>res_status = TUPLES_OK, res_rows = [[jobdata js]]\<rparr>, \<lparr>conn = ?c1, syslog = l\<rparr>)"
    using h pr u data_rows [OF d js] by (simp add: run_healthy healthy_def sql_ok_def is_query_def sql_rows_def sql_effect_def)
  have k: "commit pg ''initial sender'' \<lparr>conn = ?c1, syslog = l\<rparr> = Some (0, \<lparr>conn = c, syslog = l\<rparr>)"
    by (simp add: commit_def tx_healthy(2) [OF h] done_ok_def)
  have key: "text_param (jobid js @ [0]) = Some (Text (jobid js))"
    using u(2) by (simp add: text_param_def c_string_def cstr_append_nul)
  show ?thesis using u len
    by (simp add: read_data_from_database_def tx_healthy(1) [OF h] q g k key done_ok_def PQgetvalue_def PQntuples_def
        fill_def is_clear_def Let_def)
qed

lemma initial_read_none:
  assumes h: "healthy is_names c" and none: "handshake_jobs (tabs c) = []"
  shows "read_data_from_database pg is_clear \<lparr>conn = c, syslog = l\<rparr> = Some (-1, is_clear, \<lparr>conn = c, syslog = l\<rparr>)"
proof -
  let ?c1 = "c\<lparr>snapshot := Some (tabs c, logs c), tx_failed := False\<rparr>"
  have pr: "(''get_info'', 0) \<in> set (prepared c)" "(''storelog'', Suc 0) \<in> set (prepared c)"
    using h by (auto simp: healthy_def is_names_def dbs_is_def)
  have q: "PQexecPrepared pg ''get_info'' [] 0 \<lparr>conn = ?c1, syslog = l\<rparr> =
      (\<lparr>res_status = TUPLES_OK, res_rows = []\<rparr>, \<lparr>conn = ?c1, syslog = l\<rparr>)"
    using h pr none by (simp add: run_healthy healthy_def sql_ok_def is_query_def sql_rows_def sql_effect_def)
  have "\<exists>g. storelog pg ''%s%s'' [VStr (bytes ''retriving data for intial sender failed : ''), VStr (PQerrorMessage pg \<lparr>conn = ?c1, syslog = l\<rparr>)]
      \<lparr>conn = ?c1, syslog = l\<rparr> = Some \<lparr>conn = ?c1\<lparr>logs := g\<rparr>, syslog = l\<rparr>"
  proof -
    let ?m = "bytes ''retriving data for intial sender failed : ''" and ?e = "bytes ''ERROR:  command failed''"
    have e: "PQerrorMessage pg \<lparr>conn = ?c1, syslog = l\<rparr> = ?e" by (simp add: PQerrorMessage_def pg_def db_errmsg_def)
    have "length (cstr ?m @ cstr ?e) < 1000"
      using length_cstr_le [of ?m] length_cstr_le [of ?e] by (simp add: bytes_def)
    then show ?thesis using h pr
      by (simp add: storelog_text e run_healthy healthy_def sql_ok_def is_query_def sql_rows_def sql_effect_def) blast
  qed
  then obtain g where g: "storelog pg ''%s%s'' [VStr (bytes ''retriving data for intial sender failed : ''), VStr (PQerrorMessage pg \<lparr>conn = ?c1, syslog = l\<rparr>)]
      \<lparr>conn = ?c1, syslog = l\<rparr> = Some \<lparr>conn = ?c1\<lparr>logs := g\<rparr>, syslog = l\<rparr>" by (elim exE)
  have r: "rollback pg ''initial sender'' \<lparr>conn = ?c1\<lparr>logs := g\<rparr>, syslog = l\<rparr> = Some \<lparr>conn = c, syslog = l\<rparr>"
    by (simp add: rollback_def tx_healthy(3) [OF h] done_ok_def)
  show ?thesis using g r
    by (simp add: read_data_from_database_def tx_healthy(1) [OF h] q done_ok_def PQntuples_def)
qed

definition is_server :: "tables \<Rightarrow> server" where
  "is_server t = new_server t (List.map (\<lambda>(n, sql, k). (n, k)) dbs_is) []"

lemma is_server [simp]: "healthy is_names (is_server t)" "tabs (is_server t) = t" "snapshot (is_server t) = None"
  by (simp_all add: healthy_def is_server_def new_server_def is_names_def)

text \<open>The demo job as the first message of a handshake.\<close>

definition hello_tables :: tables where
  "hello_tables = demo_tables\<lparr>job_scheduler := [demo_root, demo_job\<lparr>jstate := ''S-5'', jobdata := replicate 147 65\<rparr>]\<rparr>"

lemma hello_best: "pick_min_text (\<lambda>(si, js). jpriority js) (handshake_jobs hello_tables) =
    Some (hd (sysinfo demo_tables), demo_job\<lparr>jstate := ''S-5'', jobdata := replicate 147 65\<rparr>)"
  by (simp add: hello_tables_def handshake_jobs_def demo_tables_def demo_root_def demo_job_def)

lemma hello_distinct: "distinct (List.map jobid (job_scheduler hello_tables))"
  by (simp add: hello_tables_def demo_root_def demo_job_def demo_uuid_def)


section \<open>Properties\<close>

text \<open>
  Claim C37: with the array of two bytes the code has, every turn of the initial sender that finds a job
  writes past \<open>status_param\<close>, on any server and network: a turn is defined only when no job was read,
  and then it changes nothing but the semaphore (and what reading left in the log).
\<close>

theorem initial_sender_overflows_on_every_job:
  assumes "pg_server pq tables saved failed effect" "saved (conn w) = None"
    and "run_server_once status_param_size pq net err (l, w, n) = Some (l', w', n')"
  shows "\<exists>info. read_data_from_database pq is_clear w = Some (-1, info, w') \<and> n' = n \<and> l = Suc l' \<and> tables (conn w') = tables (conn w)"
proof -
  obtain r info w1 where r: "read_data_from_database pq is_clear w = Some (r, info, w1)" and l: "l = Suc (l - 1)"
    using assms(3) by (cases l) (auto simp: run_server_once_def sem_wait_def bind_eq_Some_conv)
  note o = pg_server.initial_read_outcome [OF assms(1) r assms(2)]
  have "r = -1"
  proof (rule ccontr)
    assume "r \<noteq> -1"
    with o have "r = 0" by simp
    with r assms(3) obtain w2 n2 where s: "send_to_remote status_param_size pq net err info (w1, n) = Some (w2, n2)"
      by (auto simp: run_server_once_def bind_eq_Some_conv)
    have "length (is_data info) = ISMESSAGE_SIZE" using read_data_size r \<open>r = 0\<close> by blast
    from s this show False
      by (cases rule: send_to_remote_steps) (simp_all add: update_status_small)
  qed
  with r l o assms(3) show ?thesis by (cases l) (auto simp: run_server_once_def sem_wait_def)
qed

theorem initial_sender_overflows_on_every_job_witness:
  "run_server_once status_param_size pg tcp_net [] (1, \<lparr>conn = is_server demo_tables, syslog = []\<rparr>, fresh_net []) =
     Some (0, \<lparr>conn = is_server demo_tables, syslog = []\<rparr>, fresh_net []) \<and>
   (\<exists>info. read_data_from_database pg is_clear \<lparr>conn = is_server demo_tables, syslog = []\<rparr> =
     Some (-1, info, \<lparr>conn = is_server demo_tables, syslog = []\<rparr>))"
proof -
  have "handshake_jobs demo_tables = []" by (simp add: handshake_jobs_def demo_tables_def demo_root_def demo_job_def)
  then have r: "run_server_once status_param_size pg tcp_net [] (1, \<lparr>conn = is_server demo_tables, syslog = []\<rparr>, fresh_net []) =
      Some (0, \<lparr>conn = is_server demo_tables, syslog = []\<rparr>, fresh_net [])"
    using initial_read_none [of "is_server demo_tables" "[]"] by (simp add: run_server_once_def sem_wait_def)
  have n: "map_option fst (snapshot (conn \<lparr>conn = is_server demo_tables, syslog = []\<rparr>)) = None" by simp
  from initial_sender_overflows_on_every_job [OF db.pg_server_axioms n r] r show ?thesis by blast
qed



text \<open>An array of twelve bytes, which holds any int.\<close>

lemma hello_turn:
  "\<exists>n'. run_server_once 12 pg tcp_net [] (1, \<lparr>conn = is_server hello_tables, syslog = []\<rparr>, fresh_net []) =
    Some (0, \<lparr>conn = (is_server hello_tables)\<lparr>tabs := set_job_state demo_uuid (\<lambda>_. ''C'') hello_tables\<rparr>, syslog = []\<rparr>, n') \<and>
    bytes_on 9 n' = replicate 147 65"
proof -
  let ?w = "\<lparr>conn = is_server hello_tables, syslog = []\<rparr>"
  let ?js = "demo_job\<lparr>jstate := ''S-5'', jobdata := replicate 147 65\<rparr>"
  obtain info where r: "read_data_from_database pg is_clear ?w = Some (0, info, ?w)"
    and i: "is_uuid info = demo_uuid @ [0]" "is_data info = replicate 147 65"
    using initial_read_pg [of "is_server hello_tables" _ ?js "[]"] hello_best hello_distinct
    by (simp add: demo_job_def ISMESSAGE_SIZE_def)
  have p: "(''update_status'', Suc (Suc 0)) \<in> set (prepared (is_server hello_tables))"
    by (simp add: is_server_def new_server_def dbs_is_def numeral_2_eq_2)
  have d: "length (dec 147) = 3" "strtol (dec 147) = 147" by (simp add: dec_def dec_nat.simps) (rule strtol_dec)
  have f: "faults (is_server hello_tables) = []" "\<not> tx_failed (is_server hello_tables)" by (simp_all add: is_server_def new_server_def)
  have s: "update_status 12 pg (demo_uuid @ [0]) 147 ?w =
      Some \<lparr>conn = (is_server hello_tables)\<lparr>tabs := set_job_state demo_uuid (\<lambda>_. ''C'') hello_tables\<rparr>, syslog = []\<rparr>"
    using p f d
    by (simp add: run_healthy update_status_def sprintf_buf_def text_param_def c_string_def cstr_append_nul sql_ok_def is_query_def
        sql_effect_def sql_rows_def int_of_def)
  have l: "length (replicate 147 (65 :: byte)) = ISMESSAGE_SIZE" by (simp add: ISMESSAGE_SIZE_def)
  show ?thesis
    by (simp add: run_server_once_def sem_wait_def r send_to_remote_def is_send_loop_once [OF l] i ISMESSAGE_SIZE_def
        tcp_net_def tcp_send_def fresh_net_def s bytes_on_def)
qed


end
