(* ===== verification/InitialReceiver.thy ===== *)
theory InitialReceiver
  imports Receiver
begin

text \<open>
  \<open>initial_receiver.c\<close>: the process that listens for the first messages of other systems and stores each
  complete one as a new job.  The system calls are those of \<open>kernel\<close>, the reads of a blocking socket.
\<close>

definition IRMESSAGE_SIZE :: nat where
  "IRMESSAGE_SIZE = 147"

record ir_info =
  ir_port :: cint
  ir_servsoc_fd :: int
  ir_ipaddress :: "64 word"

text \<open>\<open>dbs\<close> of \<open>initial_receiver.h\<close>; runs of blanks in the SQL text are shortened.\<close>

definition dbs_ir :: "db_statement list" where
  "dbs_ir = [
    (''storelog'', ''INSERT INTO logs (log) VALUES ($1);'', 1),
    (''store_data'', ''INSERT INTO job_scheduler(jobdata, jstate, jtype, jsource, jobid, jparent_jobid, jdestination, jpriority) VALUES ($2, 'N-1', '0', $1, GEN_RANDOM_UUID(), (SELECT jobid from job_scheduler where jobid = jparent_jobid), 0, 5);'', 2)]"

lemma stmt_name_dbs_ir [simp]: "stmt_name dbs_ir (Suc 0) = ''store_data''"
  by (simp add: stmt_name_def dbs_ir_def)


section \<open>The code\<close>

text \<open>The data goes as a binary parameter of length \<open>strlen(data)\<close>: up to its first NUL.\<close>

definition ir_store_data :: "'c pq \<Rightarrow> int \<Rightarrow> byte list \<Rightarrow> 'c world \<Rightarrow> (int \<times> 'c world) option" where
  "ir_store_data pq client_socket dat w0 = do {
     fd \<leftarrow> sprintf_buf 11 (dec client_socket);
     text \<leftarrow> c_string dat;
     let (res, w1) = PQexecPrepared pq (stmt_name dbs_ir 1) [Text fd, Binary text] 0 w0;
     if res_status res \<noteq> COMMAND_OK then do {
       w2 \<leftarrow> storelog pq ''%s%s'' [VStr (bytes ''Message storing failed in initial receiver : ''), VStr (PQerrorMessage pq w1)] w1;
       Some (-1, w2) }
     else Some (0, w1) }"

text \<open>
  The loop around \<open>read\<close>: each call asks for 147 bytes at \<open>data + total_data_read\<close>; bytes that do not fit the
  array of 148 are undefined.
\<close>

function ir_read_loop :: "'k kernel \<Rightarrow> int \<Rightarrow> byte list \<Rightarrow> int \<Rightarrow> 'k \<Rightarrow> (int \<times> byte list \<times> 'k) option" where
  "ir_read_loop kn fd dat sofar k =
     (let ((data_read, bs), k1) = k_read kn fd (int IRMESSAGE_SIZE) k; sofar1 = sofar + data_read in
      do {
        dat1 \<leftarrow> (if data_read \<le> 0 then Some dat else put_bytes dat (nat sofar) bs);
        if sofar1 < int IRMESSAGE_SIZE \<and> data_read > 0 then ir_read_loop kn fd dat1 sofar1 k1
        else Some (sofar1, dat1, k1) })"
  by pat_completeness auto
termination by (relation "measure (\<lambda>(kn, fd, dat, sofar, k). nat (int IRMESSAGE_SIZE - sofar))") auto

declare ir_read_loop.simps [simp del]

text \<open>One connection, and one turn of the loop of \<open>run_server\<close>.\<close>

definition serve_client :: "'c pq \<Rightarrow> 'k kernel \<Rightarrow> int \<Rightarrow> 'c world \<times> 'k \<Rightarrow> ('c world \<times> 'k) option" where
  "serve_client pq kn client_socket = (\<lambda>(w, k). do {
     (total_data_read, dat, k1) \<leftarrow> ir_read_loop kn client_socket (replicate (IRMESSAGE_SIZE + 1) 0) 0 k;
     w1 \<leftarrow> (if total_data_read \<noteq> int IRMESSAGE_SIZE then
              storelog pq ''%s%d%s%d'' [VStr (bytes ''data receiving failure size : ''), int_arg total_data_read,
                VStr (bytes '', fd : ''), int_arg client_socket] w
            else map_option snd (retry (ir_store_data pq client_socket dat) 3 w));
     Some (w1, snd (k_close kn client_socket k1)) })"

definition run_server_once :: "'c pq \<Rightarrow> 'k kernel \<Rightarrow> ir_info \<Rightarrow> 'c world \<times> 'k \<Rightarrow> ('c world \<times> 'k) option" where
  "run_server_once pq kn info = (\<lambda>(w, k).
     let ((client_socket, client_addr), k1) = k_accept kn (ir_servsoc_fd info) k in
     if client_socket \<ge> 0 then serve_client pq kn client_socket (w, k1)
     else do {
       w1 \<leftarrow> storelog pq ''%s%s'' [VStr (bytes ''inital receiver failed to accept client connection : ''), VStr (k_strerror kn k1)] w;
       Some (w1, k1) })"

fun serve :: "nat \<Rightarrow> 'c pq \<Rightarrow> 'k kernel \<Rightarrow> ir_info \<Rightarrow> 'c world \<times> 'k \<Rightarrow> ('c world \<times> 'k) option" where
  "serve 0 pq kn info x = Some x"
| "serve (Suc n) pq kn info x = do { x1 \<leftarrow> run_server_once pq kn info x; serve n pq kn info x1 }"

text \<open>\<open>run_server\<close> up to \<open>n\<close> turns of its loop: it returns before the loop when the socket cannot be set up.\<close>

definition run_server :: "nat \<Rightarrow> 'c pq \<Rightarrow> 'k kernel \<Rightarrow> ir_info \<Rightarrow> 'c world \<times> 'k \<Rightarrow> ('c world \<times> 'k) option" where
  "run_server n pq kn info = (\<lambda>(w, k).
     let (fd, k1) = k_socket kn k; info1 = info\<lparr>ir_servsoc_fd := fd\<rparr> in
     if fd = -1 then do {
       w1 \<leftarrow> storelog pq ''%s%s'' [VStr (bytes ''intial receiver failed to create a socket for listening : ''), VStr (k_strerror kn k1)] w;
       Some (w1, k1) }
     else
       let (b, k2) = k_bind kn fd (htons (ucast (ir_port info))) (htonl (ucast (ir_ipaddress info))) k1 in
       if b = -1 then do {
         w1 \<leftarrow> storelog pq ''%s%s'' [VStr (bytes ''initial receiver failed to bind : ''), VStr (k_strerror kn k2)] w;
         Some (w1, k2) }
       else
         let (l, k3) = k_listen kn fd k2 in
         if l = -1 then do {
           w1 \<leftarrow> storelog pq ''%s%s'' [VStr (bytes ''initial receiver failed to listen : ''), VStr (k_strerror kn k3)] w;
           Some (w1, k3) }
         else serve n pq kn info1 (w, k3))"


section \<open>What a connection leaves in the tables\<close>

lemma cstr_zero_tail: "cstr (bs @ replicate n 0) = cstr bs"
  unfolding cstr_def by (induction bs) (auto simp: takeWhile_replicate)

context stream_source
begin

text \<open>When exactly one message has arrived, every split of it by \<open>read\<close> gives its bytes and their number.\<close>

lemma ir_read_exact:
  "length pre + length (pending fd k) = IRMESSAGE_SIZE \<Longrightarrow> pending fd k \<noteq> [] \<Longrightarrow>
   \<exists>k'. ir_read_loop kn fd (pre @ replicate (Suc (length (pending fd k))) 0) (int (length pre)) k =
      Some (int IRMESSAGE_SIZE, pre @ pending fd k @ [0], k') \<and> pending fd k' = []"
proof (induction "length (pending fd k)" arbitrary: pre k rule: less_induct)
  case less
  obtain r bs k1 where rd: "k_read kn fd (int IRMESSAGE_SIZE) k = ((r, bs), k1)" by (metis prod.exhaust)
  have n: "0 < int IRMESSAGE_SIZE" by (simp add: IRMESSAGE_SIZE_def)
  from read_some [OF rd n less.prems(2)] have r: "0 < r" "int (length bs) = r" and pd: "pending fd k = bs @ pending fd k1" by auto
  have z: "replicate (Suc (length (pending fd k))) (0 :: byte) = replicate (length bs) 0 @ replicate (Suc (length (pending fd k1))) 0"
    unfolding replicate_add [symmetric] by (simp add: pd del: replicate_Suc)
  have p: "put_bytes (pre @ replicate (Suc (length (pending fd k))) 0) (length pre) bs =
      Some ((pre @ bs) @ replicate (Suc (length (pending fd k1))) 0)"
    unfolding z by (simp add: put_bytes_def del: replicate_Suc)
  show ?case
  proof (cases "pending fd k1 = []")
    case True
    then have "int (length pre) + r = int IRMESSAGE_SIZE" using less.prems(1) pd r(2) by simp
    with True r rd p pd show ?thesis by (subst ir_read_loop.simps) simp
  next
    case False
    have len: "length (pre @ bs) + length (pending fd k1) = IRMESSAGE_SIZE" using less.prems(1) pd by simp
    have lt: "int (length pre) + r < int IRMESSAGE_SIZE" using less.prems(1) pd r(2) False by (cases "pending fd k1") auto
    have sh: "length (pending fd k1) < length (pending fd k)" using pd r by (cases bs) auto
    have eq: "int (length pre) + r = int (length (pre @ bs))" using r(2) by simp
    from less.hyps [OF sh len False] obtain k' where
      "ir_read_loop kn fd ((pre @ bs) @ replicate (Suc (length (pending fd k1))) 0) (int (length (pre @ bs))) k1 =
        Some (int IRMESSAGE_SIZE, (pre @ bs) @ pending fd k1 @ [0], k')" "pending fd k' = []" by blast
    with r(1) rd p pd lt show ?thesis by (subst ir_read_loop.simps) (simp add: eq)
  qed
qed

text \<open>A connection that ends before gives fewer than 147 bytes.\<close>

lemma ir_read_short:
  "length pre + length (pending fd k) < IRMESSAGE_SIZE \<Longrightarrow>
   \<exists>tot dat k'. ir_read_loop kn fd (pre @ replicate (IRMESSAGE_SIZE + 1 - length pre) 0) (int (length pre)) k = Some (tot, dat, k') \<and>
      tot < int IRMESSAGE_SIZE \<and> pending fd k' = []"
proof (induction "length (pending fd k)" arbitrary: pre k rule: less_induct)
  case less
  obtain r bs k1 where rd: "k_read kn fd (int IRMESSAGE_SIZE) k = ((r, bs), k1)" by (metis prod.exhaust)
  have n: "0 < int IRMESSAGE_SIZE" by (simp add: IRMESSAGE_SIZE_def)
  show ?case
  proof (cases "pending fd k = []")
    case True
    from read_none [OF rd n True] less.prems rd show ?thesis by (subst ir_read_loop.simps) auto
  next
    case False
    from read_some [OF rd n False] have r: "0 < r" "int (length bs) = r" and pd: "pending fd k = bs @ pending fd k1" by auto
    have len: "length (pre @ bs) + length (pending fd k1) < IRMESSAGE_SIZE" using less.prems pd by simp
    have p: "put_bytes (pre @ replicate (IRMESSAGE_SIZE + 1 - length pre) 0) (length pre) bs =
        Some ((pre @ bs) @ replicate (IRMESSAGE_SIZE + 1 - length (pre @ bs)) 0)"
      using len by (simp add: put_bytes_def)
    have lt: "int (length pre) + r < int IRMESSAGE_SIZE" using len r(2) by simp
    have sh: "length (pending fd k1) < length (pending fd k)" using pd r by (cases bs) auto
    have eq: "int (length pre) + r = int (length (pre @ bs))" using r(2) by simp
    from less.hyps [OF sh len] obtain tot dat k' where
      "ir_read_loop kn fd ((pre @ bs) @ replicate (IRMESSAGE_SIZE + 1 - length (pre @ bs)) 0) (int (length (pre @ bs))) k1 =
        Some (tot, dat, k')" "tot < int IRMESSAGE_SIZE" "pending fd k' = []" by blast
    with r(1) rd p lt show ?thesis by (subst ir_read_loop.simps) (simp add: eq)
  qed
qed

end


context pg_server
begin

lemma ir_store_stores:
  "stores (ir_store_data pq fd dat) (effect ''store_data'' [Text (dec fd), Binary (cstr dat)])"
  unfolding stores_def
proof (intro allI impI)
  fix w r w'
  let ?ps = "[Text (dec fd), Binary (cstr dat)]"
  assume a: "ir_store_data pq fd dat w = Some (r, w') \<and> saved (conn w) = None"
  obtain ru w1 where u: "PQexecPrepared pq ''store_data'' ?ps 0 w = (ru, w1)" by (cases "PQexecPrepared pq ''store_data'' ?ps 0 w")
  note k = command_kind [OF u] and s = autocommit_step [OF u]
  have "r = 0 \<and> w' = w1 \<and> res_status ru = COMMAND_OK \<or>
      r = -1 \<and> res_status ru \<noteq> COMMAND_OK \<and> (\<exists>fmt args. storelog pq fmt args w1 = Some w')"
    using a u by (auto simp: ir_store_data_def c_string_def bind_eq_Some_conv sprintf_buf_Some split: if_splits)
  then show "saved (conn w') = None \<and> (r = 0 \<and> tables (conn w') = effect ''store_data'' ?ps (tables (conn w)) \<or>
      r = -1 \<and> tables (conn w') = tables (conn w))"
    using a k s by (auto simp: is_query_def dest: log_outside_tx)
qed

end


section \<open>Properties\<close>

text \<open>
  Claim C29: the initial receiver stores a message of exactly 147 bytes as one new job, however \<open>read\<close>
  splits it: the tables gain one job with the descriptor as source and the message up to its first NUL
  as data, or (after three failures) stay as they are.  Fewer bytes store nothing.  No transaction stays open.
\<close>

theorem initial_receiver_stores_handshake:
  assumes "pg_server pq tables saved failed effect" "saved (conn w) = None" "stream_source kn pending"
    and "serve_client pq kn fd (w, k) = Some (w', k')"
  shows "(length (pending fd k) = IRMESSAGE_SIZE \<longrightarrow> saved (conn w') = None \<and>
      tables (conn w') \<in> {effect ''store_data'' [Text (dec fd), Binary (cstr (pending fd k))] (tables (conn w)), tables (conn w)}) \<and>
    (length (pending fd k) < IRMESSAGE_SIZE \<longrightarrow> saved (conn w') = None \<and> tables (conn w') = tables (conn w))"
proof (intro conjI impI)
  assume l: "length (pending fd k) = IRMESSAGE_SIZE"
  then have "pending fd k \<noteq> []" by (auto simp: IRMESSAGE_SIZE_def)
  from stream_source.ir_read_exact [OF assms(3) _ this, of "[]"] l obtain k1 where
    "ir_read_loop kn fd (replicate (IRMESSAGE_SIZE + 1) 0) 0 k = Some (int IRMESSAGE_SIZE, pending fd k @ [0], k1)"
    by (auto simp del: replicate_Suc)
  with assms(4) obtain r where "retry (ir_store_data pq fd (pending fd k @ [0])) 3 w = Some (r, w')"
    by (auto simp: serve_client_def bind_eq_Some_conv simp del: replicate_Suc)
  then have "saved (conn w') = None \<and> (tables (conn w') = effect ''store_data'' [Text (dec fd), Binary (cstr (pending fd k @ [0]))] (tables (conn w)) \<or>
      tables (conn w') = tables (conn w))"
    using pg_server.stores_retry [OF assms(1) pg_server.ir_store_stores [OF assms(1)], of fd "pending fd k @ [0]" 3] assms(2)
    unfolding pg_server.stores_def [OF assms(1)] by blast
  moreover have "cstr (pending fd k @ [0]) = cstr (pending fd k)" using cstr_zero_tail [of _ 1] by simp
  ultimately show "saved (conn w') = None"
    "tables (conn w') \<in> {effect ''store_data'' [Text (dec fd), Binary (cstr (pending fd k))] (tables (conn w)), tables (conn w)}"
    by auto
next
  assume "length (pending fd k) < IRMESSAGE_SIZE"
  with stream_source.ir_read_short [OF assms(3), of "[]" fd k] obtain tot dat k1 where
    "ir_read_loop kn fd (replicate (IRMESSAGE_SIZE + 1) 0) 0 k = Some (tot, dat, k1)" "tot < int IRMESSAGE_SIZE"
    by auto
  with assms(4) have "\<exists>fmt args. storelog pq fmt args w = Some w'"
    by (auto simp: serve_client_def bind_eq_Some_conv simp del: replicate_Suc)
  then show "saved (conn w') = None" "tables (conn w') = tables (conn w)"
    using pg_server.log_outside_tx [OF assms(1) _ assms(2)] by blast+
qed

definition ir_server :: server where
  "ir_server = new_server demo_tables (List.map (\<lambda>(n, sql, k). (n, k)) dbs_ir) []"

definition hello_feed :: feed where
  "hello_feed = kern (demo_rcv no_table (replicate 147 65))"

lemma ir_store_pg:
  assumes "0 \<le> fd" "fd < 100" "0 \<notin> set dat"
  shows "ir_store_data pg fd (dat @ [0]) \<lparr>conn = ir_server, syslog = []\<rparr> =
    Some (0, \<lparr>conn = ir_server\<lparr>tabs := insert_job (dec fd) dat demo_tables\<rparr>, syslog = []\<rparr>)"
proof -
  have p: "(''store_data'', Suc (Suc 0)) \<in> set (prepared ir_server)" "faults ir_server = []" "\<not> tx_failed ir_server"
    "tabs ir_server = demo_tables"
    by (simp_all add: ir_server_def new_server_def dbs_ir_def numeral_2_eq_2)
  have r: "length (root_jobs demo_tables) = 1"
    by (simp add: root_jobs_def demo_tables_def demo_root_def demo_job_def demo_uuid_def)
  have "length (dec fd) < 11" using length_dec [of 2 fd] assms(1,2) by simp
  then show ?thesis using p r assms(3)
    by (simp add: ir_store_data_def sprintf_buf_def c_string_def cstr_append_nul run_healthy sql_ok_def is_query_def sql_effect_def)
qed

theorem initial_receiver_stores_handshake_witness:
  "\<exists>w' k'. serve_client pg feed_kernel 9 (\<lparr>conn = ir_server, syslog = []\<rparr>, hello_feed) = Some (w', k') \<and>
    snapshot (conn w') = None \<and> jobdata (last (job_scheduler (tabs (conn w')))) = replicate 147 65"
proof -
  have l: "pending_on 9 hello_feed = replicate 147 65" by (simp add: hello_feed_def)
  obtain k1 where k1: "ir_read_loop feed_kernel 9 (replicate (IRMESSAGE_SIZE + 1) 0) 0 hello_feed =
      Some (int IRMESSAGE_SIZE, replicate 147 65 @ [0], k1)"
    using feed.ir_read_exact [of "[]" 9 hello_feed] unfolding l by (auto simp: IRMESSAGE_SIZE_def simp del: replicate_Suc)
  let ?w' = "\<lparr>conn = ir_server\<lparr>tabs := insert_job (dec 9) (replicate 147 65) demo_tables\<rparr>, syslog = []\<rparr>"
  have "retry (ir_store_data pg 9 (replicate 147 65 @ [0])) 3 \<lparr>conn = ir_server, syslog = []\<rparr> = Some (0, ?w')"
    by (rule retry_ok, rule ir_store_pg) simp_all
  with k1 have s: "serve_client pg feed_kernel 9 (\<lparr>conn = ir_server, syslog = []\<rparr>, hello_feed) = Some (?w', k1\<lparr>gone := gone k1 @ [9]\<rparr>)"
    by (simp add: serve_client_def del: replicate_Suc)
  have n: "map_option fst (snapshot (conn \<lparr>conn = ir_server, syslog = []\<rparr>)) = None" by (simp add: ir_server_def new_server_def)
  have "map_option fst (snapshot (conn ?w')) = None"
    using initial_receiver_stores_handshake [OF db.pg_server_axioms n feed.stream_source_axioms s] l by (simp add: IRMESSAGE_SIZE_def)
  with s show ?thesis by (auto simp: insert_job_def)
qed

end
