(* ===== verification/SendingSide.thy ===== *)
theory SendingSide
  imports Sender
begin

text \<open>
  \<open>processor_s\<close> and \<open>sender\<close> running at the same time.  A step is what one process does between two
  operations on a semaphore another process uses: taking a lock, the code under the lock, giving it
  back, waiting for a signal.  The three exchanges of \<open>processor_s\<close> and the two readers of \<open>sender\<close> are
  split that way; handling an instruction or a message, which takes the lock of the communication block for the
  report, is one step, possible when the lock is free.

  The invariant gives mutual exclusion and that no signal is lost: a process that sleeps on its
  semaphore has no message waiting for it.
\<close>

section \<open>States and steps\<close>

datatype exchange = Read | Hand | Give
datatype place = Want | In | Out

datatype ppc = P_wait | P_at exchange place

text \<open>The sender carries what its readers returned: the slot, and the bytes.\<close>

datatype spc =
    S_wait
  | S_msg place int "byte list"
  | S_act int "byte list"
  | S_dat place int int "byte list"
  | S_send int "byte list"

record ('c, 'n) node =
  sh :: s_shared
  wd :: "'c world"
  nt :: 'n
  pp :: ppc
  sp :: spc

definition lock_of :: "exchange \<Rightarrow> s_shared \<Rightarrow> nat" where
  "lock_of e s = (case e of Give \<Rightarrow> sem_lock_datas s | _ \<Rightarrow> sem_lock_comms s)"

definition set_lock :: "exchange \<Rightarrow> nat \<Rightarrow> s_shared \<Rightarrow> s_shared" where
  "set_lock e l s = (case e of Give \<Rightarrow> s\<lparr>sem_lock_datas := l\<rparr> | _ \<Rightarrow> s\<lparr>sem_lock_comms := l\<rparr>)"

definition body :: "'c pq \<Rightarrow> byte list \<Rightarrow> exchange \<Rightarrow> s_shared \<times> 'c world \<Rightarrow> (s_shared \<times> 'c world) option" where
  "body pq junk e = (case e of Read \<Rightarrow> read_msg_locked pq | Hand \<Rightarrow> ProcessorS.send_msg_locked pq junk | Give \<Rightarrow> ProcessorS.give_data_locked pq)"

definition after :: "exchange \<Rightarrow> ppc" where
  "after e = (case e of Read \<Rightarrow> P_at Hand Want | Hand \<Rightarrow> P_at Give Want | Give \<Rightarrow> P_wait)"

inductive pstep :: "'c pq \<Rightarrow> byte list \<Rightarrow> ('c, 'n) node \<Rightarrow> ('c, 'n) node \<Rightarrow> bool" for pq junk where
  wake: "pp x = P_wait \<Longrightarrow> sem_wait (sem_lock_sigps (sh x)) = Some l \<Longrightarrow>
    pstep pq junk x (x\<lparr>sh := (sh x)\<lparr>sem_lock_sigps := l\<rparr>, pp := P_at Read Want\<rparr>)"
| lock: "pp x = P_at e Want \<Longrightarrow> sem_wait (lock_of e (sh x)) = Some l \<Longrightarrow>
    pstep pq junk x (x\<lparr>sh := set_lock e l (sh x), pp := P_at e In\<rparr>)"
| body: "pp x = P_at e In \<Longrightarrow> body pq junk e (sh x, wd x) = Some (s', w') \<Longrightarrow>
    pstep pq junk x (x\<lparr>sh := s', wd := w', pp := P_at e Out\<rparr>)"
| unlock: "pp x = P_at e Out \<Longrightarrow>
    pstep pq junk x (x\<lparr>sh := set_lock e (sem_post (lock_of e (sh x))) (sh x), pp := after e\<rparr>)"

inductive sstep :: "'n net \<Rightarrow> ('c, 'n) node \<Rightarrow> ('c, 'n) node \<Rightarrow> bool" for net where
  wake: "sp x = S_wait \<Longrightarrow> sem_wait (sem_lock_sigs (sh x)) = Some l \<Longrightarrow>
    sstep net x (x\<lparr>sh := (sh x)\<lparr>sem_lock_sigs := l\<rparr>, sp := S_msg Want 0 []\<rparr>)"
| lock_msg: "sp x = S_msg Want k d \<Longrightarrow> sem_wait (sem_lock_comms (sh x)) = Some l \<Longrightarrow>
    sstep net x (x\<lparr>sh := (sh x)\<lparr>sem_lock_comms := l\<rparr>, sp := S_msg In k d\<rparr>)"
| get_msg: "sp x = S_msg In k d \<Longrightarrow> Sender.get_message_locked (sh x) = Some (k', d', s') \<Longrightarrow>
    sstep net x (x\<lparr>sh := s', sp := S_msg Out k' d'\<rparr>)"
| unlock_msg: "sp x = S_msg Out k d \<Longrightarrow>
    sstep net x (x\<lparr>sh := (sh x)\<lparr>sem_lock_comms := sem_post (sem_lock_comms (sh x))\<rparr>, sp := S_act k d\<rparr>)"
| act: "sp x = S_act k d \<Longrightarrow> k \<noteq> -1 \<Longrightarrow> handle_instruction net d (sh x, nt x) = Some (s', n') \<Longrightarrow>
    sstep net x (x\<lparr>sh := s', nt := n', sp := S_dat Want k 0 []\<rparr>)"
| skip: "sp x = S_act k d \<Longrightarrow> k = -1 \<Longrightarrow> sstep net x (x\<lparr>sp := S_dat Want k 0 []\<rparr>)"
| lock_dat: "sp x = S_dat Want k j r \<Longrightarrow> sem_wait (sem_lock_datas (sh x)) = Some l \<Longrightarrow>
    sstep net x (x\<lparr>sh := (sh x)\<lparr>sem_lock_datas := l\<rparr>, sp := S_dat In k j r\<rparr>)"
| get_dat: "sp x = S_dat In k j r \<Longrightarrow> Sender.get_data_locked (sh x) = Some (j', r', s') \<Longrightarrow>
    sstep net x (x\<lparr>sh := s', sp := S_dat Out k j' r'\<rparr>)"
| unlock_dat: "sp x = S_dat Out k j r \<Longrightarrow>
    sstep net x (x\<lparr>sh := (sh x)\<lparr>sem_lock_datas := sem_post (sem_lock_datas (sh x))\<rparr>, sp := S_send j r\<rparr>)"
| send: "sp x = S_send j r \<Longrightarrow> j \<noteq> -1 \<Longrightarrow> handle_data net r (sh x, nt x) = Some (s', n') \<Longrightarrow>
    sstep net x (x\<lparr>sh := s', nt := n', sp := S_wait\<rparr>)"
| rest: "sp x = S_send j r \<Longrightarrow> j = -1 \<Longrightarrow> sstep net x (x\<lparr>sp := S_wait\<rparr>)"

definition node_step :: "'c pq \<Rightarrow> byte list \<Rightarrow> 'n net \<Rightarrow> ('c, 'n) node \<Rightarrow> ('c, 'n) node \<Rightarrow> bool" where
  "node_step pq junk net x y \<longleftrightarrow> pstep pq junk x y \<or> sstep net x y"

text \<open>Both processes before their loops, the blocks empty, the locks free.\<close>

definition start :: "('c \<Rightarrow> 't option) \<Rightarrow> ('c, 'n) node \<Rightarrow> bool" where
  "start saved x \<longleftrightarrow> pp x = P_wait \<and> sp x = S_wait \<and> sem_lock_comms (sh x) = 1 \<and> sem_lock_datas (sh x) = 1 \<and>
     saved (conn (wd x)) = None \<and> contents CPARTITION_SIZE 1 (comms_block (sh x)) = {#} \<and>
     contents CPARTITION_SIZE 2 (comms_block (sh x)) = {#} \<and> contents DPARTITION_SIZE 3 (datas_block (sh x)) = {#}"

inductive reachable :: "'c pq \<Rightarrow> byte list \<Rightarrow> 'n net \<Rightarrow> ('c \<Rightarrow> 't option) \<Rightarrow> ('c, 'n) node \<Rightarrow> bool" for pq junk net saved where
  init: "start saved x \<Longrightarrow> reachable pq junk net saved x"
| more: "reachable pq junk net saved x \<Longrightarrow> node_step pq junk net x y \<Longrightarrow> reachable pq junk net saved y"


section \<open>One process alone\<close>

text \<open>The steps of one process, run without the other, are the turns of its loop.\<close>

lemma exchange_steps:
  assumes "do { l \<leftarrow> sem_wait (lock_of e s); (s1, w1) \<leftarrow> body pq junk e (set_lock e l s, w);
             Some (set_lock e (sem_post (lock_of e s1)) s1, w1) } = Some (s', w')"
    and "pp x = P_at e Want" "sh x = s" "wd x = w"
  shows "(pstep pq junk)\<^sup>*\<^sup>* x (x\<lparr>sh := s', wd := w', pp := after e\<rparr>)"
proof -
  obtain l s1 where l: "sem_wait (lock_of e s) = Some l" and b: "body pq junk e (set_lock e l s, w) = Some (s1, w')"
    and s': "s' = set_lock e (sem_post (lock_of e s1)) s1"
    using assms(1) by (auto simp: bind_eq_Some_conv)
  let ?x1 = "x\<lparr>sh := set_lock e l s, pp := P_at e In\<rparr>" and ?x2 = "x\<lparr>sh := s1, wd := w', pp := P_at e Out\<rparr>"
  have "pstep pq junk x ?x1" using pstep.lock [OF assms(2), of l] l assms(3) by simp
  moreover have "pstep pq junk ?x1 ?x2" using pstep.body [of ?x1 e] b assms(4) by simp
  moreover have "pstep pq junk ?x2 (x\<lparr>sh := s', wd := w', pp := after e\<rparr>)" using pstep.unlock [of ?x2 e pq junk] s' by (cases x) simp
  ultimately show ?thesis by (meson converse_rtranclp_into_rtranclp rtranclp.rtrancl_refl)
qed

lemma exchange_code:
  "read_msg_from_sender pq (s, w) = do { l \<leftarrow> sem_wait (lock_of Read s); (s1, w1) \<leftarrow> body pq junk Read (set_lock Read l s, w);
     Some (set_lock Read (sem_post (lock_of Read s1)) s1, w1) }"
  "send_msg_to_sender pq junk (s, w) = do { l \<leftarrow> sem_wait (lock_of Hand s); (s1, w1) \<leftarrow> body pq junk Hand (set_lock Hand l s, w);
     Some (set_lock Hand (sem_post (lock_of Hand s1)) s1, w1) }"
  "give_data_to_sender pq (s, w) = do { l \<leftarrow> sem_wait (lock_of Give s); (s1, w1) \<leftarrow> body pq junk Give (set_lock Give l s, w);
     Some (set_lock Give (sem_post (lock_of Give s1)) s1, w1) }"
  by (simp_all add: read_msg_from_sender_def send_msg_to_sender_def give_data_to_sender_def lock_of_def set_lock_def body_def)

lemma run_process_once_path:
  assumes "ProcessorS.run_process_once pq junk (sh x, wd x) = Some (s', w')" "pp x = P_wait"
  shows "(pstep pq junk)\<^sup>*\<^sup>* x (x\<lparr>sh := s', wd := w'\<rparr>)"
proof -
  obtain l s1 w1 s2 w2 where l: "sem_wait (sem_lock_sigps (sh x)) = Some l"
    and 1: "read_msg_from_sender pq ((sh x)\<lparr>sem_lock_sigps := l\<rparr>, wd x) = Some (s1, w1)"
    and 2: "send_msg_to_sender pq junk (s1, w1) = Some (s2, w2)" and 3: "give_data_to_sender pq (s2, w2) = Some (s', w')"
    using assms(1) by (auto simp: ProcessorS.run_process_once_def bind_eq_Some_conv)
  let ?x0 = "x\<lparr>sh := (sh x)\<lparr>sem_lock_sigps := l\<rparr>, pp := P_at Read Want\<rparr>"
  let ?x1 = "x\<lparr>sh := s1, wd := w1, pp := P_at Hand Want\<rparr>" and ?x2 = "x\<lparr>sh := s2, wd := w2, pp := P_at Give Want\<rparr>"
  have "pstep pq junk x ?x0" using assms(2) l by (rule pstep.wake)
  also have "(pstep pq junk)\<^sup>*\<^sup>* ?x0 ?x1"
    using exchange_steps [OF 1 [unfolded exchange_code(1) [of pq _ _ junk]], of ?x0] by (simp add: after_def)
  also have "(pstep pq junk)\<^sup>*\<^sup>* ?x1 ?x2"
    using exchange_steps [OF 2 [unfolded exchange_code(2)], of ?x1] by (simp add: after_def)
  also have "(pstep pq junk)\<^sup>*\<^sup>* ?x2 (x\<lparr>sh := s', wd := w', pp := P_wait\<rparr>)"
    using exchange_steps [OF 3 [unfolded exchange_code(3) [of pq _ _ junk]], of ?x2] by (simp add: after_def)
  finally show ?thesis using assms(2) by (cases x) simp
qed


lemma run_sender_once_path:
  assumes "run_sender_once net (sh x, nt x) = Some (s', n')" "sp x = S_wait"
  shows "(sstep net)\<^sup>*\<^sup>* x (x\<lparr>sh := s', nt := n'\<rparr>)"
proof -
  obtain l l1 k d s1 where l: "sem_wait (sem_lock_sigs (sh x)) = Some l"
    "sem_wait (sem_lock_comms (sh x)) = Some l1"
    "Sender.get_message_locked ((sh x)\<lparr>sem_lock_sigs := l, sem_lock_comms := l1\<rparr>) = Some (k, d, s1)"
    using assms(1) by (auto simp: run_sender_once_def get_message_from_processor_def bind_eq_Some_conv)
  let ?s1 = "s1\<lparr>sem_lock_comms := sem_post (sem_lock_comms s1)\<rparr>"
  obtain s2 n2 l2 j r s3 where h: "(if k \<noteq> -1 then handle_instruction net d (?s1, nt x) else Some (?s1, nt x)) = Some (s2, n2)"
    and l2: "sem_wait (sem_lock_datas s2) = Some l2" and g: "Sender.get_data_locked (s2\<lparr>sem_lock_datas := l2\<rparr>) = Some (j, r, s3)"
    and f: "(if j \<noteq> -1 then handle_data net r (s3\<lparr>sem_lock_datas := sem_post (sem_lock_datas s3)\<rparr>, n2)
             else Some (s3\<lparr>sem_lock_datas := sem_post (sem_lock_datas s3)\<rparr>, n2)) = Some (s', n')"
    using assms(1) l by (auto simp: run_sender_once_def get_message_from_processor_def get_data_from_processor_def bind_eq_Some_conv)
  let ?s3 = "s3\<lparr>sem_lock_datas := sem_post (sem_lock_datas s3)\<rparr>"
  let ?x1 = "x\<lparr>sh := (sh x)\<lparr>sem_lock_sigs := l\<rparr>, sp := S_msg Want 0 []\<rparr>"
  let ?x2 = "x\<lparr>sh := (sh x)\<lparr>sem_lock_sigs := l, sem_lock_comms := l1\<rparr>, sp := S_msg In 0 []\<rparr>"
  let ?x3 = "x\<lparr>sh := s1, sp := S_msg Out k d\<rparr>" and ?x4 = "x\<lparr>sh := ?s1, sp := S_act k d\<rparr>"
  let ?x5 = "x\<lparr>sh := s2, nt := n2, sp := S_dat Want k 0 []\<rparr>"
  let ?x6 = "x\<lparr>sh := s2\<lparr>sem_lock_datas := l2\<rparr>, nt := n2, sp := S_dat In k 0 []\<rparr>"
  let ?x7 = "x\<lparr>sh := s3, nt := n2, sp := S_dat Out k j r\<rparr>" and ?x8 = "x\<lparr>sh := ?s3, nt := n2, sp := S_send j r\<rparr>"
  have "sstep net x ?x1" using assms(2) l(1) by (rule sstep.wake)
  moreover have "sstep net ?x1 ?x2" using sstep.lock_msg [of ?x1] l(2) by simp
  moreover have "sstep net ?x2 ?x3" using sstep.get_msg [of ?x2] l(3) by simp
  moreover have "sstep net ?x3 ?x4" using sstep.unlock_msg [of ?x3] by simp
  moreover have "sstep net ?x4 ?x5"
    using sstep.act [of ?x4 k d net s2 n2] sstep.skip [of ?x4 k d net] h by (cases x) (auto split: if_splits)
  ultimately have first: "(sstep net)\<^sup>*\<^sup>* x ?x5" by (meson converse_rtranclp_into_rtranclp rtranclp.rtrancl_refl)
  have "sstep net ?x5 ?x6" using sstep.lock_dat [of ?x5 k 0 "[]" l2 net] l2 by (cases x) simp
  moreover have "sstep net ?x6 ?x7" using sstep.get_dat [of ?x6 k 0 "[]" j r s3 net] g by (cases x) simp
  moreover have "sstep net ?x7 ?x8" using sstep.unlock_dat [of ?x7 k j r net] by (cases x) simp
  moreover have "sstep net ?x8 (x\<lparr>sh := s', nt := n', sp := S_wait\<rparr>)"
    using sstep.send [of ?x8 j r net s' n'] sstep.rest [of ?x8 j r net] f by (cases x) (auto split: if_splits)
  ultimately have "(sstep net)\<^sup>*\<^sup>* ?x5 (x\<lparr>sh := s', nt := n', sp := S_wait\<rparr>)"
    by (meson converse_rtranclp_into_rtranclp rtranclp.rtrancl_refl)
  with first have "(sstep net)\<^sup>*\<^sup>* x (x\<lparr>sh := s', nt := n', sp := S_wait\<rparr>)" by (rule rtranclp_trans)
  then show ?thesis using assms(2) by (cases x) simp
qed


section \<open>What the steps do to the numbers of messages\<close>

definition instrs :: "s_shared \<Rightarrow> nat" where
  "instrs s = size (contents CPARTITION_SIZE 1 (comms_block s))"

definition reports :: "s_shared \<Rightarrow> nat" where
  "reports s = size (contents CPARTITION_SIZE 2 (comms_block s))"

definition datas :: "s_shared \<Rightarrow> nat" where
  "datas s = size (contents DPARTITION_SIZE 3 (datas_block s))"

lemmas counts = instrs_def reports_def datas_def

lemma counts_locks [simp]:
  "instrs (s\<lparr>sem_lock_comms := l\<rparr>) = instrs s" "reports (s\<lparr>sem_lock_comms := l\<rparr>) = reports s" "datas (s\<lparr>sem_lock_comms := l\<rparr>) = datas s"
  "instrs (s\<lparr>sem_lock_datas := l\<rparr>) = instrs s" "reports (s\<lparr>sem_lock_datas := l\<rparr>) = reports s" "datas (s\<lparr>sem_lock_datas := l\<rparr>) = datas s"
  "instrs (s\<lparr>sem_lock_sigs := l\<rparr>) = instrs s" "reports (s\<lparr>sem_lock_sigs := l\<rparr>) = reports s" "datas (s\<lparr>sem_lock_sigs := l\<rparr>) = datas s"
  "instrs (s\<lparr>sem_lock_sigps := l\<rparr>) = instrs s" "reports (s\<lparr>sem_lock_sigps := l\<rparr>) = reports s" "datas (s\<lparr>sem_lock_sigps := l\<rparr>) = datas s"
  "instrs (s\<lparr>datas_block := b\<rparr>) = instrs s" "reports (s\<lparr>datas_block := b\<rparr>) = reports s" "datas (s\<lparr>comms_block := b\<rparr>) = datas s"
  by (simp_all add: counts)

definition same_locks :: "s_shared \<Rightarrow> s_shared \<Rightarrow> bool" where
  "same_locks s s' \<longleftrightarrow> sem_lock_comms s' = sem_lock_comms s \<and> sem_lock_datas s' = sem_lock_datas s"

text \<open>The exchanges of the processor: a report is taken if there is one; a message comes with a signal.\<close>

lemma body_read:
  assumes "pg_server pq tables saved failed effect" "body pq junk Read (s, w) = Some (s', w')" "saved (conn w) = None"
  shows "saved (conn w') = None \<and> same_locks s s' \<and> instrs s' = instrs s \<and> datas s' = datas s \<and>
    sem_lock_sigs s' = sem_lock_sigs s \<and> sem_lock_sigps s' = sem_lock_sigps s \<and>
    (reports s = 0 \<and> reports s' = 0 \<or> reports s = Suc (reports s'))"
proof -
  have c: "read_msg_locked pq (s, w) = Some (s', w')" using assms(2) by (simp add: body_def)
  from pg_server.read_msg_outcome [OF assms(1) c assms(3)] show ?thesis
    by (elim conjE disjE exE) (simp_all add: counts same_locks_def del: size_contents)
qed

lemma body_offer:
  assumes "pg_server pq tables saved failed effect" "body pq junk e (s, w) = Some (s', w')" "saved (conn w) = None" "e \<noteq> Read"
  shows "saved (conn w') = None \<and> same_locks s s' \<and> reports s' = reports s \<and> sem_lock_sigps s' = sem_lock_sigps s \<and>
    (\<exists>a b. a \<le> b \<and> instrs s' = instrs s + a \<and> instrs s' + datas s' = instrs s + datas s + b \<and> sem_lock_sigs s' = sem_lock_sigs s + b)"
proof (cases e)
  case Hand
  then have c: "ProcessorS.send_msg_locked pq junk (s, w) = Some (s', w')" using assms(2) by (simp add: body_def)
  from pg_server.send_msg_outcome [OF assms(1) c assms(3)] show ?thesis
    by (elim conjE disjE exE) (simp_all add: counts same_locks_def del: size_contents)
next
  case Give
  then have c: "ProcessorS.give_data_locked pq (s, w) = Some (s', w')" using assms(2) by (simp add: body_def)
  from pg_server.give_data_outcome [OF assms(1) c assms(3)] show ?thesis
    by (elim conjE disjE exE) (simp_all add: counts same_locks_def del: size_contents)
qed (use assms(4) in simp)

text \<open>The readers of the sender take a message if there is one; a report comes with a signal.\<close>

lemma get_message_counts:
  assumes "Sender.get_message_locked s = Some (k, d, s')"
  shows "same_locks s s' \<and> reports s' = reports s \<and> datas s' = datas s \<and> sem_lock_sigs s' = sem_lock_sigs s \<and>
    sem_lock_sigps s' = sem_lock_sigps s \<and> (k = -1 \<and> instrs s = 0 \<and> s' = s \<or> k \<noteq> -1 \<and> instrs s = Suc (instrs s'))"
proof (cases rule: used_slot_cases [where block = "comms_block s" and type = 1])
  case none
  then have "contents CPARTITION_SIZE 1 (comms_block s) = {#}"
    by (simp add: contents_empty_iff get_subblock_used_iff [symmetric])
  with none assms show ?thesis by (simp add: Sender.get_message_locked_def counts same_locks_def)
next
  case (some j)
  then have "k = int j" and s': "s' = s\<lparr>comms_block := flip j (comms_block s)\<rparr>"
    using assms by (auto simp: Sender.get_message_locked_def Let_def toggle_bit_flip)
  moreover have "contents CPARTITION_SIZE 1 (comms_block s) =
      add_mset (slot_bytes CPARTITION_SIZE (comms_block s) j) (contents CPARTITION_SIZE 1 (flip j (comms_block s)))"
    using contents_take [of j 1 "comms_block s" CPARTITION_SIZE] some by simp
  moreover have "contents CPARTITION_SIZE 2 (flip j (comms_block s)) = contents CPARTITION_SIZE 2 (comms_block s)"
    using some halves_disjoint by (intro contents_flip_other) auto
  ultimately show ?thesis by (simp add: counts same_locks_def del: size_contents)
qed

lemma get_data_counts:
  assumes "Sender.get_data_locked s = Some (k, r, s')"
  shows "same_locks s s' \<and> reports s' = reports s \<and> instrs s' = instrs s \<and> sem_lock_sigs s' = sem_lock_sigs s \<and>
    sem_lock_sigps s' = sem_lock_sigps s \<and> (k = -1 \<and> datas s = 0 \<and> s' = s \<or> k \<noteq> -1 \<and> datas s = Suc (datas s'))"
proof (cases rule: used_slot_cases [where block = "datas_block s" and type = 3])
  case none
  then have "contents DPARTITION_SIZE 3 (datas_block s) = {#}"
    by (simp add: contents_empty_iff get_subblock_used_iff [symmetric])
  with none assms show ?thesis by (simp add: Sender.get_data_locked_def counts same_locks_def)
next
  case (some j)
  then have "k = int j" and s': "s' = s\<lparr>datas_block := flip j (datas_block s)\<rparr>"
    using assms by (auto simp: Sender.get_data_locked_def Let_def toggle_bit_flip)
  moreover have "contents DPARTITION_SIZE 3 (datas_block s) =
      add_mset (slot_bytes DPARTITION_SIZE (datas_block s) j) (contents DPARTITION_SIZE 3 (flip j (datas_block s)))"
    using contents_take [of j 3 "datas_block s" DPARTITION_SIZE] some by simp
  ultimately show ?thesis by (simp add: counts same_locks_def del: size_contents)
qed

definition reported :: "s_shared \<Rightarrow> s_shared \<Rightarrow> bool" where
  "reported s s' \<longleftrightarrow> same_locks s s' \<and> instrs s' = instrs s \<and> datas_block s' = datas_block s \<and> sem_lock_sigs s' = sem_lock_sigs s \<and>
     (sem_lock_comms s = 0 \<longrightarrow> s' = s) \<and> (\<exists>c. reports s' = reports s + c \<and> sem_lock_sigps s' = sem_lock_sigps s + c)"

lemma send_message_reported:
  assumes "Sender.send_message_to_processor type msg s = Some s'"
  shows "reported s s'"
proof -
  obtain l where "sem_lock_comms s = Suc l"
    using assms by (cases "sem_lock_comms s") (auto simp: Sender.send_message_to_processor_def sem_wait_def)
  then show ?thesis
  proof (cases rule: send_message_cases [where type = type and msg = msg])
    case full
    then show ?thesis using assms by (simp add: reported_def same_locks_def)
  next
    case (sent b)
    then have "s' = s\<lparr>comms_block := b, sem_lock_sigps := sem_lock_sigps s + 1\<rparr>" using assms by simp
    with sent show ?thesis using \<open>sem_lock_comms s = Suc l\<close> by (simp add: reported_def same_locks_def counts del: size_contents)
  qed
qed

lemma handle_reported:
  "handle_instruction net d (s, n) = Some (s', n') \<Longrightarrow> reported s s'"
  "handle_data net r (s, n) = Some (s', n') \<Longrightarrow> reported s s'"
proof -
  have same: "reported s s" by (simp add: reported_def same_locks_def)
  show "handle_instruction net d (s, n) = Some (s', n') \<Longrightarrow> reported s s'"
    using same by (auto simp: handle_instruction_def Let_def bind_eq_Some_conv dest!: send_message_reported split: if_splits prod.splits)
  show "handle_data net r (s, n) = Some (s', n') \<Longrightarrow> reported s s'"
    by (auto simp: handle_data_def Let_def bind_eq_Some_conv dest!: send_message_reported)
qed


section \<open>The invariant\<close>

text \<open>Whether a process holds the lock of the communication block, and of the data block.\<close>

fun p_comms :: "ppc \<Rightarrow> nat" where
  "p_comms P_wait = 0"
| "p_comms (P_at e pl) = (if e \<noteq> Give \<and> pl \<noteq> Want then 1 else 0)"

fun p_datas :: "ppc \<Rightarrow> nat" where
  "p_datas P_wait = 0"
| "p_datas (P_at e pl) = (if e = Give \<and> pl \<noteq> Want then 1 else 0)"

fun s_comms :: "spc \<Rightarrow> nat" where
  "s_comms (S_msg pl k d) = (if pl \<noteq> Want then 1 else 0)"
| "s_comms _ = 0"

fun s_datas :: "spc \<Rightarrow> nat" where
  "s_datas (S_dat pl k j r) = (if pl \<noteq> Want then 1 else 0)"
| "s_datas _ = 0"

text \<open>
  How the messages for the sender compare with the signals: a sender that sleeps has a signal for each;
  one that took a signal may leave one uncovered until it has looked into both blocks.
\<close>

definition after_msg :: "int \<Rightarrow> nat \<Rightarrow> nat \<Rightarrow> nat \<Rightarrow> bool" where
  "after_msg k i d n \<longleftrightarrow> (if k = -1 then i + d \<le> n + 1 \<and> i \<le> n else i + d \<le> n)"

fun sig_ok :: "spc \<Rightarrow> nat \<Rightarrow> nat \<Rightarrow> nat \<Rightarrow> bool" where
  "sig_ok S_wait i d n = (i + d \<le> n)"
| "sig_ok (S_msg pl k b) i d n = (if pl = Out then after_msg k i d n else i + d \<le> n + 1)"
| "sig_ok (S_act k b) i d n = after_msg k i d n"
| "sig_ok (S_dat pl k j r) i d n = (if pl = Out then i + d \<le> n else after_msg k i d n)"
| "sig_ok (S_send j r) i d n = (i + d \<le> n)"

fun rep_ok :: "ppc \<Rightarrow> nat \<Rightarrow> nat \<Rightarrow> bool" where
  "rep_ok P_wait r n = (r \<le> n)"
| "rep_ok (P_at e pl) r n = (if e = Read \<and> pl \<noteq> Out then r \<le> n + 1 else r \<le> n)"

lemma sig_ok_more:
  assumes "sig_ok p i d n" "a \<le> b" "i' = i + a" "i' + d' = i + d + b"
  shows "sig_ok p i' d' (n + b)"
  using assms by (cases p) (auto simp: after_msg_def split: if_splits)

lemma rep_ok_more: "rep_ok p r n \<Longrightarrow> rep_ok p (r + c) (n + c)"
  by (cases p) auto

definition node_ok :: "('c \<Rightarrow> 't option) \<Rightarrow> ('c, 'n) node \<Rightarrow> bool" where
  "node_ok saved x \<longleftrightarrow> saved (conn (wd x)) = None \<and>
     sem_lock_comms (sh x) + p_comms (pp x) + s_comms (sp x) = 1 \<and> sem_lock_datas (sh x) + p_datas (pp x) + s_datas (sp x) = 1 \<and>
     sig_ok (sp x) (instrs (sh x)) (datas (sh x)) (sem_lock_sigs (sh x)) \<and>
     rep_ok (pp x) (reports (sh x)) (sem_lock_sigps (sh x))"

lemma sem_wait_Some: "sem_wait n = Some l \<longleftrightarrow> n = Suc l"
  by (cases n) (auto simp: sem_wait_def)

lemma pstep_ok:
  assumes "pstep pq junk x y" "pg_server pq tables saved failed effect" "node_ok saved x"
  shows "node_ok saved y"
  using assms(1)
proof cases
  case (lock e l)
  then show ?thesis using assms(3)
    by (cases e) (auto simp: node_ok_def sem_wait_Some lock_of_def set_lock_def)
next
  case (unlock e)
  then show ?thesis using assms(3)
    by (cases e) (auto simp: node_ok_def sem_post_def lock_of_def set_lock_def after_def)
next
  case (body e s' w')
  have none: "saved (conn (wd x)) = None" using assms(3) by (simp add: node_ok_def)
  show ?thesis
  proof (cases "e = Read")
    case True
    from body_read [OF assms(2) body(3) [unfolded True] none] show ?thesis
      using body assms(3) True by (auto simp: node_ok_def same_locks_def)
  next
    case False
    from body_offer [OF assms(2) body(3) none False] obtain a b where o: "saved (conn w') = None" "same_locks (sh x) s'"
      "reports s' = reports (sh x)" "sem_lock_sigps s' = sem_lock_sigps (sh x)"
      "a \<le> b" "instrs s' = instrs (sh x) + a" "instrs s' + datas s' = instrs (sh x) + datas (sh x) + b"
      "sem_lock_sigs s' = sem_lock_sigs (sh x) + b" by blast
    have "sig_ok (sp x) (instrs s') (datas s') (sem_lock_sigs s')"
      unfolding o(8) using assms(3) o(5-7) by (intro sig_ok_more) (auto simp: node_ok_def)
    with o(1-4) body(1,2) assms(3) False show ?thesis by (auto simp: node_ok_def same_locks_def)
  qed
qed (use assms(3) in \<open>auto simp: node_ok_def sem_wait_Some\<close>)

lemma reported_ok:
  assumes "reported (sh x) s'" "rep_ok (pp x) (reports (sh x)) (sem_lock_sigps (sh x))"
  shows "rep_ok (pp x) (reports s') (sem_lock_sigps s')"
  using assms by (auto simp: reported_def rep_ok_more)

lemma sstep_ok:
  assumes "sstep net x y" "node_ok saved x"
  shows "node_ok saved y"
  using assms(1)
proof cases
  case (get_msg k d k' d' s')
  from get_message_counts [OF get_msg(3)] show ?thesis
    using get_msg assms(2) by (auto simp: node_ok_def same_locks_def after_msg_def)
next
  case (get_dat k j r j' r' s')
  from get_data_counts [OF get_dat(3)] show ?thesis
    using get_dat assms(2) by (auto simp: node_ok_def same_locks_def after_msg_def split: if_splits)
next
  case (act k d s' n')
  note h = handle_reported(1) [OF act(4)]
  have "rep_ok (pp x) (reports s') (sem_lock_sigps s')" using reported_ok [OF h] assms(2) by (simp add: node_ok_def)
  then show ?thesis using act h assms(2) by (auto simp: node_ok_def reported_def same_locks_def datas_def)
next
  case (send j r s' n')
  note h = handle_reported(2) [OF send(4)]
  have "rep_ok (pp x) (reports s') (sem_lock_sigps s')" using reported_ok [OF h] assms(2) by (simp add: node_ok_def)
  then show ?thesis using send h assms(2) by (auto simp: node_ok_def reported_def same_locks_def datas_def)
qed (use assms(2) in \<open>auto simp: node_ok_def sem_wait_Some sem_post_def\<close>)

lemma reachable_ok:
  assumes "reachable pq junk net saved x" "pg_server pq tables saved failed effect"
  shows "node_ok saved x"
  using assms(1)
proof induction
  case (init x)
  then show ?case by (simp add: start_def node_ok_def counts del: size_contents)
next
  case (more x y)
  then show ?case using pstep_ok [OF _ assms(2)] sstep_ok by (auto simp: node_step_def)
qed


section \<open>Who touches a block\<close>

lemma body_blocks:
  "body pq junk Give (s, w) = Some (s', w') \<Longrightarrow> comms_block s' = comms_block s"
  "e \<noteq> Give \<Longrightarrow> body pq junk e (s, w) = Some (s', w') \<Longrightarrow> datas_block s' = datas_block s"
proof -
  show "body pq junk Give (s, w) = Some (s', w') \<Longrightarrow> comms_block s' = comms_block s"
    by (auto simp: body_def ProcessorS.give_data_locked_def Let_def bind_eq_Some_conv split: if_splits)
  show "e \<noteq> Give \<Longrightarrow> body pq junk e (s, w) = Some (s', w') \<Longrightarrow> datas_block s' = datas_block s"
    by (cases e) (auto simp: body_def ProcessorS.send_msg_locked_def read_msg_locked_def Let_def bind_eq_Some_conv split: if_splits)
qed

lemma set_lock_blocks [simp]: "comms_block (set_lock e l s) = comms_block s" "datas_block (set_lock e l s) = datas_block s"
  by (simp_all add: set_lock_def split: exchange.split)

lemma pstep_blocks:
  assumes "pstep pq junk x y"
  shows "p_comms (pp x) = 0 \<Longrightarrow> comms_block (sh y) = comms_block (sh x)"
    and "p_datas (pp x) = 0 \<Longrightarrow> datas_block (sh y) = datas_block (sh x)"
proof -
  show "comms_block (sh y) = comms_block (sh x)" if "p_comms (pp x) = 0"
    using assms
  proof cases
    case (body e s' w')
    then have "e = Give" using that by (cases e) auto
    then show ?thesis using body(1) body_blocks(1) body(3) by auto
  qed simp_all
  show "datas_block (sh y) = datas_block (sh x)" if "p_datas (pp x) = 0"
    using assms
  proof cases
    case (body e s' w')
    then have "e \<noteq> Give" using that by auto
    then show ?thesis using body(1) body_blocks(2) body(3) by auto
  qed simp_all
qed

lemma sstep_blocks:
  assumes "sstep net x y"
  shows "sem_lock_comms (sh x) = 0 \<Longrightarrow> s_comms (sp x) = 0 \<Longrightarrow> comms_block (sh y) = comms_block (sh x)"
    and "s_datas (sp x) = 0 \<Longrightarrow> datas_block (sh y) = datas_block (sh x)"
proof -
  have m: "datas_block s' = datas_block s" if "Sender.get_message_locked s = Some (k, d, s')" for s s' k d
    using that by (auto simp: Sender.get_message_locked_def Let_def bind_eq_Some_conv split: if_splits)
  have g: "comms_block s' = comms_block s" if "Sender.get_data_locked s = Some (k, d, s')" for s s' k d
    using that by (auto simp: Sender.get_data_locked_def Let_def bind_eq_Some_conv split: if_splits)
  show "comms_block (sh y) = comms_block (sh x)" if "sem_lock_comms (sh x) = 0" "s_comms (sp x) = 0"
    using assms
  proof cases
    case (act k d s' n')
    then show ?thesis using handle_reported(1) [OF act(4)] that(1) by (simp add: reported_def)
  next
    case (send j r s' n')
    then show ?thesis using handle_reported(2) [OF send(4)] that(1) by (simp add: reported_def)
  qed (use that g in auto)
  show "datas_block (sh y) = datas_block (sh x)" if "s_datas (sp x) = 0"
    using assms
  proof cases
    case (act k d s' n')
    then show ?thesis using handle_reported(1) [OF act(4)] by (simp add: reported_def)
  next
    case (send j r s' n')
    then show ?thesis using handle_reported(2) [OF send(4)] by (simp add: reported_def)
  qed (use that m in auto)
qed

text \<open>A node at its start, with the demo tables and one signal for the processor.\<close>

definition demo_node :: "(server, tcp) node" where
  "demo_node = \<lparr>sh = idle_shared, wd = \<lparr>conn = demo_server, syslog = []\<rparr>, nt = fresh_net [], pp = P_wait, sp = S_wait\<rparr>"

lemma demo_node_start: "reachable pq junk net (\<lambda>c. map_option fst (snapshot c)) demo_node"
  by (rule reachable.init)
    (simp add: start_def demo_node_def idle_shared_def demo_server_def new_server_def contents_empty_iff no_slots_used)

lemma demo_node_locked:
  "\<exists>x. reachable pg [] tcp_net (\<lambda>c. map_option fst (snapshot c)) x \<and> pp x = P_at Read In \<and> sp x = S_wait"
proof -
  let ?x1 = "demo_node\<lparr>sh := idle_shared\<lparr>sem_lock_sigps := 0\<rparr>, pp := P_at Read Want\<rparr>"
  let ?x2 = "?x1\<lparr>sh := set_lock Read 0 (sh ?x1), pp := P_at Read In\<rparr>"
  have 1: "pstep pg [] demo_node ?x1" using pstep.wake [of demo_node 0 pg "[]"]
    by (simp add: demo_node_def idle_shared_def sem_wait_def)
  have 2: "pstep pg [] ?x1 ?x2"
    by (rule pstep.lock) (simp_all add: lock_of_def idle_shared_def sem_wait_def)
  have "reachable pg [] tcp_net (\<lambda>c. map_option fst (snapshot c)) ?x2"
    by (rule reachable.more [OF reachable.more [OF demo_node_start]]) (use 1 2 in \<open>auto simp: node_step_def\<close>)
  moreover have "pp ?x2 = P_at Read In" "sp ?x2 = S_wait" by (simp_all add: demo_node_def)
  ultimately show ?thesis by blast
qed


section \<open>Properties\<close>








end
