(* ===== verification/Handshake.thy ===== *)
theory Handshake
  imports InitialSender InitialReceiver
begin

text \<open>
  What the processes of two nodes do together: the size agreed with a system goes from the table
  \<open>receivers_comms\<close> through \<open>processor_r\<close> to the receiver's hash table, where it is looked up by the address of a
  connection; and the first message of a handshake goes from the table of one node to that of another.
\<close>

section \<open>The size agreed with an address\<close>

text \<open>\<open>processor_r\<close> hands the first capacity over, when the half of the block is empty.\<close>

lemma send_msg_pg:
  assumes h: "healthy r_names c" and rc: "receivers_comms (tabs c) = rc # rcs" "length (dec (rdata1 rc)) \<le> 17"
    and s: "sem_lock_commr s = 1" "contents CPARTITION_SIZE 1 (commr_block s) = {#}"
  shows "\<exists>s1. send_msg_to_receiver pg (s, \<lparr>conn = c, syslog = l\<rparr>) =
      Some (s1, \<lparr>conn = c\<lparr>tabs := (tabs c)\<lparr>receivers_comms := rcs\<rparr>\<rparr>, syslog = l\<rparr>) \<and> sem_lock_commr s1 = 1 \<and>
    contents CPARTITION_SIZE 1 (commr_block s1) =
      {#padded CPARTITION_SIZE (enc_capacity_info (capacity_of (dec (rdata1 rc)) (dec (rdata2 rc))))#}"
proof -
  have n: "map_option fst (snapshot (conn \<lparr>conn = c, syslog = l\<rparr>)) = None" using h by (simp add: healthy_def)
  from s(2) have "card (used_slots 1 (commr_block s)) \<noteq> length (slots 1)"
    by (simp add: contents_empty_iff slots_def del: upt_rec_numeral)
  then have "get_subblock (commr_block s) 0 1 \<noteq> -1" by (simp add: get_subblock_free_iff)
  then obtain k where k: "get_subblock (commr_block s) 0 1 = int k" "k \<in> set (slots 1)" "\<not> used (commr_block s) k"
    by (cases rule: free_slot_cases [where block = "commr_block s" and type = 1]) auto
  let ?e = "enc_capacity_info (capacity_of (dec (rdata1 rc)) (dec (rdata2 rc)))"
  let ?p = "slot_addr CPARTITION_SIZE k"
  let ?b = "mwrite (mset_bytes (commr_block s) ?p 0 CPARTITION_SIZE) ?p ?e"
  have len: "length ?e \<le> CPARTITION_SIZE" using rc(2) by (simp add: enc_capacity_info_def capacity_of_def CPARTITION_SIZE_def)
  have "same_but CPARTITION_SIZE k (commr_block s) ?b" using len by (intro same_but_mwrite same_but_mset_bytes) auto
  from contents_fill [OF this k(2,3)] s(2) have
    "contents CPARTITION_SIZE 1 (flip k ?b) = {#slot_bytes CPARTITION_SIZE ?b k#}" by simp
  moreover have "slot_bytes CPARTITION_SIZE ?b k = padded CPARTITION_SIZE ?e"
    using len by (simp add: slot_bytes_def mread_mwrite_mset_bytes padded_def)
  ultimately show ?thesis
    using get_comms_pg [OF h rc, of "mset_bytes (commr_block s) ?p 0 CPARTITION_SIZE" ?p l] k slots_less [OF k(2)] s(1)
    by (simp add: send_msg_to_receiver_def ProcessorR.send_msg_locked_def sem_wait_def sem_post_def Let_def toggle_bit_flip)
qed

text \<open>The receiver takes the only capacity in its half of the block.\<close>

lemma take_only_capacity:
  assumes "contents CPARTITION_SIZE 1 (commr_block s) = {#x#}" "sem_lock_commr s = 1" "length x = CPARTITION_SIZE"
  shows "\<exists>k s'. Receiver.get_message_from_processor frame s = Some (int k, take sizeof_capacity_info x, s')"
proof -
  have "used_slots 1 (commr_block s) \<noteq> {}" using assms(1) contents_empty_iff [of CPARTITION_SIZE 1 "commr_block s"] by auto
  then have "get_subblock (commr_block s) 1 1 \<noteq> -1" by (simp add: get_subblock_used_iff)
  then obtain k where k: "get_subblock (commr_block s) 1 1 = int k" "k \<in> set (slots 1)" "used (commr_block s) k"
    by (cases rule: used_slot_cases [where block = "commr_block s" and type = 1]) auto
  have "slot_bytes CPARTITION_SIZE (commr_block s) k = x" using contents_take(1) [OF k(2,3), of CPARTITION_SIZE] assms(1) by simp
  then have "mread (commr_block s) (slot_addr CPARTITION_SIZE k) sizeof_capacity_info = take sizeof_capacity_info x"
    by (auto simp: slot_bytes_def take_mread CPARTITION_SIZE_def sizeof_capacity_info_def)
  then show ?thesis using k slots_less [OF k(2)] assms(2)
    by (simp add: Receiver.get_message_from_processor_def Receiver.get_message_locked_def sem_wait_def Let_def toggle_bit_flip)
qed

lemma capacity_bytes:
  fixes ip cap :: int
  assumes "length (dec ip) \<le> 16"
  defines "x \<equiv> take sizeof_capacity_info (padded CPARTITION_SIZE (enc_capacity_info (capacity_of (dec ip) (dec cap))))"
  shows "get32 x 0 = word_of_int cap" "cstr (drop 4 x) = dec ip" "0 \<in> set (drop 4 x)"
proof -
  have "x = le32 (word_of_int cap) @ dec ip @ replicate (20 - length (dec ip)) 0"
    using assms(1) unfolding x_def
    by (simp add: padded_def enc_capacity_info_def capacity_of_def sizeof_capacity_info_def atoi_dec CPARTITION_SIZE_def
        replicate_add [symmetric])
  moreover have "0 < 20 - length (dec ip)" using assms(1) by simp
  ultimately show "get32 x 0 = word_of_int cap" "cstr (drop 4 x) = dec ip" "0 \<in> set (drop 4 x)"
    by (simp_all add: codec_simps cstr_append_replicate dec_no_nul)
qed


text \<open>The text the receiver looks an address up by is that of a signed int.\<close>

lemma sint_of_address:
  fixes a :: cint
  shows "sint a = (if uint a < 2 ^ 31 then uint a else uint a - 2 ^ 32)"
proof -
  have s: "- (2 ^ 31) \<le> sint a" "sint a < 2 ^ 31" using sint_greater_eq [of a] sint_less [of a] by simp_all
  have u: "uint a = sint a mod 2 ^ 32" by (simp add: uint_sint take_bit_eq_mod)
  have "sint a mod 2 ^ 32 = (if 0 \<le> sint a then sint a else sint a + 2 ^ 32)"
  proof (cases "0 \<le> sint a")
    case True
    with s show ?thesis by (simp add: mod_pos_pos_trivial)
  next
    case False
    have "sint a mod 2 ^ 32 = (sint a + 2 ^ 32) mod 2 ^ 32" by simp
    also have "\<dots> = sint a + 2 ^ 32" using False s by (intro mod_pos_pos_trivial) auto
    finally show ?thesis using False by simp
  qed
  with u s show ?thesis by (cases "0 \<le> sint a") auto
qed


section \<open>The first message\<close>

lemma update_status_pg:
  assumes "healthy is_names c" "length u = 36" "0 \<notin> set u" "length (dec st) < cap"
  shows "update_status cap pg (u @ [0]) st \<lparr>conn = c, syslog = l\<rparr> =
    Some \<lparr>conn = c\<lparr>tabs := set_job_state u (\<lambda>_. if st > 0 then ''C'' else ''D'') (tabs c)\<rparr>, syslog = l\<rparr>"
proof -
  have "(''update_status'', Suc (Suc 0)) \<in> set (prepared c)"
    using assms(1) by (auto simp: healthy_def is_names_def dbs_is_def numeral_2_eq_2)
  then show ?thesis using assms
    by (simp add: update_status_def sprintf_buf_def text_param_def c_string_def cstr_append_nul run_healthy healthy_def sql_ok_def
        is_query_def sql_effect_def sql_rows_def int_of_def strtol_dec)
qed

lemma store_hello_pg:
  assumes "healthy (set (List.map (\<lambda>(n, sql, k). (n, k)) dbs_ir)) c" "length (root_jobs (tabs c)) = 1" "length (dec fd) < 11" "0 \<notin> set dat"
  shows "ir_store_data pg fd (dat @ [0]) \<lparr>conn = c, syslog = l\<rparr> =
    Some (0, \<lparr>conn = c\<lparr>tabs := insert_job (dec fd) dat (tabs c)\<rparr>, syslog = l\<rparr>)"
proof -
  have "(''store_data'', Suc (Suc 0)) \<in> set (prepared c)" using assms(1) by (auto simp: healthy_def dbs_ir_def numeral_2_eq_2)
  then show ?thesis using assms
    by (simp add: ir_store_data_def sprintf_buf_def c_string_def cstr_append_nul run_healthy healthy_def sql_ok_def is_query_def sql_effect_def)
qed

section \<open>Properties\<close>






end
