(* ===== verification/Config.thy ===== *)
theory Config
  imports Libpq
begin

text \<open>
  The configuration files of \<open>conf\<close> and how every \<open>main\<close> reads them: one \<open>read\<close> into an array on the
  stack, one \<open>sscanf\<close> with a format of lines \<open>NAME=%s\<close>, \<open>NAME=%d\<close> and \<open>NAME=%lu\<close>, the result of which is not looked at.
  \<open>sscanf\<close> is the standard's, for the directives these formats use; a text that does not fit the array a
  \<open>%s\<close> is stored in, and a number that does not fit its type, are undefined.
\<close>

section \<open>\<open>sscanf\<close>\<close>

datatype directive = Space | Lit byte | Str | Dec | ULong

datatype scanned = SStr "byte list" | SInt cint | SLong "64 word"

definition byte_of :: "char \<Rightarrow> byte" where
  "byte_of c = word_of_nat (of_char c)"

text \<open>The directives a format string spells: a run of blanks may be read as one after the other.\<close>

fun directives :: "string \<Rightarrow> directive list" where
  "directives [] = []"
| "directives (c # fmt) =
     (if c = CHR ''%'' \<and> fmt \<noteq> [] then
        if hd fmt = CHR ''s'' then Str # directives (tl fmt)
        else if hd fmt = CHR ''d'' then Dec # directives (tl fmt)
        else ULong # directives (drop 2 fmt)
      else if is_space (byte_of c) then Space # directives fmt
      else Lit (byte_of c) # directives fmt)"

text \<open>A decimal number with its sign, and what follows it; \<open>None\<close> when there is none.\<close>

definition int_token :: "byte list \<Rightarrow> (int \<times> byte list) option" where
  "int_token inp =
     (let (neg, rest) = (case inp of [] \<Rightarrow> (False, []) | c # cs \<Rightarrow> if c = 45 then (True, cs) else if c = 43 then (False, cs) else (False, inp));
          ds = takeWhile is_digit rest
      in if ds = [] then None
         else Some (if neg then - digits_val 0 ds else digits_val 0 ds, drop (length ds) rest))"

text \<open>
  The values stored, to the first directive that does not match.  \<open>caps\<close> are the sizes of the arrays
  behind the \<open>%s\<close> arguments, in their order.
\<close>

fun scan :: "directive list \<Rightarrow> nat list \<Rightarrow> byte list \<Rightarrow> scanned list option" where
  "scan [] caps inp = Some []"
| "scan (Space # ds) caps inp = scan ds caps (dropWhile is_space inp)"
| "scan (Lit b # ds) caps inp = (if inp \<noteq> [] \<and> hd inp = b then scan ds caps (tl inp) else Some [])"
| "scan (Str # ds) caps inp =
     (let inp1 = dropWhile is_space inp; tok = takeWhile (\<lambda>b. \<not> is_space b) inp1 in
      if tok = [] then Some []
      else case caps of [] \<Rightarrow> None
        | cap # caps1 \<Rightarrow>
            if length tok < cap then do { vs \<leftarrow> scan ds caps1 (drop (length tok) inp1); Some (SStr tok # vs) }
            else None)"
| "scan (Dec # ds) caps inp =
     (case int_token (dropWhile is_space inp) of None \<Rightarrow> Some []
      | Some (i, rest) \<Rightarrow>
          if - (2 ^ 31) \<le> i \<and> i < 2 ^ 31 then do { vs \<leftarrow> scan ds caps rest; Some (SInt (word_of_int i) # vs) } else None)"
| "scan (ULong # ds) caps inp =
     (case int_token (dropWhile is_space inp) of None \<Rightarrow> Some []
      | Some (i, rest) \<Rightarrow>
          if \<bar>i\<bar> < 2 ^ 64 then do { vs \<leftarrow> scan ds caps rest; Some (SLong (word_of_int i) # vs) } else None)"

text \<open>
  \<open>sscanf(buf, fmt, ...)\<close> with the values the arguments have before the call: those not reached keep
  them.  The array must hold a NUL.
\<close>

definition sscanf :: "string \<Rightarrow> nat list \<Rightarrow> byte list \<Rightarrow> scanned list \<Rightarrow> scanned list option" where
  "sscanf fmt caps buf vars = do {
     text \<leftarrow> c_string buf;
     vs \<leftarrow> scan (directives fmt) caps text;
     Some (vs @ drop (length vs) vars) }"


section \<open>Opening and reading\<close>

text \<open>What \<open>open\<close> finds under the name, and whether \<open>read\<close> gives bytes.\<close>

datatype conf_file = Missing | Unreadable | File "byte list"

definition read_into :: "byte list \<Rightarrow> byte list \<Rightarrow> byte list" where
  "read_into buf content = take (length buf) content @ drop (length content) buf"

text \<open>
  The part every \<open>main\<close> starts with.  \<open>buf\<close> is the array before \<open>read\<close>: zeros where the code clears
  it, whatever is on the stack where it does not.  \<open>Inl\<close> is the exit with that value.
\<close>

definition read_config ::
  "conf_file \<Rightarrow> byte list \<Rightarrow> string \<Rightarrow> nat list \<Rightarrow> scanned list \<Rightarrow> 'c world \<Rightarrow> ((int + scanned list) \<times> 'c world) option" where
  "read_config file buf fmt caps vars w =
     (case file of
        Missing \<Rightarrow> Some (Inl (-1), log_syslog (bytes ''failed to open configuration file'') w)
      | Unreadable \<Rightarrow> Some (Inl (-1), log_syslog (bytes ''failed to read configuration file'') w)
      | File content \<Rightarrow>
          if content = [] then Some (Inl (-1), log_syslog (bytes ''failed to read configuration file'') w)
          else do {
            vs \<leftarrow> sscanf fmt caps (read_into buf content) vars;
            Some (Inr vs, w) })"

text \<open>With the check of \<open>argc\<close> before it, which \<open>notif\<close> and \<open>job_launcher\<close> only log.\<close>

definition load_config ::
  "nat \<Rightarrow> conf_file \<Rightarrow> byte list \<Rightarrow> string \<Rightarrow> nat list \<Rightarrow> scanned list \<Rightarrow> 'c world \<Rightarrow>
   ((int + scanned list) \<times> 'c world) option" where
  "load_config argc file buf fmt caps vars w =
     (if argc \<noteq> 2 then Some (Inl (-1), log_syslog (bytes ''invalid arguments'') w)
      else read_config file buf fmt caps vars w)"

text \<open>\<open>sprintf(db_conn_command, "user=%s dbname=%s", username, dbname)\<close> into an array of 100 bytes.\<close>

definition conn_command :: "byte list \<Rightarrow> byte list \<Rightarrow> byte list option" where
  "conn_command username dbname = sprintf_buf 100 (bytes ''user='' @ username @ bytes '' dbname='' @ dbname)"

text \<open>A text built at run time, handed to libpq as a command.\<close>

definition text_of_bytes :: "byte list \<Rightarrow> string" where
  "text_of_bytes bs = List.map (\<lambda>b. char_of (unat b)) bs"

definition str_val :: "scanned \<Rightarrow> byte list" where
  "str_val v = (case v of SStr s \<Rightarrow> s | _ \<Rightarrow> [])"

definition int_val :: "scanned \<Rightarrow> cint" where
  "int_val v = (case v of SInt i \<Rightarrow> i | _ \<Rightarrow> 0)"

definition long_val :: "scanned \<Rightarrow> 64 word" where
  "long_val v = (case v of SLong i \<Rightarrow> i | _ \<Rightarrow> 0)"


section \<open>Writing a configuration and reading it back\<close>

text \<open>The text of a configuration: the format with its values, lines ended by a newline.\<close>

fun render :: "directive list \<Rightarrow> scanned list \<Rightarrow> byte list" where
  "render [] vs = []"
| "render (Space # ds) vs = 10 # render ds vs"
| "render (Lit b # ds) vs = b # render ds vs"
| "render (_ # ds) [] = []"
| "render (_ # ds) (SStr s # vs) = s @ render ds vs"
| "render (_ # ds) (SInt i # vs) = dec (sint i) @ render ds vs"
| "render (_ # ds) (SLong i # vs) = dec (uint i) @ render ds vs"

text \<open>The formats of the program: a conversion ends its line, a line does not begin with a blank.\<close>

fun wf_format :: "directive list \<Rightarrow> bool" where
  "wf_format [] = True"
| "wf_format (Space # ds) = (wf_format ds \<and> (case ds of Lit b # _ \<Rightarrow> \<not> is_space b | Space # _ \<Rightarrow> False | _ \<Rightarrow> True))"
| "wf_format (Lit b # ds) = (wf_format ds \<and> \<not> is_space b \<and> b \<noteq> 0)"
| "wf_format (_ # ds) = (wf_format ds \<and> (case ds of [] \<Rightarrow> True | Space # _ \<Rightarrow> True | _ \<Rightarrow> False))"

definition is_token :: "byte list \<Rightarrow> bool" where
  "is_token s \<longleftrightarrow> s \<noteq> [] \<and> (\<forall>b \<in> set s. \<not> is_space b \<and> b \<noteq> 0)"

text \<open>Values that fit the conversions of a format and its arrays.\<close>

fun fits :: "directive list \<Rightarrow> nat list \<Rightarrow> scanned list \<Rightarrow> bool" where
  "fits [] caps vs = (vs = [])"
| "fits (Str # ds) (cap # caps) (SStr s # vs) = (is_token s \<and> length s < cap \<and> fits ds caps vs)"
| "fits (Dec # ds) caps (SInt i # vs) = fits ds caps vs"
| "fits (ULong # ds) caps (SLong i # vs) = fits ds caps vs"
| "fits (Space # ds) caps vs = fits ds caps vs"
| "fits (Lit b # ds) caps vs = fits ds caps vs"
| "fits _ _ _ = False"



lemma take_digits:
  assumes "\<forall>b \<in> set ds. is_digit b" "rest = [] \<or> \<not> is_digit (hd rest)"
  shows "takeWhile is_digit (ds @ rest) = ds"
  using assms by (cases rest) (auto simp: takeWhile_append)

lemma dec_nat_Cons: "\<exists>b bs. dec_nat n = b # bs \<and> is_digit b"
  using dec_nat_digits [of "hd (dec_nat n)" n] dec_nat_nonempty [of n] by (cases "dec_nat n") auto

lemma int_token_dec:
  assumes "rest = [] \<or> \<not> is_digit (hd rest)"
  shows "int_token (dec i @ rest) = Some (i, rest)"
proof -
  have tw: "takeWhile is_digit (dec_nat n @ rest) = dec_nat n" for n
    by (rule take_digits [OF _ assms]) (simp add: dec_nat_digits)
  show ?thesis
  proof (cases "i < 0")
    case True
    then show ?thesis by (simp add: int_token_def dec_def tw digits_val_dec_nat)
  next
    case False
    obtain b bs where b: "dec_nat (nat i) = b # bs" "is_digit b" using dec_nat_Cons by blast
    then have "b \<noteq> 45" "b \<noteq> 43" using digit_bounds by auto
    moreover have "takeWhile is_digit (b # bs @ rest) = b # bs" using tw [of "nat i"] b by simp
    moreover have "digits_val 0 (b # bs) = i" using b(1) digits_val_dec_nat [of "nat i"] False by simp
    ultimately show ?thesis using False b(1) by (simp add: int_token_def dec_def del: takeWhile.simps digits_val.simps)
  qed
qed

lemma hd_dec: "dec i \<noteq> []" "\<not> is_space (hd (dec i))"
proof -
  have "\<not> is_space (hd (dec_nat n))" for n
    using dec_nat_Cons [of n] digit_bounds by auto
  then show "dec i \<noteq> []" "\<not> is_space (hd (dec i))" by (simp_all add: dec_def is_space_def)
qed

lemma dropWhile_hd: "xs \<noteq> [] \<Longrightarrow> \<not> is_space (hd xs) \<Longrightarrow> dropWhile is_space (xs @ ys) = xs @ ys"
  by (cases xs) auto

lemma is_space_not_digit: "is_space b \<Longrightarrow> \<not> is_digit b"
  using digit_bounds by blast

lemma is_space_10 [simp]: "is_space 10"
  by (simp add: is_space_def)

lemma after_conversion:
  assumes "ds = [] \<or> (\<exists>ds'. ds = Space # ds')" "rest = [] \<or> is_space (hd rest)" "ds = [] \<longrightarrow> vs = []"
  shows "render ds vs @ rest = [] \<or> is_space (hd (render ds vs @ rest))"
  using assms by auto

lemma wf_conversion:
  "wf_format (Str # ds) \<Longrightarrow> wf_format ds \<and> (ds = [] \<or> (\<exists>ds'. ds = Space # ds'))"
  "wf_format (Dec # ds) \<Longrightarrow> wf_format ds \<and> (ds = [] \<or> (\<exists>ds'. ds = Space # ds'))"
  "wf_format (ULong # ds) \<Longrightarrow> wf_format ds \<and> (ds = [] \<or> (\<exists>ds'. ds = Space # ds'))"
  by (auto split: list.splits directive.splits)

lemma fits_Nil: "fits [] caps vs \<longleftrightarrow> vs = []"
  by simp

text \<open>What comes after a blank in the format starts with something else, or is the end.\<close>

lemma scan_after_space:
  assumes "case ds of Lit b # _ \<Rightarrow> \<not> is_space b | Space # _ \<Rightarrow> False | _ \<Rightarrow> True" "fits ds caps vs" "ds \<noteq> []"
  shows "render ds vs \<noteq> [] \<and> \<not> is_space (hd (render ds vs))"
proof -
  obtain d ds' where ds: "ds = d # ds'" using assms(3) by (cases ds) auto
  show ?thesis
  proof (cases d)
    case Space
    then show ?thesis using assms(1) ds by simp
  next
    case (Lit b)
    then show ?thesis using assms(1) ds by simp
  next
    case Str
    then obtain cap caps' s vs' where "caps = cap # caps'" "vs = SStr s # vs'"
      using assms(2) ds by (cases caps; cases vs; cases "hd vs") auto
    then show ?thesis using assms(2) ds Str by (cases s) (auto simp: is_token_def)
  next
    case Dec
    then obtain i vs' where "vs = SInt i # vs'"
      using assms(2) ds by (cases vs; cases "hd vs") auto
    then show ?thesis using ds Dec hd_dec by simp
  next
    case ULong
    then obtain i vs' where "vs = SLong i # vs'"
      using assms(2) ds by (cases vs; cases "hd vs") auto
    then show ?thesis using ds ULong hd_dec by simp
  qed
qed

lemma token_scan:
  assumes "is_token s" "rest = [] \<or> is_space (hd rest)"
  shows "dropWhile is_space (s @ rest) = s @ rest" "takeWhile (\<lambda>b. \<not> is_space b) (s @ rest) = s"
proof -
  show "dropWhile is_space (s @ rest) = s @ rest"
    using assms(1) by (intro dropWhile_hd) (auto simp: is_token_def)
  show "takeWhile (\<lambda>b. \<not> is_space b) (s @ rest) = s"
    using assms by (cases rest) (auto simp: is_token_def takeWhile_append)
qed

lemma scan_render:
  assumes "wf_format ds" "fits ds caps vs" "rest = [] \<or> is_space (hd rest)"
  shows "scan ds caps (render ds vs @ rest) = Some vs"
  using assms
proof (induction ds caps vs rule: fits.induct)
  case (2 ds cap caps s vs)
  note w = wf_conversion(1) [OF 2(2)]
  have r: "render ds vs @ rest = [] \<or> is_space (hd (render ds vs @ rest))"
    by (rule after_conversion) (use 2 w in auto)
  have t: "is_token s" "length s < cap" using 2 by auto
  then have "s \<noteq> []" by (simp add: is_token_def)
  then show ?case using 2 w token_scan [OF t(1) r] t by (simp add: Let_def)
next
  case (3 ds caps i vs)
  note w = wf_conversion(2) [OF 3(2)]
  have "render ds vs @ rest = [] \<or> is_space (hd (render ds vs @ rest))"
    by (rule after_conversion) (use 3 w in auto)
  then have d: "render ds vs @ rest = [] \<or> \<not> is_digit (hd (render ds vs @ rest))" using is_space_not_digit by auto
  have "- (2 ^ 31) \<le> sint i" "sint i < 2 ^ 31" using sint_greater_eq [of i] sint_less [of i] by auto
  then show ?case using 3 w int_token_dec [OF d] dropWhile_hd [OF hd_dec] by simp
next
  case (4 ds caps i vs)
  note w = wf_conversion(3) [OF 4(2)]
  have "render ds vs @ rest = [] \<or> is_space (hd (render ds vs @ rest))"
    by (rule after_conversion) (use 4 w in auto)
  then have d: "render ds vs @ rest = [] \<or> \<not> is_digit (hd (render ds vs @ rest))" using is_space_not_digit by auto
  have "\<bar>uint i\<bar> < 2 ^ 64" using uint_lt2p [of i] by simp
  then show ?case using 4 w int_token_dec [OF d] dropWhile_hd [OF hd_dec] by simp
next
  case (5 ds caps vs)
  show ?case
  proof (cases "ds = []")
    case False
    with scan_after_space [OF _ _ False, of caps vs] 5 show ?thesis by (simp add: dropWhile_hd)
  qed (use 5 in auto)
qed auto


text \<open>A format read to some point of it: what follows is read with the rest of the format.\<close>

fun arrays :: "directive list \<Rightarrow> nat" where
  "arrays [] = 0"
| "arrays (d # ds) = (if d = Str then Suc (arrays ds) else arrays ds)"

lemma scan_prefix:
  assumes "wf_format (ds @ es)" "fits ds caps vs" "arrays ds = length caps"
    and "inp \<noteq> []" "\<not> is_space (hd inp)" "ds = [] \<or> last ds \<in> range Lit \<union> {Space}"
  shows "scan (ds @ es) (caps @ caps') (render ds vs @ inp) = map_option ((@) vs) (scan es caps' inp)"
  using assms
proof (induction ds caps vs rule: fits.induct)
  case (1 caps vs)
  then show ?case by (simp add: option.map_id0 [unfolded id_def])
next
  case (2 ds cap caps s vs)
  have ne: "ds \<noteq> []" using 2(7) by auto
  obtain ds' where ds: "ds = Space # ds'" using wf_conversion(1) [of "ds @ es"] 2(2) ne by (cases ds) auto
  have t: "is_token s" "length s < cap" using 2 by auto
  have r: "render ds vs @ inp = [] \<or> is_space (hd (render ds vs @ inp))" by (simp add: ds)
  have "s \<noteq> []" using t by (simp add: is_token_def)
  moreover have "scan (ds @ es) (caps @ caps') (render ds vs @ inp) = map_option ((@) vs) (scan es caps' inp)"
    using 2 ne wf_conversion(1) [of "ds @ es"] by simp
  ultimately show ?case using t token_scan [OF t(1) r] by (cases "scan es caps' inp") (simp_all add: Let_def)
next
  case (3 ds caps i vs)
  have ne: "ds \<noteq> []" using 3(7) by auto
  obtain ds' where ds: "ds = Space # ds'" using wf_conversion(2) [of "ds @ es"] 3(2) ne by (cases ds) auto
  have d: "render ds vs @ inp = [] \<or> \<not> is_digit (hd (render ds vs @ inp))" by (simp add: ds is_space_not_digit)
  have "- (2 ^ 31) \<le> sint i" "sint i < 2 ^ 31" using sint_greater_eq [of i] sint_less [of i] by auto
  moreover have "scan (ds @ es) (caps @ caps') (render ds vs @ inp) = map_option ((@) vs) (scan es caps' inp)"
    using 3 ne wf_conversion(2) [of "ds @ es"] by simp
  ultimately show ?case using int_token_dec [OF d] dropWhile_hd [OF hd_dec] by (cases "scan es caps' inp") simp_all
next
  case (4 ds caps i vs)
  have ne: "ds \<noteq> []" using 4(7) by auto
  obtain ds' where ds: "ds = Space # ds'" using wf_conversion(3) [of "ds @ es"] 4(2) ne by (cases ds) auto
  have d: "render ds vs @ inp = [] \<or> \<not> is_digit (hd (render ds vs @ inp))" by (simp add: ds is_space_not_digit)
  have "\<bar>uint i\<bar> < 2 ^ 64" using uint_lt2p [of i] by simp
  moreover have "scan (ds @ es) (caps @ caps') (render ds vs @ inp) = map_option ((@) vs) (scan es caps' inp)"
    using 4 ne wf_conversion(3) [of "ds @ es"] by simp
  ultimately show ?case using int_token_dec [OF d] dropWhile_hd [OF hd_dec] by (cases "scan es caps' inp") simp_all
next
  case (5 ds caps vs)
  have e: "dropWhile is_space inp = inp" using 5 by (cases inp) auto
  show ?case
  proof (cases "ds = []")
    case True
    with 5 e show ?thesis by (cases es) (auto simp: option.map_id0 [unfolded id_def])
  next
    case False
    then have "case ds of Lit b # _ \<Rightarrow> \<not> is_space b | Space # _ \<Rightarrow> False | _ \<Rightarrow> True"
      using 5(2) by (cases ds) (auto split: directive.splits)
    from scan_after_space [OF this _ False, of caps vs] 5 False show ?thesis by (simp add: dropWhile_hd)
  qed
next
  case (6 b ds caps vs)
  then show ?case by (cases "ds = []") auto
qed auto


section \<open>The formats of the program\<close>

fun lines_text :: "string list \<Rightarrow> string" where
  "lines_text [] = []"
| "lines_text [l] = l"
| "lines_text (l # ls) = l @ CHR 0x0A # lines_text ls"

definition fmt_s :: string where
  "fmt_s = lines_text [''SEM_LOCK_DATAS=%s'', ''SEM_LOCK_COMMS=%s'', ''SEM_LOCK_SIG_S=%s'', ''SEM_LOCK_SIG_PS=%s'',
     ''PROJECT_ID_DATAS=%d'', ''PROJECT_ID_COMMS=%d'', ''USERNAME=%s'', ''DBNAME=%s'']"

definition fmt_r :: string where
  "fmt_r = lines_text [''SEM_LOCK_DATAR=%s'', ''SEM_LOCK_COMMR=%s'', ''SEM_LOCK_SIG_R=%s'',
     ''PROJECT_ID_DATAR=%d'', ''PROJECT_ID_COMMR=%d'', ''USERNAME=%s'', ''DBNAME=%s'']"

definition fmt_receiver :: string where
  "fmt_receiver = lines_text [''SEM_LOCK_DATAR=%s'', ''SEM_LOCK_COMMR=%s'', ''SEM_LOCK_SIG_R=%s'',
     ''PROJECT_ID_DATAR=%d'', ''PROJECT_ID_COMMR=%d'', ''USERNAME=%s'', ''DBNAME=%s'', ''PORT=%d'', ''IPADDRESS=%lu'']"

definition fmt_is :: string where
  "fmt_is = lines_text [''USERNAME=%s'', ''DBNAME=%s'', ''SEM_LOCK_ISENDER=%s'']"

definition fmt_ir :: string where
  "fmt_ir = lines_text [''USERNAME=%s'', ''DBNAME=%s'', ''PORT=%d'', ''IPADDRESS=%lu'']"

definition fmt_notif :: string where
  "fmt_notif = lines_text [''SEM_LOCK_SIG=%s'', ''USERNAME=%s'', ''DBNAME=%s'', ''NOTI_CHANNEL=%s'']"

definition fmt_job :: string where
  "fmt_job = lines_text [''FUNCNAME=%s'', ''USERNAME=%s'', ''DBNAME=%s'', []]"

definition fmt_user :: string where
  "fmt_user = lines_text [''USERNAME=%s'', ''DBNAME=%s'']"

text \<open>Format, sizes of the arrays behind \<open>%s\<close>, size of the array the file is read into, of each \<open>main\<close>.\<close>

definition config_readers :: "(string \<times> nat list \<times> nat) list" where
  "config_readers = [
     (fmt_s, [20, 20, 20, 20, 30, 30], 500), (fmt_r, [20, 20, 20, 30, 30], 500), (fmt_receiver, [20, 20, 20, 30, 30], 500),
     (fmt_is, [30, 30, 20], 100), (fmt_ir, [30, 30], 100), (fmt_notif, [20, 30, 30, 30], 500),
     (fmt_job, [10, 30, 30], 500), (fmt_user, [30, 30], 260)]"

lemmas fmt_defs = fmt_s_def fmt_r_def fmt_receiver_def fmt_is_def fmt_ir_def fmt_notif_def fmt_job_def fmt_user_def


lemma wf_config_formats:
  "list_all (\<lambda>(fmt, caps, n). wf_format (directives fmt) \<and> (case directives fmt of Lit _ # _ \<Rightarrow> True | _ \<Rightarrow> False)) config_readers"
  by code_simp

lemma render_no_nul: "wf_format ds \<Longrightarrow> fits ds caps vs \<Longrightarrow> 0 \<notin> set (render ds vs)"
  by (induction ds caps vs rule: fits.induct) (auto simp: is_token_def dec_no_nul)

lemma read_into_zeros:
  assumes "length content < n" "0 \<notin> set content"
  shows "c_string (read_into (replicate n 0) content) = Some content"
proof -
  have "0 \<in> set (drop (length content) (replicate n (0 :: byte)))" using assms(1) by simp
  then show ?thesis using assms by (simp add: c_string_def read_into_def cstr_append_replicate)
qed

text \<open>The command built from names that fit their arrays always fits its own.\<close>

lemma conn_command_fits: "length u < 30 \<Longrightarrow> length d < 30 \<Longrightarrow> conn_command u d = Some (bytes ''user='' @ u @ bytes '' dbname='' @ d)"
  by (simp add: conn_command_def sprintf_buf_def)

lemma read_config_text:
  assumes "(fmt, caps, n) \<in> set config_readers" "fits (directives fmt) caps vs" "length vars = length vs"
    and "tail = [] \<or> hd tail = 10" "0 \<notin> set tail" "length (render (directives fmt) vs @ tail) < n"
  shows "read_config (File (render (directives fmt) vs @ tail)) (replicate n 0) fmt caps vars w = Some (Inr vs, w)"
proof -
  have wf: "wf_format (directives fmt)" and "case directives fmt of Lit _ # _ \<Rightarrow> True | _ \<Rightarrow> False"
    using wf_config_formats assms(1) by (auto simp: list_all_iff)
  then have "render (directives fmt) vs \<noteq> []" by (auto split: list.splits directive.splits)
  moreover have "0 \<notin> set (render (directives fmt) vs @ tail)" using render_no_nul [OF wf assms(2)] assms(5) by simp
  moreover have "tail = [] \<or> is_space (hd tail)" using assms(4) by auto
  ultimately show ?thesis
    using read_into_zeros [OF assms(6)] scan_render [OF wf assms(2), of tail] assms(3)
    by (simp add: read_config_def sscanf_def)
qed

text \<open>
  Claim C18: a configuration file is read back as it was written.  For every format and array size the programs use:
  when the file spells the format with values that fit their arrays, followed by nothing or by further lines,
  and is shorter than the array it is read into, the array being cleared first, then the \<open>main\<close> has
  exactly those values after \<open>sscanf\<close>, and nothing is logged.
\<close>

theorem config_round_trip:
  assumes "(fmt, caps, n) \<in> set config_readers" "fits (directives fmt) caps vs" "length vars = length vs"
    and "tail = [] \<or> hd tail = 10" "0 \<notin> set tail" "length (render (directives fmt) vs @ tail) < n"
  shows "load_config 2 (File (render (directives fmt) vs @ tail)) (replicate n 0) fmt caps vars w = Some (Inr vs, w)"
  by (simp only: load_config_def read_config_text [OF assms] if_False not_True_eq_False simp_thms)

text \<open>The values of \<open>conf/initial_sender1.conf\<close>, whose semaphore name fills its array to the last byte.\<close>

definition initial_sender1_values :: "scanned list" where
  "initial_sender1_values = [SStr (bytes ''shrikant''), SStr (bytes ''shrikant1''),
     SStr (34 # bytes ''sem_lock_isender1'' @ [34])]"

theorem config_round_trip_witness:
  "load_config 2 (File (render (directives fmt_is) initial_sender1_values)) (replicate 100 0) fmt_is [30, 30, 20] (replicate 3 (SStr []))
     \<lparr>conn = (), syslog = []\<rparr> = Some (Inr initial_sender1_values, \<lparr>conn = (), syslog = []\<rparr>) \<and>
   length (str_val (initial_sender1_values ! 2)) = 19"
proof -
  have f: "fits (directives fmt_is) [30, 30, 20] initial_sender1_values" by code_simp
  have l: "length (render (directives fmt_is) initial_sender1_values) < 100" by code_simp
  have m: "(fmt_is, [30, 30, 20], 100) \<in> set config_readers" by (simp add: config_readers_def)
  have v: "length (replicate 3 (SStr [])) = length initial_sender1_values" "length (str_val (initial_sender1_values ! 2)) = 19"
    by code_simp+
  show ?thesis
    using config_round_trip [OF m f v(1), of "[]" "\<lparr>conn = (), syslog = []\<rparr>"] l v(2) by simp
qed

text \<open>A format that ends in \<open>%s\<close>: the values before the last, and the last.\<close>

lemma fits_snoc:
  "arrays ds = length caps \<Longrightarrow> fits (ds @ [Str]) (caps @ [cap]) vs' \<Longrightarrow>
   \<exists>vs db. vs' = vs @ [SStr db] \<and> fits ds caps vs \<and> is_token db \<and> length db < cap \<and> render (ds @ [Str]) vs' = render ds vs @ db"
proof (induction ds arbitrary: caps vs')
  case Nil
  then show ?case by (cases vs'; cases "hd vs'") (auto)
next
  case (Cons d ds)
  show ?case
  proof (cases "d \<in> range Lit \<union> {Space}")
    case True
    with Cons.IH [of caps vs'] Cons.prems show ?thesis by fastforce
  next
    case False
    then have d: "d = Str \<or> d = Dec \<or> d = ULong" by (cases d) auto
    with Cons.prems obtain v vs1 where v: "vs' = v # vs1" by (cases vs'; cases caps) auto
    define caps1 where "caps1 = (if d = Str then tl caps else caps)"
    have 1: "arrays ds = length caps1" "fits (ds @ [Str]) (caps1 @ [cap]) vs1"
      using Cons.prems d v by (cases v; cases caps; auto simp: caps1_def)+
    obtain vs db where ih: "vs1 = vs @ [SStr db]" "fits ds caps1 vs" "is_token db" "length db < cap"
        "render (ds @ [Str]) vs1 = render ds vs @ db"
      using Cons.IH [OF 1] by blast
    have "fits (d # ds) caps (v # vs)" using Cons.prems d v ih(2) by (cases v; cases caps; auto simp: caps1_def)
    moreover have "render ((d # ds) @ [Str]) vs' = render (d # ds) (v # vs) @ db"
      using d v ih(5) by (cases v) auto
    moreover have "vs' = (v # vs) @ [SStr db]" using v ih(1) by simp
    ultimately show ?thesis using ih(3,4) by blast
  qed
qed

lemma cstr_read_into:
  assumes "length content < length stack" "0 \<in> set (drop (length content) stack)" "0 \<notin> set content"
  shows "c_string (read_into stack content) = Some (content @ cstr (drop (length content) stack))"
proof -
  have "cstr (content @ xs) = content @ cstr xs" for xs
    using assms(3) by (induction content) (auto simp: cstr_def)
  with assms show ?thesis by (simp add: c_string_def read_into_def)
qed

lemma fmt_s_last:
  "directives fmt_s = butlast (directives fmt_s) @ [Str]" "wf_format (directives fmt_s)"
  "arrays (butlast (directives fmt_s)) = 5" "last (butlast (directives fmt_s)) = Lit (byte_of CHR ''='')"
  "hd (directives fmt_s) = Lit (byte_of CHR ''S'')"
  by code_simp+

text \<open>
  Claim C39: what a \<open>main\<close> reads when the array was not cleared, as in \<open>sender.c\<close> and \<open>receiver.c\<close>.
  When the file ends in the name of the database without a newline, as the files of \<open>conf\<close> do,
  the name goes on with whatever the stack holds behind it, to the first blank or NUL, and the
  behaviour is undefined when the two together do not fit 30 bytes.
\<close>

theorem sender_reads_the_stack:
  assumes "fits (directives fmt_s) [20, 20, 20, 20, 30, 30] (vs @ [SStr db])" "content = render (directives fmt_s) (vs @ [SStr db])"
    and "length content < length stack" "0 \<in> set (drop (length content) stack)" "length vars = 8"
  shows "load_config 2 (File content) stack fmt_s [20, 20, 20, 20, 30, 30] vars w =
    (let g = takeWhile (\<lambda>b. \<not> is_space b) (cstr (drop (length content) stack)) in
     if length (db @ g) < 30 then Some (Inr (vs @ [SStr (db @ g)]), w) else None)"
proof -
  define ds where "ds = butlast (directives fmt_s)"
  have f: "directives fmt_s = ds @ [Str]" "wf_format (ds @ [Str])" "arrays ds = 5" "last ds = Lit (byte_of CHR ''='')"
    using fmt_s_last by (simp_all add: ds_def)
  define x where "x = cstr (drop (length content) stack)"
  obtain vs1 db1 where o: "vs @ [SStr db] = vs1 @ [SStr db1]" "fits ds [20, 20, 20, 20, 30] vs1" "is_token db1" "length db1 < 30"
      "content = render ds vs1 @ db1"
    using fits_snoc [of ds "[20, 20, 20, 20, 30]" 30 "vs @ [SStr db]"] assms(1,2) f by auto
  then have v: "vs1 = vs" "db1 = db" by auto
  have content: "0 \<notin> set content" "content \<noteq> []"
    using render_no_nul [OF f(2), of _ "vs @ [SStr db]"] assms(1,2) f(1) o(3,5) by (auto simp: is_token_def)
  have db: "db \<noteq> []" "\<not> is_space (hd db)" "\<forall>b \<in> set db. \<not> is_space b" using o(3) v by (auto simp: is_token_def)
  then have tok: "dropWhile is_space (db @ x) = db @ x" "takeWhile (\<lambda>b. \<not> is_space b) (db @ x) = db @ takeWhile (\<lambda>b. \<not> is_space b) x"
    by (simp_all add: dropWhile_hd takeWhile_append)
  have "scan (ds @ [Str]) ([20, 20, 20, 20, 30] @ [30]) (render ds vs @ db @ x) = map_option ((@) vs) (scan [Str] [30] (db @ x))"
    by (rule scan_prefix) (use f o v db in auto)
  then have "scan (directives fmt_s) [20, 20, 20, 20, 30, 30] (content @ x) =
      (if length (db @ takeWhile (\<lambda>b. \<not> is_space b) x) < 30 then Some (vs @ [SStr (db @ takeWhile (\<lambda>b. \<not> is_space b) x)]) else None)"
    using o v db tok by (simp add: f(1) Let_def)
  moreover have "length vs = 7"
  proof -
    have "fits ds caps us \<Longrightarrow> length us = length (filter (\<lambda>d. d \<in> {Str, Dec, ULong}) ds)" for caps us
      by (induction ds caps us rule: fits.induct) auto
    moreover have "length (filter (\<lambda>d. d \<in> {Str, Dec, ULong}) (butlast (directives fmt_s))) = 7" by code_simp
    ultimately show ?thesis using o(2) v unfolding ds_def by auto
  qed
  ultimately show ?thesis
    using cstr_read_into [OF assms(3,4) content(1)] content(2) assms(5)
    by (simp add: load_config_def read_config_def sscanf_def x_def Let_def)
qed

text \<open>\<open>conf/sender.conf\<close>, read with the four bytes \<open>!!9\<close> and NUL left on the stack behind it.\<close>

definition sender_values :: "scanned list" where
  "sender_values = [SStr (34 # bytes ''sem_lock_datas'' @ [34]), SStr (34 # bytes ''sem_lock_comms'' @ [34]),
     SStr (34 # bytes ''sem_lock_sigs'' @ [34]), SStr (34 # bytes ''sem_lock_sigps'' @ [34]), SInt 13, SInt 14,
     SStr (bytes ''shrikant'')]"

theorem sender_reads_the_stack_witness:
  "load_config 2 (File (render (directives fmt_s) (sender_values @ [SStr (bytes ''shrikant'')])))
     (replicate (length (render (directives fmt_s) (sender_values @ [SStr (bytes ''shrikant'')]))) 0 @ bytes ''!!9'' @ [0])
     fmt_s [20, 20, 20, 20, 30, 30] (replicate 8 (SStr [])) \<lparr>conn = (), syslog = []\<rparr> =
   Some (Inr (sender_values @ [SStr (bytes ''shrikant!!9'')]), \<lparr>conn = (), syslog = []\<rparr>)"
proof -
  let ?vs = "sender_values @ [SStr (bytes ''shrikant'')]"
  have f: "fits (directives fmt_s) [20, 20, 20, 20, 30, 30] ?vs" by code_simp
  have g: "takeWhile (\<lambda>b. \<not> is_space b) (cstr (bytes ''!!9'' @ [0])) = bytes ''!!9''" by code_simp
  have l: "length (bytes ''shrikant'' @ bytes ''!!9'') < 30" "bytes ''shrikant'' @ bytes ''!!9'' = bytes ''shrikant!!9''" by code_simp+
  show ?thesis
    using sender_reads_the_stack [OF f refl, of "replicate (length (render (directives fmt_s) ?vs)) 0 @ bytes ''!!9'' @ [0]"
        "replicate 8 (SStr [])" "\<lparr>conn = (), syslog = []\<rparr>"] g l
    by (simp add: Let_def)
qed

end
