(* ===== verification/Startup.thy ===== *)
theory Startup
  imports Config SharedMemory SendingSide ProcessorR Receiver InitialSender InitialReceiver
begin

text \<open>
  What each \<open>main\<close> does before its loop: read the configuration, connect, prepare the statements, open the
  semaphores, attach the segments, reset them.  The mains are copies of one another that differ in
  names, numbers and messages; these are the fields of \<open>program\<close>, and \<open>start_process\<close> is the code they
  share.  The kernel's namespaces of semaphores and segments, which the processes of a node share, are
  \<open>ipc\<close>: a semaphore gets its initial value only from the process that creates it, and a new segment
  is zero.
\<close>

section \<open>Semaphores and segments of the kernel\<close>

record ipc =
  sems :: "byte list \<Rightarrow> nat option"
  segs :: "int \<Rightarrow> (nat \<times> mem) option"

text \<open>\<open>sem_open(name, O_CREAT, 0777, init)\<close>; \<open>ok\<close> says which names the kernel accepts.\<close>

definition sem_open :: "(byte list \<Rightarrow> bool) \<Rightarrow> byte list \<Rightarrow> nat \<Rightarrow> ipc \<Rightarrow> bool \<times> ipc" where
  "sem_open ok name init k =
     (if ok name then (True, k\<lparr>sems := (sems k)(name := Some (case sems k name of None \<Rightarrow> init | Some v \<Rightarrow> v))\<rparr>)
      else (False, k))"

text \<open>System V segments: one for each key, of the size it was created with, identified by its key.\<close>

definition sysv :: "(byte list \<Rightarrow> int \<Rightarrow> int) \<Rightarrow> ipc shm_api" where
  "sysv f = \<lparr>ftok = f, page_size = 4096,
     shmget = (\<lambda>key n k. case segs k key of
         None \<Rightarrow> (key, k\<lparr>segs := (segs k)(key := Some (unat n, \<lambda>_. 0))\<rparr>)
       | Some (sz, _) \<Rightarrow> if unat n \<le> sz then (key, k) else (-1, k)),
     shmat = (\<lambda>i k. (if segs k i = None then -1 else i, k)),
     shmdt = (\<lambda>i k. (if segs k i = None then -1 else 0, k)),
     shmctl_rmid = (\<lambda>i k. (if segs k i = None then -1 else 0, k\<lparr>segs := (segs k)(i := None)\<rparr>))\<rparr>"

definition sem_value :: "ipc \<Rightarrow> byte list \<Rightarrow> nat" where
  "sem_value k name = (case sems k name of None \<Rightarrow> 0 | Some v \<Rightarrow> v)"

definition seg_mem :: "ipc \<Rightarrow> int \<Rightarrow> mem" where
  "seg_mem k i = (case segs k i of None \<Rightarrow> \<lambda>_. 0 | Some (_, m) \<Rightarrow> m)"

definition put_seg :: "int \<Rightarrow> mem \<Rightarrow> ipc \<Rightarrow> ipc" where
  "put_seg i m k = (case segs k i of None \<Rightarrow> k | Some (n, _) \<Rightarrow> k\<lparr>segs := (segs k)(i := Some (n, m))\<rparr>)"


section \<open>The code the mains share\<close>

text \<open>
  \<open>p_user\<close> is the place of \<open>USERNAME\<close> among the values, \<open>DBNAME\<close> comes next; \<open>p_sems\<close> gives the place of each
  semaphore's name with its initial value, \<open>p_blocks\<close> the place of each segment's number with its size.
\<close>

record program =
  p_fmt :: string
  p_caps :: "nat list"
  p_dbs :: "db_statement list"
  p_user :: nat
  p_sems :: "(nat \<times> nat) list"
  p_blocks :: "(nat \<times> nat) list"
  p_file :: string
  p_sem_msg :: string
  p_mem_msg :: string

text \<open>All semaphores are opened, then all looked at; likewise the segments.\<close>

fun open_all :: "(byte list \<Rightarrow> bool) \<Rightarrow> (byte list \<times> nat) list \<Rightarrow> ipc \<Rightarrow> bool \<times> ipc" where
  "open_all ok [] k = (True, k)"
| "open_all ok ((name, init) # ns) k =
     (let (r, k1) = sem_open ok name init k; (rs, k2) = open_all ok ns k1 in (r \<and> rs, k2))"

fun attach_all :: "ipc shm_api \<Rightarrow> string \<Rightarrow> (cint \<times> nat) list \<Rightarrow> ipc \<Rightarrow> int option list \<times> ipc" where
  "attach_all os file [] k = ([], k)"
| "attach_all os file ((key, sz) # bs) k =
     (let (r, k1) = attach_memory_block os (bytes file) (word_of_nat sz) (ucast key) k;
          (rs, k2) = attach_all os file bs k1 in (r # rs, k2))"

definition start_process ::
  "'c pq \<Rightarrow> (byte list \<Rightarrow> bool) \<Rightarrow> ipc shm_api \<Rightarrow> program \<Rightarrow> nat \<Rightarrow> conf_file \<Rightarrow> byte list \<Rightarrow> scanned list \<Rightarrow>
   ipc \<times> 'c world \<Rightarrow> ((int + scanned list \<times> int list) \<times> ipc \<times> 'c world) option" where
  "start_process pq ok os pr argc file buf vars = (\<lambda>(k, w). do {
     (r, w1) \<leftarrow> load_config argc file buf (p_fmt pr) (p_caps pr) vars w;
     case r of Inl e \<Rightarrow> Some (Inl e, k, w1)
     | Inr vs \<Rightarrow> do {
         cmd \<leftarrow> conn_command (str_val (vs ! p_user pr)) (str_val (vs ! Suc (p_user pr)));
         let (r1, w2) = connect_to_database pq cmd w1;
         if r1 = -1 then Some (Inl (-1), k, w2) else do {
         let (r2, w3) = prepare_statements pq (p_dbs pr) w2;
         if r2 = -1 then Some (Inl (-1), k, w3) else do {
         let (r3, k1) = open_all ok (List.map (\<lambda>(i, n). (str_val (vs ! i), n)) (p_sems pr)) k;
         if \<not> r3 then do {
           w4 \<leftarrow> storelog pq ''%s'' [vararg.VStr (bytes (p_sem_msg pr))] w3;
           Some (Inl (-1), k1, w4) } else do {
         let (as, k2) = attach_all os (p_file pr) (List.map (\<lambda>(i, n). (int_val (vs ! i), n)) (p_blocks pr)) k1;
         if None \<in> set as then do {
           w4 \<leftarrow> storelog pq ''%s'' [vararg.VStr (bytes (p_mem_msg pr))] w3;
           Some (Inl (-1), k2, w4) }
         else Some (Inr (vs, List.map the as), k2, w3) } } } } })"


section \<open>The sending side\<close>

definition processor_s_prog :: program where
  "processor_s_prog = \<lparr>p_fmt = fmt_s, p_caps = [20, 20, 20, 20, 30, 30], p_dbs = dbs_s, p_user = 6,
     p_sems = [(0, 1), (1, 1), (2, 0), (3, 0)], p_blocks = [(4, DATA_BLOCK_SIZE), (5, COMM_BLOCK_SIZE)],
     p_file = ''processor_s'', p_sem_msg = '' processor s failed to initialize locks'',
     p_mem_msg = ''processor s failed to get shared memory''\<rparr>"

definition dbs_sender :: "db_statement list" where
  "dbs_sender = [(''storelog'', ''INSERT INTO logs (log) VALUES ($1)'', 1)]"

definition sender_prog :: program where
  "sender_prog = \<lparr>p_fmt = fmt_s, p_caps = [20, 20, 20, 20, 30, 30], p_dbs = dbs_sender, p_user = 6,
     p_sems = [(0, 1), (1, 1), (2, 1), (3, 1)], p_blocks = [(4, DATA_BLOCK_SIZE), (5, COMM_BLOCK_SIZE)],
     p_file = ''processor_s'', p_sem_msg = ''sender not able to initialize locks'',
     p_mem_msg = ''sender not able to attach shared memory''\<rparr>"

text \<open>What a process of the sending side holds: four semaphores and two addresses.\<close>

record s_attach =
  at_datas :: "byte list"
  at_comms :: "byte list"
  at_sigs :: "byte list"
  at_sigps :: "byte list"
  at_datas_block :: int
  at_comms_block :: int

definition s_attach_of :: "scanned list \<Rightarrow> int list \<Rightarrow> s_attach" where
  "s_attach_of vs as = \<lparr>at_datas = str_val (vs ! 0), at_comms = str_val (vs ! 1), at_sigs = str_val (vs ! 2),
     at_sigps = str_val (vs ! 3), at_datas_block = as ! 0, at_comms_block = as ! 1\<rparr>"

text \<open>The shared state as the process sees it through them.\<close>

definition s_view :: "s_attach \<Rightarrow> ipc \<Rightarrow> s_shared" where
  "s_view a k = \<lparr>datas_block = seg_mem k (at_datas_block a), comms_block = seg_mem k (at_comms_block a),
     sem_lock_datas = sem_value k (at_datas a), sem_lock_comms = sem_value k (at_comms a),
     sem_lock_sigs = sem_value k (at_sigs a), sem_lock_sigps = sem_value k (at_sigps a)\<rparr>"

definition put_blocks :: "s_attach \<Rightarrow> s_shared \<Rightarrow> ipc \<Rightarrow> ipc" where
  "put_blocks a s k = put_seg (at_datas_block a) (datas_block s) (put_seg (at_comms_block a) (comms_block s) k)"

text \<open>\<open>main\<close> of \<open>processor_s.c\<close> up to \<open>run_process\<close>; the arrays it declares are cleared first.\<close>

definition processor_s_start ::
  "'c pq \<Rightarrow> (byte list \<Rightarrow> bool) \<Rightarrow> ipc shm_api \<Rightarrow> nat \<Rightarrow> conf_file \<Rightarrow> ipc \<times> 'c world \<Rightarrow>
   ((int + s_attach) \<times> ipc \<times> 'c world) option" where
  "processor_s_start pq ok os argc file kw = do {
     (r, k, w) \<leftarrow> start_process pq ok os processor_s_prog argc file (replicate 500 0)
        (replicate 4 (SStr []) @ [SInt 0, SInt 0] @ replicate 2 (SStr [])) kw;
     case r of Inl e \<Rightarrow> Some (Inl e, k, w)
     | Inr (vs, as) \<Rightarrow>
         (let a = s_attach_of vs as in Some (Inr a, put_blocks a (ProcessorS.reset_blocks (s_view a k)) k, w)) }"

text \<open>\<open>main\<close> of \<open>sender.c\<close> up to \<open>run_sender\<close>; its arrays are not cleared: \<open>stack\<close> and \<open>user\<close>, \<open>db\<close> are what they hold.\<close>

definition sender_start ::
  "'c pq \<Rightarrow> (byte list \<Rightarrow> bool) \<Rightarrow> ipc shm_api \<Rightarrow> byte list \<Rightarrow> byte list \<Rightarrow> byte list \<Rightarrow> nat \<Rightarrow> conf_file \<Rightarrow> ipc \<times> 'c world \<Rightarrow>
   ((int + s_attach) \<times> ipc \<times> 'c world) option" where
  "sender_start pq ok os stack user db argc file kw = do {
     (r, k, w) \<leftarrow> start_process pq ok os sender_prog argc file stack
        (replicate 4 (SStr []) @ [SInt 0, SInt 0, SStr user, SStr db]) kw;
     case r of Inl e \<Rightarrow> Some (Inl e, k, w)
     | Inr (vs, as) \<Rightarrow> Some (Inr (s_attach_of vs as), k, w) }"


section \<open>The receiving side\<close>

definition processor_r_prog :: program where
  "processor_r_prog = \<lparr>p_fmt = fmt_r, p_caps = [20, 20, 20, 30, 30], p_dbs = dbs_r, p_user = 5,
     p_sems = [(0, 1), (1, 1), (2, 0)], p_blocks = [(3, DATA_BLOCK_SIZE), (4, COMM_BLOCK_SIZE)],
     p_file = ''processor_r'', p_sem_msg = '' processor r failed to intialize locks'',
     p_mem_msg = '' procsssor s failed to get shared memory''\<rparr>"

definition dbs_receiver :: "db_statement list" where
  "dbs_receiver = [(''storelog'', ''INSERT INTO logs (log) VALUES ($1);'', 1)]"

definition receiver_prog :: program where
  "receiver_prog = \<lparr>p_fmt = fmt_receiver, p_caps = [20, 20, 20, 30, 30], p_dbs = dbs_receiver, p_user = 5,
     p_sems = [(0, 1), (1, 1), (2, 0)], p_blocks = [(3, DATA_BLOCK_SIZE), (4, COMM_BLOCK_SIZE)],
     p_file = ''processor_r'', p_sem_msg = ''receiver failed to intialize locks'',
     p_mem_msg = ''receiver failed to get shared memory''\<rparr>"

record r_attach =
  at_datar :: "byte list"
  at_commr :: "byte list"
  at_sigr :: "byte list"
  at_datar_block :: int
  at_commr_block :: int

definition r_attach_of :: "scanned list \<Rightarrow> int list \<Rightarrow> r_attach" where
  "r_attach_of vs as = \<lparr>at_datar = str_val (vs ! 0), at_commr = str_val (vs ! 1), at_sigr = str_val (vs ! 2),
     at_datar_block = as ! 0, at_commr_block = as ! 1\<rparr>"

definition r_view :: "r_attach \<Rightarrow> ipc \<Rightarrow> r_shared" where
  "r_view a k = \<lparr>datar_block = seg_mem k (at_datar_block a), commr_block = seg_mem k (at_commr_block a),
     sem_lock_datar = sem_value k (at_datar a), sem_lock_commr = sem_value k (at_commr a), sem_lock_sigr = sem_value k (at_sigr a)\<rparr>"

text \<open>\<open>main\<close> of \<open>processor_r.c\<close> up to \<open>run_process\<close>.\<close>

definition processor_r_start ::
  "'c pq \<Rightarrow> (byte list \<Rightarrow> bool) \<Rightarrow> ipc shm_api \<Rightarrow> nat \<Rightarrow> conf_file \<Rightarrow> ipc \<times> 'c world \<Rightarrow>
   ((int + r_attach) \<times> ipc \<times> 'c world) option" where
  "processor_r_start pq ok os argc file kw = do {
     (r, k, w) \<leftarrow> start_process pq ok os processor_r_prog argc file (replicate 500 0)
        (replicate 3 (SStr []) @ [SInt 0, SInt 0] @ replicate 2 (SStr [])) kw;
     case r of Inl e \<Rightarrow> Some (Inl e, k, w)
     | Inr (vs, as) \<Rightarrow>
         (let a = r_attach_of vs as; s = ProcessorR.reset_blocks (r_view a k) in
          Some (Inr a, put_seg (at_datar_block a) (datar_block s) (put_seg (at_commr_block a) (commr_block s) k), w)) }"

text \<open>
  \<open>main\<close> of \<open>receiver.c\<close> up to \<open>run_receiver\<close>; \<open>st\<close> holds the globals that are still zero and what
  \<open>run_receiver\<close> finds in its locals.
\<close>

definition receiver_start ::
  "'c pq \<Rightarrow> (byte list \<Rightarrow> bool) \<Rightarrow> ipc shm_api \<Rightarrow> 'k kernel \<Rightarrow> bool \<Rightarrow> nat option list \<Rightarrow> byte list \<Rightarrow> byte list \<Rightarrow> byte list \<Rightarrow>
   ('c, 'k) rcv \<Rightarrow> nat \<Rightarrow> conf_file \<Rightarrow> ipc \<times> 'c world \<Rightarrow> ((int + r_attach \<times> ('c, 'k) rcv) \<times> ipc \<times> 'c world) option" where
  "receiver_start pq ok os kn table_ok callocs stack user db st argc file kw = do {
     (r, k, w) \<leftarrow> start_process pq ok os receiver_prog argc file stack
        (replicate 3 (SStr []) @ [SInt 0, SInt 0, SStr user, SStr db, SInt 0, SLong 0]) kw;
     case r of Inl e \<Rightarrow> Some (Inl e, k, w)
     | Inr (vs, as) \<Rightarrow> do {
         let a = r_attach_of vs as;
         (r1, st1) \<leftarrow> start_receiver pq kn table_ok callocs
            (st\<lparr>s_info := (s_info st)\<lparr>server_info.port := int_val (vs ! 7), server_info.ipaddress := long_val (vs ! 8)\<rparr>,
               shm := r_view a k, db_world := w\<rparr>);
         Some (if r1 = -1 then Inl (-1) else Inr (a, st1), k, db_world st1) } }"


section \<open>The two processes of the handshake\<close>

definition initial_sender_prog :: program where
  "initial_sender_prog = \<lparr>p_fmt = fmt_is, p_caps = [30, 30, 20], p_dbs = dbs_is, p_user = 0, p_sems = [(2, 0)], p_blocks = [],
     p_file = [], p_sem_msg = ''initial sender failed to intialize locks'', p_mem_msg = []\<rparr>"

text \<open>The name of its semaphore is what it goes on with.\<close>

definition initial_sender_start ::
  "'c pq \<Rightarrow> (byte list \<Rightarrow> bool) \<Rightarrow> ipc shm_api \<Rightarrow> nat \<Rightarrow> conf_file \<Rightarrow> ipc \<times> 'c world \<Rightarrow> ((int + byte list) \<times> ipc \<times> 'c world) option" where
  "initial_sender_start pq ok os argc file kw = do {
     (r, k, w) \<leftarrow> start_process pq ok os initial_sender_prog argc file (replicate 100 0) (replicate 3 (SStr [])) kw;
     Some (case r of Inl e \<Rightarrow> Inl e | Inr (vs, _) \<Rightarrow> Inr (str_val (vs ! 2)), k, w) }"

definition initial_receiver_prog :: program where
  "initial_receiver_prog = \<lparr>p_fmt = fmt_ir, p_caps = [30, 30], p_dbs = dbs_ir, p_user = 0, p_sems = [], p_blocks = [],
     p_file = [], p_sem_msg = [], p_mem_msg = []\<rparr>"

text \<open>It goes on with the port and the address to listen on.\<close>

definition initial_receiver_start ::
  "'c pq \<Rightarrow> (byte list \<Rightarrow> bool) \<Rightarrow> ipc shm_api \<Rightarrow> byte list \<Rightarrow> byte list \<Rightarrow> nat \<Rightarrow> conf_file \<Rightarrow> ipc \<times> 'c world \<Rightarrow>
   ((int + cint \<times> 64 word) \<times> ipc \<times> 'c world) option" where
  "initial_receiver_start pq ok os user db argc file kw = do {
     (r, k, w) \<leftarrow> start_process pq ok os initial_receiver_prog argc file (replicate 100 0) [SStr user, SStr db, SInt 0, SLong 0] kw;
     Some (case r of Inl e \<Rightarrow> Inl e | Inr (vs, _) \<Rightarrow> Inr (int_val (vs ! 2), long_val (vs ! 3)), k, w) }"


section \<open>What the shared part leaves\<close>

text \<open>Connecting and preparing both succeed.\<close>

definition connects :: "'c pq \<Rightarrow> db_statement list \<Rightarrow> byte list \<Rightarrow> 'c world \<Rightarrow> 'c world \<Rightarrow> bool" where
  "connects pq dbs cmd w w' \<longleftrightarrow>
     (let (r1, w1) = connect_to_database pq cmd w in r1 = 0 \<and> prepare_statements pq dbs w1 = (0, w'))"

lemma start_process_ok:
  assumes "load_config argc file buf (p_fmt pr) (p_caps pr) vars w = Some (Inr vs, w)"
    and "length (str_val (vs ! p_user pr)) < 30" "length (str_val (vs ! Suc (p_user pr))) < 30"
    and "connects pq (p_dbs pr)
      (bytes ''user='' @ str_val (vs ! p_user pr) @ bytes '' dbname='' @ str_val (vs ! Suc (p_user pr))) w w'"
    and "open_all ok (List.map (\<lambda>(i, n). (str_val (vs ! i), n)) (p_sems pr)) k = (True, k1)"
    and "attach_all os (p_file pr) (List.map (\<lambda>(i, n). (int_val (vs ! i), n)) (p_blocks pr)) k1 = (List.map Some as, k2)"
  shows "start_process pq ok os pr argc file buf vars (k, w) = Some (Inr (vs, as), k2, w')"
  using assms conn_command_fits [OF assms(2,3)]
  by (auto simp: start_process_def connects_def Let_def comp_def split: prod.splits)

lemma sem_open_ok: "ok name \<Longrightarrow> sem_open ok name init k =
    (True, k\<lparr>sems := (sems k)(name := Some (case sems k name of None \<Rightarrow> init | Some v \<Rightarrow> v))\<rparr>)"
  by (simp add: sem_open_def)

text \<open>The segment of a key, after a process asked for \<open>n\<close> bytes.\<close>

definition with_seg :: "int \<Rightarrow> nat \<Rightarrow> ipc \<Rightarrow> ipc" where
  "with_seg key n k = (case segs k key of None \<Rightarrow> k\<lparr>segs := (segs k)(key := Some (n, \<lambda>_. 0))\<rparr> | Some _ \<Rightarrow> k)"

definition pages :: "nat \<Rightarrow> nat" where
  "pages n = unat (rounded_size 4096 (word_of_nat n))"

lemma attach_sysv:
  assumes "f (bytes file) (sint (ucast key :: byte)) = a" "a \<noteq> -1"
    and "\<And>n m. segs k a = Some (n, m) \<Longrightarrow> pages sz \<le> n"
  shows "attach_memory_block (sysv f) (bytes file) (word_of_nat sz) (ucast (key :: cint)) k = (Some a, with_seg a (pages sz) k)"
proof (cases "segs k a")
  case None
  then show ?thesis
    using assms by (simp add: attach_memory_block_def get_shared_block_def get_key_def sysv_def with_seg_def pages_def)
next
  case (Some nm)
  obtain n m where "nm = (n, m)" by (cases nm)
  with Some assms(3) [of n m] assms(1,2) show ?thesis
    by (simp add: attach_memory_block_def get_shared_block_def get_key_def sysv_def with_seg_def pages_def)
qed

lemma with_seg_simps [simp]:
  "sems (with_seg a n k) = sems k"
  "segs (with_seg a n k) = (segs k)(a := Some (case segs k a of None \<Rightarrow> (n, \<lambda>_. 0) | Some x \<Rightarrow> x))"
  by (auto simp: with_seg_def split: option.split)

lemma put_seg_simps [simp]:
  "sems (put_seg a m k) = sems k"
  "segs (put_seg a m k) = (segs k)(a := map_option (\<lambda>(n, _). (n, m)) (segs k a))"
  by (auto simp: put_seg_def split: option.split)


section \<open>Both processes of the sending side\<close>

text \<open>The values of \<open>conf/sender.conf\<close> and its copies: four semaphores, two numbers, the user and the database.\<close>

definition s_values :: "byte list \<Rightarrow> byte list \<Rightarrow> byte list \<Rightarrow> byte list \<Rightarrow> cint \<Rightarrow> cint \<Rightarrow> byte list \<Rightarrow> byte list \<Rightarrow> scanned list" where
  "s_values n1 n2 n3 n4 p q u d = [SStr n1, SStr n2, SStr n3, SStr n4, SInt p, SInt q, SStr u, SStr d]"

definition s_key :: "(byte list \<Rightarrow> int \<Rightarrow> int) \<Rightarrow> cint \<Rightarrow> int" where
  "s_key f p = f (bytes ''processor_s'') (sint (ucast p :: byte))"

definition s_attached :: "(byte list \<Rightarrow> int \<Rightarrow> int) \<Rightarrow> byte list \<Rightarrow> byte list \<Rightarrow> byte list \<Rightarrow> byte list \<Rightarrow> cint \<Rightarrow> cint \<Rightarrow> s_attach" where
  "s_attached f n1 n2 n3 n4 p q = \<lparr>at_datas = n1, at_comms = n2, at_sigs = n3, at_sigps = n4,
     at_datas_block = s_key f p, at_comms_block = s_key f q\<rparr>"

text \<open>The kernel after four semaphores and two segments have been asked for.\<close>

definition s_opened :: "(byte list \<Rightarrow> int \<Rightarrow> int) \<Rightarrow> byte list \<Rightarrow> byte list \<Rightarrow> byte list \<Rightarrow> byte list \<Rightarrow> cint \<Rightarrow> cint \<Rightarrow> nat \<Rightarrow> ipc \<Rightarrow> ipc" where
  "s_opened f n1 n2 n3 n4 p q i k =
     with_seg (s_key f q) (pages COMM_BLOCK_SIZE) (with_seg (s_key f p) (pages DATA_BLOCK_SIZE)
       (snd (open_all (\<lambda>_. True) [(n1, 1), (n2, 1), (n3, i), (n4, i)] k)))"

lemma load_zeros:
  assumes "(fmt, caps, n) \<in> set config_readers" "fits (directives fmt) caps vs" "length vars = length vs"
    and "tail = [] \<or> hd tail = 10" "0 \<notin> set tail" "length (render (directives fmt) vs @ tail) < n"
    and "length stack = n" "0 \<in> set (drop (length (render (directives fmt) vs @ tail)) stack)"
    and "tail \<noteq> [] \<or> stack = replicate n 0"
  shows "load_config 2 (File (render (directives fmt) vs @ tail)) stack fmt caps vars w = Some (Inr vs, w)"
proof -
  have wf: "wf_format (directives fmt)" and "case directives fmt of Lit _ # _ \<Rightarrow> True | _ \<Rightarrow> False"
    using wf_config_formats assms(1) by (auto simp: list_all_iff)
  then have ne: "render (directives fmt) vs \<noteq> []" by (auto split: list.splits directive.splits)
  let ?c = "render (directives fmt) vs @ tail"
  have nul: "0 \<notin> set ?c" using render_no_nul [OF wf assms(2)] assms(5) by simp
  let ?x = "cstr (drop (length ?c) stack)"
  have "tail @ ?x = [] \<or> is_space (hd (tail @ ?x))" using assms(4,9) by (auto simp: cstr_def)
  then have "scan (directives fmt) caps (render (directives fmt) vs @ tail @ ?x) = Some vs"
    by (rule scan_render [OF wf assms(2)])
  then show ?thesis using cstr_read_into [of ?c stack] nul ne assms(3,6-8) by (simp add: load_config_def read_config_def sscanf_def)
qed

lemma s_config: "(fmt_s, [20, 20, 20, 20, 30, 30], 500) \<in> set config_readers"
  by (simp add: config_readers_def)

lemma fits_fmt_s:
  assumes "fits (directives fmt_s) [20, 20, 20, 20, 30, 30] (s_values n1 n2 n3 n4 p q u d)"
  shows "length u < 30 \<and> length d < 30"
proof -
  have conv: "fits ds caps vs \<Longrightarrow> fits (filter (\<lambda>d. d \<in> {Str, Dec, ULong}) ds) caps vs" for ds caps vs
    by (induction ds caps vs rule: fits.induct) auto
  have "filter (\<lambda>d. d \<in> {Str, Dec, ULong}) (directives fmt_s) = [Str, Str, Str, Str, Dec, Dec, Str, Str]" by code_simp
  with conv [OF assms] show ?thesis by (simp add: s_values_def)
qed

lemma open_all_ok:
  "\<forall>(n, i) \<in> set ns. ok n \<Longrightarrow> open_all ok ns k = (True, snd (open_all (\<lambda>_. True) ns k))"
  by (induction ok ns k rule: open_all.induct) (auto simp: sem_open_def split: prod.splits)

lemma open_all_segs [simp]: "segs (snd (open_all ok ns k)) = segs k"
  by (induction ok ns k rule: open_all.induct) (auto simp: sem_open_def split: prod.splits if_splits)

text \<open>Either program, from a kernel whose segments of these keys are large enough.\<close>

lemma start_s:
  assumes "pr \<in> {processor_s_prog, sender_prog}" "i = (if pr = processor_s_prog then 0 else 1)"
    and "load_config 2 file buf fmt_s [20, 20, 20, 20, 30, 30] vars w = Some (Inr (s_values n1 n2 n3 n4 p q u d), w)"
    and "length u < 30" "length d < 30"
    and "connects pq (p_dbs pr) (bytes ''user='' @ u @ bytes '' dbname='' @ d) w w'"
    and "ok n1" "ok n2" "ok n3" "ok n4" "s_key f p \<noteq> -1" "s_key f q \<noteq> -1" "s_key f p \<noteq> s_key f q"
    and "\<And>n m. segs k (s_key f p) = Some (n, m) \<Longrightarrow> pages DATA_BLOCK_SIZE \<le> n"
    and "\<And>n m. segs k (s_key f q) = Some (n, m) \<Longrightarrow> pages COMM_BLOCK_SIZE \<le> n"
  shows "start_process pq ok (sysv f) pr 2 file buf vars (k, w) =
    Some (Inr (s_values n1 n2 n3 n4 p q u d, [s_key f p, s_key f q]), s_opened f n1 n2 n3 n4 p q i k, w')"
proof -
  define k1 where "k1 = snd (open_all (\<lambda>_. True) [(n1, 1), (n2, 1), (n3, i), (n4, i)] k)"
  have seg1: "segs k1 = segs k" unfolding k1_def by (rule open_all_segs)
  have "p_fmt pr = fmt_s" "p_caps pr = [20, 20, 20, 20, 30, 30]" "p_user pr = 6" "p_file pr = ''processor_s''"
    and sems: "p_sems pr = [(0, 1), (1, 1), (2, i), (3, i)]" and blocks: "p_blocks pr = [(4, DATA_BLOCK_SIZE), (5, COMM_BLOCK_SIZE)]"
    using assms(1,2) by (auto simp: processor_s_prog_def sender_prog_def)
  note pr = this
  let ?vs = "s_values n1 n2 n3 n4 p q u d"
  have vs: "?vs ! 0 = SStr n1" "?vs ! 1 = SStr n2" "?vs ! 2 = SStr n3" "?vs ! 3 = SStr n4" "?vs ! 4 = SInt p"
      "?vs ! 5 = SInt q" "?vs ! 6 = SStr u" "?vs ! 7 = SStr d"
    by (simp_all add: s_values_def eval_nat_numeral)
  have names: "List.map (\<lambda>(i, n). (str_val (?vs ! i), n)) (p_sems pr) = [(n1, 1), (n2, 1), (n3, i), (n4, i)]"
    by (simp add: sems s_values_def str_val_def eval_nat_numeral)
  have op: "open_all ok (List.map (\<lambda>(i, n). (str_val (?vs ! i), n)) (p_sems pr)) k = (True, k1)"
    unfolding names k1_def by (rule open_all_ok) (use assms(7-10) in simp)
  have a1: "attach_memory_block (sysv f) (bytes ''processor_s'') (word_of_nat DATA_BLOCK_SIZE) (ucast p) k1 =
      (Some (s_key f p), with_seg (s_key f p) (pages DATA_BLOCK_SIZE) k1)"
    by (rule attach_sysv) (use assms(11,14) seg1 in \<open>auto simp: s_key_def\<close>)
  have a2: "attach_memory_block (sysv f) (bytes ''processor_s'') (word_of_nat COMM_BLOCK_SIZE) (ucast q)
      (with_seg (s_key f p) (pages DATA_BLOCK_SIZE) k1) =
      (Some (s_key f q), with_seg (s_key f q) (pages COMM_BLOCK_SIZE) (with_seg (s_key f p) (pages DATA_BLOCK_SIZE) k1))"
    by (rule attach_sysv) (use assms(12,13,15) seg1 in \<open>auto simp: s_key_def\<close>)
  show ?thesis
    by (rule start_process_ok [where ?k1.0 = k1])
      (use assms(3-6) op a1 a2 in \<open>simp_all add: pr vs str_val_def int_val_def blocks s_opened_def k1_def\<close>)
qed


lemma open_all_sems:
  "distinct (List.map fst ns) \<Longrightarrow> sems (snd (open_all (\<lambda>_. True) ns k)) n = (case sems k n of Some v \<Rightarrow> Some v | None \<Rightarrow> map_of ns n)"
proof (induction ns arbitrary: k)
  case (Cons x ns)
  obtain m i where x: "x = (m, i)" by (cases x)
  have "map_of ns m = None" using Cons.prems x by (auto simp: map_of_eq_None_iff)
  then show ?case using Cons by (auto simp: x sem_open_def split: prod.splits option.splits)
qed (simp split: option.split)

lemma sem_value_opened:
  assumes "distinct [n1, n2, n3, n4]"
  shows "sem_value (s_opened f n1 n2 n3 n4 p q i k) n =
    (case sems k n of Some v \<Rightarrow> v | None \<Rightarrow> if n \<in> {n1, n2} then 1 else if n \<in> {n3, n4} then i else 0)"
  using assms open_all_sems [of "[(n1, 1), (n2, 1), (n3, i), (n4, i)]" k n]
  by (auto simp: s_opened_def sem_value_def simp del: open_all.simps split: option.splits)

lemma seg_mem_opened [simp]: "seg_mem (s_opened f n1 n2 n3 n4 p q i k) a = seg_mem k a"
  by (auto simp: s_opened_def seg_mem_def simp del: open_all.simps split: option.splits)

lemma sem_value_put_blocks [simp]: "sems (put_blocks a s k) = sems k"
  by (simp add: put_blocks_def)

lemma seg_mem_put_blocks:
  assumes "at_datas_block a \<noteq> at_comms_block a" "segs k (at_datas_block a) \<noteq> None" "segs k (at_comms_block a) \<noteq> None"
  shows "seg_mem (put_blocks a s k) (at_datas_block a) = datas_block s" "seg_mem (put_blocks a s k) (at_comms_block a) = comms_block s"
  using assms by (auto simp: put_blocks_def seg_mem_def)

lemma segs_opened:
  assumes "s_key f p \<noteq> s_key f q"
  shows "segs (s_opened f n1 n2 n3 n4 p q i k) (s_key f p) = Some (case segs k (s_key f p) of None \<Rightarrow> (pages DATA_BLOCK_SIZE, \<lambda>_. 0) | Some x \<Rightarrow> x)"
    "segs (s_opened f n1 n2 n3 n4 p q i k) (s_key f q) = Some (case segs k (s_key f q) of None \<Rightarrow> (pages COMM_BLOCK_SIZE, \<lambda>_. 0) | Some x \<Rightarrow> x)"
  using assms by (simp_all add: s_opened_def del: open_all.simps)

lemma reset_zero:
  assumes "datas_block s = (\<lambda>_. 0)" "comms_block s = (\<lambda>_. 0)"
  shows "contents CPARTITION_SIZE t (comms_block (ProcessorS.reset_blocks s)) = {#}"
    "contents DPARTITION_SIZE t (datas_block (ProcessorS.reset_blocks s)) = {#}"
proof -
  have z: "\<not> used (\<lambda>_. 0) k" if "k < 80" for k
    using no_slots_used [of 3] that by (auto simp: used_slots_def set_slots)
  show "contents CPARTITION_SIZE t (comms_block (ProcessorS.reset_blocks s)) = {#}"
    "contents DPARTITION_SIZE t (datas_block (ProcessorS.reset_blocks s)) = {#}"
    using assms z slots_less
    by (auto simp: contents_empty_iff used_slots_def ProcessorS.reset_blocks_def used_unset_all_bits bulk_def)
qed


text \<open>What the theorem below asks of the names, the numbers and the kernel before the two programs start.\<close>

definition fresh_for_s :: "(byte list \<Rightarrow> bool) \<Rightarrow> (byte list \<Rightarrow> int \<Rightarrow> int) \<Rightarrow> byte list list \<Rightarrow> cint \<Rightarrow> cint \<Rightarrow> ipc \<Rightarrow> bool" where
  "fresh_for_s ok f ns p q k \<longleftrightarrow>
     distinct ns \<and> (\<forall>n \<in> set ns. ok n \<and> sems k n = None) \<and> s_key f p \<noteq> -1 \<and> s_key f q \<noteq> -1 \<and> s_key f p \<noteq> s_key f q \<and>
     segs k (s_key f p) = None \<and> segs k (s_key f q) = None"

lemma s_view_opened:
  "at_datas_block a = s_key f p \<Longrightarrow> at_comms_block a = s_key f q \<Longrightarrow>
   datas_block (s_view a (s_opened f n1 n2 n3 n4 p q i k)) = seg_mem k (s_key f p) \<and>
   comms_block (s_view a (s_opened f n1 n2 n3 n4 p q i k)) = seg_mem k (s_key f q)"
  by (simp add: s_view_def)

lemma s_view_reset:
  assumes "at_datas_block a \<noteq> at_comms_block a" "segs k (at_datas_block a) \<noteq> None" "segs k (at_comms_block a) \<noteq> None"
  shows "s_view a (put_blocks a (ProcessorS.reset_blocks (s_view a k)) k) = ProcessorS.reset_blocks (s_view a k)"
  using seg_mem_put_blocks [OF assms, of "ProcessorS.reset_blocks (s_view a k)"]
  by (simp add: s_view_def ProcessorS.reset_blocks_def sem_value_def)

text \<open>The shared state when both have started, \<open>i\<close> the value of the two signals.\<close>

lemma s_started:
  fixes i j :: nat
  assumes "fresh_for_s ok f [n1, n2, n3, n4] p q k"
  defines "a \<equiv> s_attached f n1 n2 n3 n4 p q"
  defines "k1 \<equiv> s_opened f n1 n2 n3 n4 p q i k"
  defines "k2 \<equiv> put_blocks a (ProcessorS.reset_blocks (s_view a k1)) k1"
  shows "s_view a k2 = ProcessorS.reset_blocks (s_view a k1)"
    and "sem_lock_datas (s_view a k1) = 1" "sem_lock_comms (s_view a k1) = 1"
    and "sem_lock_sigs (s_view a k1) = i" "sem_lock_sigps (s_view a k1) = i"
    and "datas_block (s_view a k1) = (\<lambda>_. 0)" "comms_block (s_view a k1) = (\<lambda>_. 0)"
    and "s_view a (s_opened f n1 n2 n3 n4 p q j k2) = s_view a k2"
    and "s_view a (s_opened f n1 n2 n3 n4 p q j k1) = s_view a k1"
    and "segs k2 (s_key f p) \<noteq> None" "segs k2 (s_key f q) \<noteq> None"
proof -
  have fr: "distinct [n1, n2, n3, n4]" "s_key f p \<noteq> s_key f q" "segs k (s_key f p) = None" "segs k (s_key f q) = None"
    "sems k n1 = None" "sems k n2 = None" "sems k n3 = None" "sems k n4 = None"
    using assms(1) by (auto simp: fresh_for_s_def)
  note d = fr(1)
  note v = sem_value_opened [OF d]
  have at: "at_datas_block a = s_key f p" "at_comms_block a = s_key f q" "at_datas a = n1" "at_comms a = n2" "at_sigs a = n3" "at_sigps a = n4"
    by (simp_all add: a_def s_attached_def)
  have sk: "segs k1 (s_key f p) \<noteq> None" "segs k1 (s_key f q) \<noteq> None"
    unfolding k1_def using segs_opened [OF fr(2)] by auto
  have seg: "seg_mem k2 (s_key f p) = datas_block (ProcessorS.reset_blocks (s_view a k1))"
      "seg_mem k2 (s_key f q) = comms_block (ProcessorS.reset_blocks (s_view a k1))"
    unfolding k2_def using seg_mem_put_blocks [of a k1] at fr(2) sk by simp_all
  have sems: "sems k2 = sems k1" by (simp add: k2_def)
  show "s_view a k2 = ProcessorS.reset_blocks (s_view a k1)"
    using seg sems by (simp add: s_view_def at ProcessorS.reset_blocks_def sem_value_def)
  show "sem_lock_datas (s_view a k1) = 1" "sem_lock_comms (s_view a k1) = 1" "sem_lock_sigs (s_view a k1) = i" "sem_lock_sigps (s_view a k1) = i"
    unfolding k1_def using d fr by (auto simp: s_view_def at v)
  show "datas_block (s_view a k1) = (\<lambda>_. 0)" "comms_block (s_view a k1) = (\<lambda>_. 0)"
    unfolding k1_def using s_view_opened [of a f p q] at fr by (simp_all add: seg_mem_def)
  have some: "sems k1 n \<noteq> None" if "n \<in> {n1, n2, n3, n4}" for n
    using open_all_sems [of "[(n1, 1), (n2, 1), (n3, i), (n4, i)]" k n] d that
    by (auto simp: k1_def s_opened_def simp del: open_all.simps split: option.splits)
  have sv: "sem_value (s_opened f n1 n2 n3 n4 p q j k') n = sem_value k1 n" if "sems k' = sems k1" "n \<in> {n1, n2, n3, n4}" for k' n j
    unfolding v using some [OF that(2)] that(1) by (auto simp: sem_value_def)
  show "s_view a (s_opened f n1 n2 n3 n4 p q j k2) = s_view a k2" "s_view a (s_opened f n1 n2 n3 n4 p q j k1) = s_view a k1"
    using sv [OF sems] sv [of k1] sems by (simp_all add: s_view_def at sem_value_def [of k2] sem_value_def [of k1])
  show "segs k2 (s_key f p) \<noteq> None" "segs k2 (s_key f q) \<noteq> None"
    unfolding k2_def put_blocks_def using sk at by auto
qed


lemma s_attach_of_values [simp]:
  "s_attach_of (s_values n1 n2 n3 n4 p q u d) [s_key f p, s_key f q] = s_attached f n1 n2 n3 n4 p q"
  by (simp add: s_attach_of_def s_values_def s_attached_def str_val_def eval_nat_numeral)

text \<open>Each program alone, from a kernel in which the segments do not exist or have the right size.\<close>

lemma both_start_s:
  assumes "fits (directives fmt_s) [20, 20, 20, 20, 30, 30] (s_values n1 n2 n3 n4 p q u d)"
    and "content = render (directives fmt_s) (s_values n1 n2 n3 n4 p q u d) @ 10 # tail" "0 \<notin> set tail"
    and "length content < 500" "length stack = 500" "0 \<in> set (drop (length content) stack)"
    and "ok n1" "ok n2" "ok n3" "ok n4" "s_key f p \<noteq> -1" "s_key f q \<noteq> -1" "s_key f p \<noteq> s_key f q"
    and "\<And>n m. segs k (s_key f p) = Some (n, m) \<Longrightarrow> pages DATA_BLOCK_SIZE \<le> n"
    and "\<And>n m. segs k (s_key f q) = Some (n, m) \<Longrightarrow> pages COMM_BLOCK_SIZE \<le> n"
  defines "a \<equiv> s_attached f n1 n2 n3 n4 p q"
  defines "cmd \<equiv> bytes ''user='' @ u @ bytes '' dbname='' @ d"
  shows "connects pq dbs_s cmd w w' \<Longrightarrow> processor_s_start pq ok (sysv f) 2 (File content) (k, w) =
      (let k1 = s_opened f n1 n2 n3 n4 p q 0 k in Some (Inr a, put_blocks a (ProcessorS.reset_blocks (s_view a k1)) k1, w'))"
    and "connects pq dbs_sender cmd w w' \<Longrightarrow> sender_start pq ok (sysv f) stack user db 2 (File content) (k, w) =
      Some (Inr a, s_opened f n1 n2 n3 n4 p q 1 k, w')"
proof -
  note ud = fits_fmt_s [OF assms(1)]
  have ne: "processor_s_prog \<noteq> sender_prog" by (simp add: processor_s_prog_def sender_prog_def)
  have dbs: "p_dbs processor_s_prog = dbs_s" "p_dbs sender_prog = dbs_sender" by (simp_all add: processor_s_prog_def sender_prog_def)
  have z: "length (replicate 4 (SStr []) @ [SInt 0, SInt 0] @ replicate 2 (SStr [])) = length (s_values n1 n2 n3 n4 p q u d)"
      "length (replicate 4 (SStr []) @ [SInt 0, SInt 0, SStr user, SStr db]) = length (s_values n1 n2 n3 n4 p q u d)"
    by (simp_all add: s_values_def)
  have len: "length (render (directives fmt_s) (s_values n1 n2 n3 n4 p q u d) @ 10 # tail) < 500" using assms(2,4) by simp
  have "0 \<in> set (drop (length content) (replicate 500 (0 :: byte)))" using assms(4) by simp
  then have l1: "load_config 2 (File content) (replicate 500 0) fmt_s [20, 20, 20, 20, 30, 30]
      (replicate 4 (SStr []) @ [SInt 0, SInt 0] @ replicate 2 (SStr [])) w = Some (Inr (s_values n1 n2 n3 n4 p q u d), w)" for w :: "'a world"
    unfolding assms(2) by (intro load_zeros [OF s_config assms(1) z(1)]) (use assms(3) len in auto)
  have l2: "load_config 2 (File content) stack fmt_s [20, 20, 20, 20, 30, 30]
      (replicate 4 (SStr []) @ [SInt 0, SInt 0, SStr user, SStr db]) w = Some (Inr (s_values n1 n2 n3 n4 p q u d), w)" for w :: "'a world"
    using assms(6) unfolding assms(2) by (intro load_zeros [OF s_config assms(1) z(2)]) (use assms(3,5) len in auto)
  show "processor_s_start pq ok (sysv f) 2 (File content) (k, w) =
      (let k1 = s_opened f n1 n2 n3 n4 p q 0 k in Some (Inr a, put_blocks a (ProcessorS.reset_blocks (s_view a k1)) k1, w'))"
    if c: "connects pq dbs_s cmd w w'"
  proof -
    have "start_process pq ok (sysv f) processor_s_prog 2 (File content) (replicate 500 0)
        (replicate 4 (SStr []) @ [SInt 0, SInt 0] @ replicate 2 (SStr [])) (k, w) =
      Some (Inr (s_values n1 n2 n3 n4 p q u d, [s_key f p, s_key f q]), s_opened f n1 n2 n3 n4 p q 0 k, w')"
      by (rule start_s [OF _ _ l1]) (use assms(7-15) ud c in \<open>auto simp: dbs cmd_def\<close>)
    then show ?thesis by (simp add: processor_s_start_def a_def Let_def)
  qed
  show "sender_start pq ok (sysv f) stack user db 2 (File content) (k, w) = Some (Inr a, s_opened f n1 n2 n3 n4 p q 1 k, w')"
    if c: "connects pq dbs_sender cmd w w'"
  proof -
    have "start_process pq ok (sysv f) sender_prog 2 (File content) stack
        (replicate 4 (SStr []) @ [SInt 0, SInt 0, SStr user, SStr db]) (k, w) =
      Some (Inr (s_values n1 n2 n3 n4 p q u d, [s_key f p, s_key f q]), s_opened f n1 n2 n3 n4 p q 1 k, w')"
      by (rule start_s [OF _ _ l2]) (use assms(7-15) ud c ne in \<open>auto simp: dbs cmd_def\<close>)
    then show ?thesis by (simp add: sender_start_def a_def)
  qed
qed


lemma s_sizes:
  fixes i :: nat
  assumes "fresh_for_s ok f [n1, n2, n3, n4] p q k"
  defines "a \<equiv> s_attached f n1 n2 n3 n4 p q"
  defines "k1 \<equiv> s_opened f n1 n2 n3 n4 p q i k"
  shows "map_option fst (segs k1 (s_key f p)) = Some (pages DATA_BLOCK_SIZE) \<and> map_option fst (segs k1 (s_key f q)) = Some (pages COMM_BLOCK_SIZE)"
    and "map_option fst (segs (put_blocks a s k1) (s_key f p)) = Some (pages DATA_BLOCK_SIZE) \<and>
      map_option fst (segs (put_blocks a s k1) (s_key f q)) = Some (pages COMM_BLOCK_SIZE)"
proof -
  have fr: "s_key f p \<noteq> s_key f q" "segs k (s_key f p) = None" "segs k (s_key f q) = None" using assms(1) by (auto simp: fresh_for_s_def)
  show 1: "map_option fst (segs k1 (s_key f p)) = Some (pages DATA_BLOCK_SIZE) \<and> map_option fst (segs k1 (s_key f q)) = Some (pages COMM_BLOCK_SIZE)"
    unfolding k1_def segs_opened [OF fr(1)] by (simp add: fr)
  then show "map_option fst (segs (put_blocks a s k1) (s_key f p)) = Some (pages DATA_BLOCK_SIZE) \<and>
      map_option fst (segs (put_blocks a s k1) (s_key f q)) = Some (pages COMM_BLOCK_SIZE)"
    using fr(1) by (auto simp: put_blocks_def a_def s_attached_def)
qed

lemma start_of_zero:
  assumes "s = ProcessorS.reset_blocks s0" "datas_block s0 = (\<lambda>_. 0)" "comms_block s0 = (\<lambda>_. 0)"
    and "sem_lock_datas s0 = 1" "sem_lock_comms s0 = 1" "saved (conn w) = None"
  shows "SendingSide.start saved \<lparr>sh = s, wd = w, nt = n, pp = P_wait, sp = S_wait\<rparr>"
  using assms reset_zero [of s0] by (simp add: SendingSide.start_def) (simp add: ProcessorS.reset_blocks_def)

text \<open>
  Claim C12: the two mains of the sending side lead to the start of their loops.  Given one configuration file for both, ending in
  a newline, names and keys that are not in use, and a server that accepts the connections, \<open>processor_s\<close>
  and \<open>sender\<close> can be started in either order: each attaches to the same semaphores and segments as the
  other, and the node is in a state \<open>SendingSide.start\<close> describes, from which mutual exclusion holds.  The signals are 0 when
  \<open>processor_s\<close> comes first and 1 when \<open>sender\<close> does.
\<close>

theorem sending_side_starts:
  assumes "fits (directives fmt_s) [20, 20, 20, 20, 30, 30] (s_values n1 n2 n3 n4 p q u d)"
    and "content = render (directives fmt_s) (s_values n1 n2 n3 n4 p q u d) @ 10 # tail" "0 \<notin> set tail"
    and "length content < 500" "length stack = 500" "0 \<in> set (drop (length content) stack)"
    and "fresh_for_s ok f [n1, n2, n3, n4] p q k"
    and "connects pq dbs_s (bytes ''user='' @ u @ bytes '' dbname='' @ d) wp wp'"
    and "connects pq dbs_sender (bytes ''user='' @ u @ bytes '' dbname='' @ d) ws ws'"
    and "saved (conn wp') = None"
  shows "\<exists>a k1 k2 k3 k4.
    processor_s_start pq ok (sysv f) 2 (File content) (k, wp) = Some (Inr a, k1, wp') \<and>
    sender_start pq ok (sysv f) stack user db 2 (File content) (k1, ws) = Some (Inr a, k2, ws') \<and>
    SendingSide.start saved \<lparr>sh = s_view a k2, wd = wp', nt = n, pp = P_wait, sp = S_wait\<rparr> \<and>
    sem_lock_sigs (s_view a k2) = 0 \<and> sem_lock_sigps (s_view a k2) = 0 \<and>
    sender_start pq ok (sysv f) stack user db 2 (File content) (k, ws) = Some (Inr a, k3, ws') \<and>
    processor_s_start pq ok (sysv f) 2 (File content) (k3, wp) = Some (Inr a, k4, wp') \<and>
    SendingSide.start saved \<lparr>sh = s_view a k4, wd = wp', nt = n, pp = P_wait, sp = S_wait\<rparr> \<and>
    sem_lock_sigs (s_view a k4) = 1 \<and> sem_lock_sigps (s_view a k4) = 1"
proof -
  define a where "a = s_attached f n1 n2 n3 n4 p q"
  define run where "run = (\<lambda>i. s_opened f n1 n2 n3 n4 p q i)"
  define reset where "reset = (\<lambda>k. put_blocks a (ProcessorS.reset_blocks (s_view a k)) k)"
  have fr: "ok n1" "ok n2" "ok n3" "ok n4" "s_key f p \<noteq> -1" "s_key f q \<noteq> -1" "s_key f p \<noteq> s_key f q"
      "segs k (s_key f p) = None" "segs k (s_key f q) = None"
    using assms(7) by (auto simp: fresh_for_s_def)
  note one = both_start_s [OF assms(1-6) fr(1-7), folded a_def]
  have p: "processor_s_start pq ok (sysv f) 2 (File content) (k', wp) = Some (Inr a, reset (run 0 k'), wp')"
    if "map_option fst (segs k' (s_key f p)) \<in> {None, Some (pages DATA_BLOCK_SIZE)}"
      "map_option fst (segs k' (s_key f q)) \<in> {None, Some (pages COMM_BLOCK_SIZE)}" for k'
    using one(1) [of k', OF _ _ assms(8)] that by (auto simp: Let_def reset_def run_def)
  have s: "sender_start pq ok (sysv f) stack user db 2 (File content) (k', ws) = Some (Inr a, run 1 k', ws')"
    if "map_option fst (segs k' (s_key f p)) \<in> {None, Some (pages DATA_BLOCK_SIZE)}"
      "map_option fst (segs k' (s_key f q)) \<in> {None, Some (pages COMM_BLOCK_SIZE)}" for k'
    using one(2) [of k', OF _ _ assms(9)] that by (auto simp: run_def)
  note st = s_started [OF assms(7), folded a_def]
  note sz = s_sizes [OF assms(7), folded a_def]
  have k0: "map_option fst (segs k (s_key f p)) = None" "map_option fst (segs k (s_key f q)) = None" using fr by simp_all
  have at: "at_datas_block a \<noteq> at_comms_block a" "at_datas_block a = s_key f p" "at_comms_block a = s_key f q"
    using fr(7) by (simp_all add: a_def s_attached_def)
  have v2: "s_view a (run 1 (reset (run 0 k))) = ProcessorS.reset_blocks (s_view a (run 0 k))"
    unfolding run_def reset_def st(8) st(1) ..
  have "segs (run 0 (run 1 k)) (s_key f p) \<noteq> None" "segs (run 0 (run 1 k)) (s_key f q) \<noteq> None"
    unfolding run_def segs_opened [OF fr(7)] by simp_all
  then have v4: "s_view a (reset (run 0 (run 1 k))) = ProcessorS.reset_blocks (s_view a (run 1 k))"
    using s_view_reset [OF at(1), of "run 0 (run 1 k)"] st(9) [of 0 1] by (simp add: at reset_def run_def)
  have go: "SendingSide.start saved \<lparr>sh = ProcessorS.reset_blocks (s_view a (run i k)), wd = wp', nt = n, pp = P_wait, sp = S_wait\<rparr> \<and>
      sem_lock_sigs (ProcessorS.reset_blocks (s_view a (run i k))) = i \<and> sem_lock_sigps (ProcessorS.reset_blocks (s_view a (run i k))) = i" for i
    using start_of_zero [OF refl, of "s_view a (run i k)" saved wp'] st(2-7) [of i] assms(10)
    by (simp add: run_def) (simp add: ProcessorS.reset_blocks_def)
  have "processor_s_start pq ok (sysv f) 2 (File content) (k, wp) = Some (Inr a, reset (run 0 k), wp')"
    "sender_start pq ok (sysv f) stack user db 2 (File content) (reset (run 0 k), ws) = Some (Inr a, run 1 (reset (run 0 k)), ws')"
    "sender_start pq ok (sysv f) stack user db 2 (File content) (k, ws) = Some (Inr a, run 1 k, ws')"
    "processor_s_start pq ok (sysv f) 2 (File content) (run 1 k, wp) = Some (Inr a, reset (run 0 (run 1 k)), wp')"
    using p [of k] s [of k] k0 s [of "reset (run 0 k)"] p [of "run 1 k"] sz by (auto simp: run_def reset_def)
  moreover note go [of 0] go [of 1]
  ultimately show ?thesis unfolding v2 [symmetric] v4 [symmetric] by blast
qed


text \<open>A server that accepts everything lets every program connect.\<close>

lemma prepare_healthy:
  assumes "faults c = []" "distinct (List.map fst dbs)" "fst ` set (prepared c) \<inter> fst ` set dbs = {}"
  shows "\<exists>c'. prepare_statements pg dbs \<lparr>conn = c, syslog = l\<rparr> = (0, \<lparr>conn = c', syslog = l\<rparr>) \<and> snapshot c' = snapshot c"
  using assms
proof (induction dbs arbitrary: c)
  case (Cons x dbs)
  obtain name sql m where x: "x = (name, sql, m)" by (cases x)
  have p: "PQprepare pg name sql m \<lparr>conn = c, syslog = l\<rparr> = (done_ok, \<lparr>conn = c\<lparr>prepared := (name, m) # prepared c\<rparr>, syslog = l\<rparr>)"
    using Cons.prems x by (simp add: PQprepare_def pg_def db_prepare_def next_fault_none)
  have "\<exists>c'. prepare_statements pg dbs \<lparr>conn = c\<lparr>prepared := (name, m) # prepared c\<rparr>, syslog = l\<rparr> = (0, \<lparr>conn = c', syslog = l\<rparr>) \<and>
      snapshot c' = snapshot (c\<lparr>prepared := (name, m) # prepared c\<rparr>)"
    by (rule Cons.IH) (use Cons.prems x in auto)
  then show ?case by (auto simp: x p done_ok_def)
qed simp

lemma connects_pg:
  assumes "distinct (List.map fst dbs)"
  shows "\<exists>c'. connects pg dbs cmd \<lparr>conn = c, syslog = l\<rparr> \<lparr>conn = c', syslog = l\<rparr> \<and> snapshot c' = None"
proof -
  have "connect_to_database pg cmd \<lparr>conn = c, syslog = l\<rparr> = (0, \<lparr>conn = new_server empty_tables [] [], syslog = l\<rparr>)"
    by (simp add: connect_to_database_def pg_def)
  with prepare_healthy [OF _ assms, of "new_server empty_tables [] []" l] show ?thesis
    by (auto simp: connects_def new_server_def)
qed

lemma dbs_distinct: "distinct (List.map fst dbs_s)" "distinct (List.map fst dbs_sender)"
  by (simp_all add: dbs_s_def dbs_sender_def)

definition no_ipc :: ipc where
  "no_ipc = \<lparr>sems = \<lambda>_. None, segs = \<lambda>_. None\<rparr>"

text \<open>\<open>conf/sender1.conf\<close> with a newline at its end.\<close>

definition quoted :: "string \<Rightarrow> byte list" where
  "quoted s = 34 # bytes s @ [34]"

definition sender1_values :: "scanned list" where
  "sender1_values = s_values (quoted ''sem_lock_datas1'') (quoted ''sem_lock_comms1'') (quoted ''sem_lock_sigs1'')
     (quoted ''sem_lock_sigps1'') 131 141 (bytes ''shrikant'') (bytes ''shrikant1'')"

definition sender1_conf :: "byte list" where
  "sender1_conf = render (directives fmt_s) sender1_values @ 10 # []"

lemma sender1_conf:
  "fits (directives fmt_s) [20, 20, 20, 20, 30, 30] sender1_values" "length sender1_conf < 500"
  "fresh_for_s (\<lambda>_. True) (\<lambda>_ i. i) [quoted ''sem_lock_datas1'', quoted ''sem_lock_comms1'', quoted ''sem_lock_sigs1'', quoted ''sem_lock_sigps1''] 131 141 no_ipc"
proof -
  show "fits (directives fmt_s) [20, 20, 20, 20, 30, 30] sender1_values" by code_simp
  show "length sender1_conf < 500" by code_simp
  show "fresh_for_s (\<lambda>_. True) (\<lambda>_ i. i) [quoted ''sem_lock_datas1'', quoted ''sem_lock_comms1'', quoted ''sem_lock_sigs1'', quoted ''sem_lock_sigps1''] 131 141 no_ipc"
    by (simp add: fresh_for_s_def s_key_def no_ipc_def quoted_def)
qed

theorem sending_side_starts_witness:
  "\<exists>a k1 k2 wp' ws'.
    processor_s_start pg (\<lambda>_. True) (sysv (\<lambda>_ i. i)) 2 (File sender1_conf) (no_ipc, \<lparr>conn = demo_server, syslog = []\<rparr>) = Some (Inr a, k1, wp') \<and>
    sender_start pg (\<lambda>_. True) (sysv (\<lambda>_ i. i)) (replicate 500 0) [] [] 2 (File sender1_conf) (k1, \<lparr>conn = demo_server, syslog = []\<rparr>) = Some (Inr a, k2, ws') \<and>
    sem_lock_sigs (s_view a k2) = 0"
proof -
  obtain cp cs where c: "connects pg dbs_s (bytes ''user='' @ bytes ''shrikant'' @ bytes '' dbname='' @ bytes ''shrikant1'')
        \<lparr>conn = demo_server, syslog = []\<rparr> \<lparr>conn = cp, syslog = []\<rparr>" "snapshot cp = None"
      "connects pg dbs_sender (bytes ''user='' @ bytes ''shrikant'' @ bytes '' dbname='' @ bytes ''shrikant1'')
        \<lparr>conn = demo_server, syslog = []\<rparr> \<lparr>conn = cs, syslog = []\<rparr>"
    using connects_pg [OF dbs_distinct(1)] connects_pg [OF dbs_distinct(2)] by metis
  have s: "map_option fst (snapshot (conn \<lparr>conn = cp, syslog = []\<rparr>)) = None" using c(2) by simp
  have stack: "length (replicate 500 (0 :: byte)) = 500" "0 \<in> set (drop (length sender1_conf) (replicate 500 (0 :: byte)))"
    using sender1_conf(2) by simp_all
  have t: "0 \<notin> set []" by simp
  note both = sending_side_starts [where saved = "\<lambda>c. map_option fst (snapshot c)" and user = "[]" and db = "[]" and n = "()",
      OF sender1_conf(1) [unfolded sender1_values_def] sender1_conf_def [unfolded sender1_values_def] t
        sender1_conf(2) stack sender1_conf(3) c(1,3) s]
  show ?thesis using both by blast
qed


section \<open>What starting does to other processes\<close>

definition ipc_keeps :: "ipc \<Rightarrow> ipc \<Rightarrow> bool" where
  "ipc_keeps k k' \<longleftrightarrow> (\<forall>n v. sems k n = Some v \<longrightarrow> sems k' n = Some v) \<and> (\<forall>i x. segs k i = Some x \<longrightarrow> segs k' i = Some x)"

lemma ipc_keeps_refl [simp]: "ipc_keeps k k"
  by (simp add: ipc_keeps_def)

lemma ipc_keeps_trans: "ipc_keeps k k' \<Longrightarrow> ipc_keeps k' k'' \<Longrightarrow> ipc_keeps k k''"
  by (auto simp: ipc_keeps_def)

lemma open_all_keeps:
  "open_all ok ns k = (r, k') \<Longrightarrow> ipc_keeps k k' \<and> (r \<longrightarrow> (\<forall>(n, i) \<in> set ns. ok n \<and> sems k' n \<noteq> None))"
proof (induction ok ns k arbitrary: r k' rule: open_all.induct)
  case (2 ok name init ns k)
  obtain r1 k1 where 1: "sem_open ok name init k = (r1, k1)" by (cases "sem_open ok name init k")
  obtain r2 where 2: "open_all ok ns k1 = (r2, k')" "r = (r1 \<and> r2)" using 2(2) 1 by (auto split: prod.splits)
  note ih = "2.IH" [OF 1 [symmetric] refl this(1)]
  have "ipc_keeps k k1" "r1 \<longrightarrow> ok name \<and> sems k1 name \<noteq> None" using 1 by (auto simp: sem_open_def ipc_keeps_def split: if_splits)
  with ih 2(2) show ?case by (fastforce simp: ipc_keeps_def)
qed simp

lemma attach_keeps:
  "attach_memory_block (sysv f) file sz pid k = (r, k') \<Longrightarrow> ipc_keeps k k' \<and> sems k' = sems k \<and> (\<forall>a. r = Some a \<longrightarrow> segs k' a \<noteq> None)"
  by (auto simp: attach_memory_block_def get_shared_block_def get_key_def sysv_def ipc_keeps_def Let_def split: option.splits if_splits prod.splits)

lemma attach_all_keeps:
  "attach_all (sysv f) file bs k = (rs, k') \<Longrightarrow> ipc_keeps k k' \<and> (\<forall>a. Some a \<in> set rs \<longrightarrow> segs k' a \<noteq> None)"
proof (induction bs arbitrary: k rs)
  case (Cons b bs)
  obtain key sz where b: "b = (key, sz)" by (cases b)
  obtain r1 k1 where 1: "attach_memory_block (sysv f) (bytes file) (word_of_nat sz) (ucast key) k = (r1, k1)"
    by (cases "attach_memory_block (sysv f) (bytes file) (word_of_nat sz) (ucast key) k")
  obtain rs1 where 2: "attach_all (sysv f) file bs k1 = (rs1, k')" "rs = r1 # rs1" using Cons.prems 1 b by (auto split: prod.splits)
  have "ipc_keeps k1 k' \<and> (\<forall>a. Some a \<in> set rs1 \<longrightarrow> segs k' a \<noteq> None)" by (rule Cons.IH [OF 2(1)])
  with attach_keeps [OF 1] 2(2) show ?case by (auto simp: ipc_keeps_def)
qed simp

lemma length_attach_all: "attach_all os nm bs k = (as, k') \<Longrightarrow> length as = length bs"
  by (induction bs arbitrary: as k) (auto split: prod.splits)

lemma load_config_exit: "load_config argc file buf fmt caps vars w = Some (Inl e, w1) \<Longrightarrow> e = -1"
  by (auto simp: load_config_def read_config_def bind_eq_Some_conv split: conf_file.splits if_splits)

lemma opened_and_attached:
  assumes "open_all ok ns k = (True, k1)" "attach_all (sysv f) nm bs k1 = (as, k2)" "None \<notin> set as"
  shows "ipc_keeps k k2 \<and> (\<forall>(n, i) \<in> set ns. ok n \<and> sems k2 n \<noteq> None) \<and> (\<forall>a \<in> set (List.map the as). segs k2 a \<noteq> None) \<and>
    length as = length bs"
proof -
  have "the x = a \<Longrightarrow> x \<in> set as \<Longrightarrow> Some a \<in> set as" for x a using assms(3) by (cases x) auto
  then have "\<forall>a \<in> set (List.map the as). segs k2 a \<noteq> None" using attach_all_keeps [OF assms(2)] by auto
  moreover have "sems k1 n \<noteq> None \<Longrightarrow> sems k2 n \<noteq> None" for n
    using attach_all_keeps [OF assms(2)] by (auto simp: ipc_keeps_def)
  ultimately show ?thesis
    using open_all_keeps [OF assms(1)] attach_all_keeps [OF assms(2)] ipc_keeps_trans length_attach_all [OF assms(2)] by fastforce
qed



end
