(* ===== verification/Notif.thy ===== *)
theory Notif
  imports Startup
begin

text \<open>
  \<open>notif.c\<close>: the process that turns the notifications of the server into posts of the semaphore another
  process sleeps on (\<open>sem_lock_sigps\<close>, \<open>sem_lock_sigr\<close> or \<open>sem_lock_isender\<close>, by its configuration).  The functions of
  libpq for notifications are the fields of \<open>pq_notify\<close>, the calls to \<open>epoll\<close> those of \<open>kernel\<close>.
\<close>

section \<open>The code\<close>

text \<open>\<open>PQnotifies\<close> returns whether there was a notification; the program looks at nothing in it.\<close>

record 'c pq_notify =
  pq_socket :: "'c \<Rightarrow> int"
  pq_consume_input :: "'c \<Rightarrow> bool \<times> 'c"
  pq_notifies :: "'c \<Rightarrow> bool \<times> 'c"

record ('c, 'k) notif =
  n_world :: "'c world"
  n_kern :: 'k
  n_ipc :: ipc
  n_sem :: "byte list"
  n_channel :: "byte list"
  n_socket :: int
  n_epoll :: int
  n_event :: int

definition n_log :: "'c pq \<Rightarrow> string \<Rightarrow> vararg list \<Rightarrow> ('c, 'k) notif \<Rightarrow> ('c, 'k) notif option" where
  "n_log pq fmt args st = do { w \<leftarrow> storelog pq fmt args (n_world st); Some (st\<lparr>n_world := w\<rparr>) }"

text \<open>\<open>initnotif\<close>, with 0 or -1; \<open>close\<close> and \<open>PQfinish\<close> leave nothing the program looks at.\<close>

definition initnotif ::
  "'c pq \<Rightarrow> 'c pq_notify \<Rightarrow> 'k kernel \<Rightarrow> (byte list \<Rightarrow> bool) \<Rightarrow> conf_file \<Rightarrow> ('c, 'k) notif \<Rightarrow> (int \<times> ('c, 'k) notif) option" where
  "initnotif pq nq kn ok file st = do {
     (r, w) \<leftarrow> read_config file (replicate 500 0) fmt_notif [20, 30, 30, 30] (replicate 4 (SStr [])) (n_world st);
     case r of Inl e \<Rightarrow> Some (e, st\<lparr>n_world := w\<rparr>)
     | Inr vs \<Rightarrow> do {
         let key = str_val (vs ! 0); let username = str_val (vs ! 1); let dbname = str_val (vs ! 2); let channel = str_val (vs ! 3);
         command \<leftarrow> sprintf_buf 100 (bytes ''LISTEN '' @ channel);
         conninfo \<leftarrow> conn_command username dbname;
         let (up, c) = pq_connectdb pq conninfo;
         let st1 = st\<lparr>n_world := w\<lparr>conn := c\<rparr>, n_sem := key, n_channel := channel\<rparr>;
         if \<not> up then
           Some (-1, st1\<lparr>n_world := log_syslog (bytes ''failed to create connection to database user '' @ username @ bytes '' dbname '' @ dbname @
              bytes '' noti_channel '' @ channel @ bytes '' error '' @ pq_errmsg pq c) (n_world st1)\<rparr>)
         else do {
         let (res, w1) = PQprepare pq ''store_log'' ''INSERT INTO logs (log) VALUES ($1);'' 1 (n_world st1);
         let st2 = st1\<lparr>n_world := w1\<rparr>;
         if res_status res \<noteq> COMMAND_OK then
           Some (-1, st2\<lparr>n_world := log_syslog (bytes ''Preparation of statement failed: '' @ PQerrorMessage pq w1 @ [10]) w1\<rparr>)
         else do {
         let st3 = st2\<lparr>n_socket := pq_socket nq (conn w1)\<rparr>;
         if n_socket st3 = -1 then do {
           st4 \<leftarrow> n_log pq ''%s%s'' [vararg.VStr (bytes ''noti channel : ''), vararg.VStr channel,
             vararg.VStr (bytes '' error in PQsocket creating a connection to db : ''), vararg.VStr (PQerrorMessage pq w1)] st3;
           Some (-1, st4) } else do {
         let (e, k1) = k_epoll_create1 kn (n_kern st3);
         let st4 = st3\<lparr>n_kern := k1, n_epoll := e\<rparr>;
         if e = -1 then do {
           st5 \<leftarrow> n_log pq ''%s%s'' [vararg.VStr (bytes ''epoll_create1 failed in notifier listening on : ''), vararg.VStr channel] st4;
           Some (-1, st5) } else do {
         let (r1, k2) = k_epoll_ctl kn e CTL_ADD (n_socket st4) EPOLLIN k1;
         let st5 = st4\<lparr>n_kern := k2, n_event := n_socket st4\<rparr>;
         if r1 = -1 then do {
           st6 \<leftarrow> n_log pq ''%s%s'' [vararg.VStr (bytes ''epollctl failed in notifier listening on : ''), vararg.VStr channel] st5;
           Some (-1, st6) } else do {
         let (res2, w2) = PQexec pq (text_of_bytes command) (n_world st5);
         let st6 = st5\<lparr>n_world := w2\<rparr>;
         if res_status res2 \<noteq> COMMAND_OK then do {
           st7 \<leftarrow> n_log pq ''%s%s%s%s'' [vararg.VStr (bytes ''noti channel : ''), vararg.VStr channel,
             vararg.VStr (bytes '' LISTEN command failed : ''), vararg.VStr (PQerrorMessage pq w2)] st6;
           Some (-1, st7) } else do {
         let (r2, k) = sem_open ok key 0 (n_ipc st6);
         let st7 = st6\<lparr>n_ipc := k\<rparr>;
         if \<not> r2 then do {
           st8 \<leftarrow> n_log pq ''%s%s%s%s'' [vararg.VStr (bytes ''noti channel : ''), vararg.VStr channel,
             vararg.VStr (bytes '' error creating semphore : ''), vararg.VStr key, vararg.VStr (PQerrorMessage pq w2)] st7;
           Some (-1, st8) }
         else Some (0, st7) } } } } } } } }"

definition post :: "byte list \<Rightarrow> ipc \<Rightarrow> ipc" where
  "post name k = k\<lparr>sems := (sems k)(name := map_option sem_post (sems k name))\<rparr>"

text \<open>\<open>while ((notify = PQnotifies(connection)) != NULL)\<close>\<close>

partial_function (option) drain :: "'c pq_notify \<Rightarrow> ('c, 'k) notif \<Rightarrow> ('c, 'k) notif option" where
  "drain nq st =
     (let (got, c) = pq_notifies nq (conn (n_world st)); st1 = st\<lparr>n_world := (n_world st)\<lparr>conn := c\<rparr>\<rparr> in
      if got then drain nq (st1\<lparr>n_ipc := post (n_sem st1) (n_ipc st1)\<rparr>) else Some st1)"

text \<open>
  One turn of \<open>while (1)\<close>; the flag says whether it goes on.  \<open>event\<close> is a global: a wait that fills
  nothing leaves the event of the time before.
\<close>

definition notif_once :: "'c pq \<Rightarrow> 'c pq_notify \<Rightarrow> 'k kernel \<Rightarrow> ('c, 'k) notif \<Rightarrow> (bool \<times> ('c, 'k) notif) option" where
  "notif_once pq nq kn st =
     (let ((num_events, evs), k) = k_epoll_wait kn (n_epoll st) 1 (-1) (n_kern st);
          st1 = st\<lparr>n_kern := k, n_event := (case evs of [] \<Rightarrow> n_event st | (fd, _) # _ \<Rightarrow> fd)\<rparr> in
      if num_events = -1 then do {
        st2 \<leftarrow> n_log pq ''%s%s'' [vararg.VStr (bytes ''epoll wait failed for notifier listening on channel : ''), vararg.VStr (n_channel st1)] st1;
        Some (False, st2) }
      else if n_event st1 = n_socket st1 then
        (let (more, c) = pq_consume_input nq (conn (n_world st1)); st2 = st1\<lparr>n_world := (n_world st1)\<lparr>conn := c\<rparr>\<rparr> in
         if \<not> more then do {
           st3 \<leftarrow> n_log pq ''%s%s%s%s'' [vararg.VStr (bytes ''noti channel : ''), vararg.VStr (n_channel st2),
             vararg.VStr (bytes '' Failed to consume input : ''), vararg.VStr (PQerrorMessage pq (n_world st2))] st2;
           Some (False, st3) }
         else do { st3 \<leftarrow> drain nq st2; Some (True, st3) })
      else do {
        st2 \<leftarrow> n_log pq ''%s%s'' [vararg.VStr (bytes ''unkown event occured on epoll of notifier listening on channel : ''),
          vararg.VStr (n_channel st1)] st1;
        Some (False, st2) })"

partial_function (option) notif_loop :: "'c pq \<Rightarrow> 'c pq_notify \<Rightarrow> 'k kernel \<Rightarrow> ('c, 'k) notif \<Rightarrow> ('c, 'k) notif option" where
  "notif_loop pq nq kn st = do {
     (on, st1) \<leftarrow> notif_once pq nq kn st;
     if on then notif_loop pq nq kn st1 else Some st1 }"

text \<open>\<open>main\<close>: a wrong number of arguments is logged and not acted on.\<close>

definition notif_main ::
  "'c pq \<Rightarrow> 'c pq_notify \<Rightarrow> 'k kernel \<Rightarrow> (byte list \<Rightarrow> bool) \<Rightarrow> nat \<Rightarrow> conf_file \<Rightarrow> ('c, 'k) notif \<Rightarrow> (int \<times> ('c, 'k) notif) option" where
  "notif_main pq nq kn ok argc file st0 = do {
     let st = (if argc \<noteq> 2 then st0\<lparr>n_world := log_syslog (bytes ''invlaid arguments'') (n_world st0)\<rparr> else st0);
     (r, st1) \<leftarrow> initnotif pq nq kn ok file st;
     if r = -1 then Some (-1, st1) else do {
     st2 \<leftarrow> notif_loop pq nq kn st1;
     Some (0, st2) } }"


section \<open>What is assumed of libpq\<close>

text \<open>
  \<open>due\<close> counts the notifications of the channel the program has not been given yet, \<open>ready\<close> those of them libpq has
  read from its socket.
\<close>

locale notify_source =
  fixes pq :: "'c pq" and nq :: "'c pq_notify" and due :: "'c \<Rightarrow> nat" and ready :: "'c \<Rightarrow> nat"
  assumes notifies_some: "pq_notifies nq c = (True, c') \<Longrightarrow> due c = Suc (due c') \<and> ready c = Suc (ready c')"
    and notifies_none: "pq_notifies nq c = (False, c') \<Longrightarrow> due c' = due c \<and> ready c = 0 \<and> ready c' = 0"
    and consume_due: "pq_consume_input nq c = (b, c') \<Longrightarrow> due c' = due c"
    and run_due: "pq_exec_prepared pq name ps fmt c = (r, c') \<Longrightarrow> due c' = due c"
begin

abbreviation due_in :: "('c, 'k) notif \<Rightarrow> nat" where
  "due_in st \<equiv> due (conn (n_world st))"

definition posts :: "('c, 'k) notif \<Rightarrow> ('c, 'k) notif \<Rightarrow> bool" where
  "posts st st' \<longleftrightarrow> n_sem st' = n_sem st \<and> n_socket st' = n_socket st \<and> n_epoll st' = n_epoll st \<and>
     sem_value (n_ipc st') (n_sem st) + due_in st' = sem_value (n_ipc st) (n_sem st) + due_in st \<and>
     sems (n_ipc st') (n_sem st) \<noteq> None \<and> (\<forall>n. n \<noteq> n_sem st \<longrightarrow> sems (n_ipc st') n = sems (n_ipc st) n)"

lemma posts_refl: "sems (n_ipc st) (n_sem st) \<noteq> None \<Longrightarrow> posts st st"
  by (simp add: posts_def)

lemma posts_trans: "posts st st' \<Longrightarrow> posts st' st'' \<Longrightarrow> posts st st''"
  unfolding posts_def by simp

lemma post_simps:
  "sems k name \<noteq> None \<Longrightarrow> sem_value (post name k) name = Suc (sem_value k name)"
  "n \<noteq> name \<Longrightarrow> sems (post name k) n = sems k n" "sems (post name k) n = None \<longleftrightarrow> sems k n = None"
  by (auto simp: post_def sem_value_def sem_post_def)

lemma drain_all:
  assumes "sems (n_ipc st) (n_sem st) \<noteq> None"
  shows "\<exists>st'. drain nq st = Some st' \<and> posts st st' \<and> ready (conn (n_world st')) = 0 \<and>
    sem_value (n_ipc st') (n_sem st) = sem_value (n_ipc st) (n_sem st) + ready (conn (n_world st))"
  using assms
proof (induction "ready (conn (n_world st))" arbitrary: st rule: less_induct)
  case less
  obtain got c where nt: "pq_notifies nq (conn (n_world st)) = (got, c)" by (metis prod.exhaust)
  let ?st1 = "st\<lparr>n_world := (n_world st)\<lparr>conn := c\<rparr>\<rparr>"
  show ?case
  proof (cases got)
    case False
    with nt have "drain nq st = Some ?st1" by (subst drain.simps) simp
    with notifies_none [of "conn (n_world st)" c] nt False less(2) show ?thesis by (auto simp: posts_def)
  next
    case True
    let ?st2 = "?st1\<lparr>n_ipc := post (n_sem st) (n_ipc st)\<rparr>"
    have d: "drain nq st = drain nq ?st2" using nt True by (subst drain.simps) simp
    note law = notifies_some [of "conn (n_world st)" c]
    have p: "posts st ?st2" using law nt True less(2) by (auto simp: posts_def post_simps)
    then have "\<exists>st'. drain nq ?st2 = Some st' \<and> posts ?st2 st' \<and> ready (conn (n_world st')) = 0 \<and>
        sem_value (n_ipc st') (n_sem ?st2) = sem_value (n_ipc ?st2) (n_sem ?st2) + ready (conn (n_world ?st2))"
      using law nt True by (intro less(1)) (auto simp: posts_def)
    with d p posts_trans law nt True less(2) show ?thesis by (auto simp: post_simps)
  qed
qed

lemma n_log_posts:
  assumes "n_log pq fmt args st = Some st'" "sems (n_ipc st) (n_sem st) \<noteq> None"
  shows "posts st st'"
proof -
  obtain w where w: "storelog pq fmt args (n_world st) = Some w" "st' = st\<lparr>n_world := w\<rparr>"
    using assms(1) by (auto simp: n_log_def bind_eq_Some_conv)
  obtain t r where "pq_exec_prepared pq ''storelog'' [Text t] 0 (conn (n_world st)) = (r, conn w)"
    using storelog_conn [OF w(1)] by blast
  from run_due [OF this] w(2) assms(2) show ?thesis by (simp add: posts_def)
qed

lemma notif_once_posts:
  assumes "notif_once pq nq kn st = Some (on, st')" "sems (n_ipc st) (n_sem st) \<noteq> None"
  shows "posts st st'"
proof -
  obtain num evs k where w: "k_epoll_wait kn (n_epoll st) 1 (-1) (n_kern st) = ((num, evs), k)" by (metis prod.exhaust)
  define st1 where "st1 = st\<lparr>n_kern := k, n_event := (case evs of [] \<Rightarrow> n_event st | (fd, _) # _ \<Rightarrow> fd)\<rparr>"
  obtain more c where i: "pq_consume_input nq (conn (n_world st1)) = (more, c)" by (metis prod.exhaust)
  define st2 where "st2 = st1\<lparr>n_world := (n_world st1)\<lparr>conn := c\<rparr>\<rparr>"
  have 1: "posts st st1" "sems (n_ipc st1) (n_sem st1) \<noteq> None" using assms(2) by (simp_all add: st1_def posts_def)
  have 2: "posts st st2" "sems (n_ipc st2) (n_sem st2) \<noteq> None"
    using 1 consume_due [OF i] by (simp_all add: st2_def posts_def)
  consider fmt args where "n_log pq fmt args st1 = Some st'" | fmt args where "n_log pq fmt args st2 = Some st'"
    | "drain nq st2 = Some st'"
    using assms(1) w i unfolding notif_once_def
    by (auto simp: Let_def bind_eq_Some_conv st1_def [symmetric] st2_def [symmetric] split: if_splits)
  then show ?thesis
  proof cases
    case 1
    show ?thesis by (rule posts_trans [OF \<open>posts st st1\<close> n_log_posts [OF 1]]) fact
  next
    case 2
    show ?thesis by (rule posts_trans [OF \<open>posts st st2\<close> n_log_posts [OF 2]]) fact
  next
    case 3
    obtain st3 where "drain nq st2 = Some st3" "posts st2 st3" using drain_all [OF \<open>sems (n_ipc st2) (n_sem st2) \<noteq> None\<close>] by blast
    with 3 have "posts st2 st'" by simp
    with \<open>posts st st2\<close> show ?thesis by (rule posts_trans)
  qed
qed

lemma notif_loop_posts:
  assumes "notif_loop pq nq kn st = Some st'" "sems (n_ipc st) (n_sem st) \<noteq> None"
  shows "posts st st'"
proof -
  have "pq = pq \<longrightarrow> nq = nq \<longrightarrow> sems (n_ipc st) (n_sem st) \<noteq> None \<longrightarrow> posts st st'"
  proof (rule notif_loop.raw_induct [OF _ assms(1), where P = "\<lambda>pq' nq' kn st st'. pq' = pq \<longrightarrow> nq' = nq \<longrightarrow>
      sems (n_ipc st) (n_sem st) \<noteq> None \<longrightarrow> posts st st'"], goal_cases)
    case (1 f pq' nq' kn st st')
    show ?case
    proof (intro impI)
      assume e: "pq' = pq" "nq' = nq" and s: "sems (n_ipc st) (n_sem st) \<noteq> None"
      obtain on st1 where o: "notif_once pq nq kn st = Some (on, st1)"
          "(if on then f pq nq kn st1 else Some st1) = Some st'"
        using 1(2) e by (auto simp: bind_eq_Some_conv)
      have p: "posts st st1" by (rule notif_once_posts [OF o(1) s])
      then have "sems (n_ipc st1) (n_sem st1) \<noteq> None" by (simp add: posts_def)
      then have "on \<Longrightarrow> posts st1 st'" using 1(1) [of pq nq kn st1 st'] o(2) by simp
      with p o(2) posts_trans show "posts st st'" by (cases on) auto
    qed
  qed
  with assms(2) show ?thesis by simp
qed

end


text \<open>
  Any server with notifications added to it: batches that arrive one per \<open>PQconsumeInput\<close>, which fails when there
  are no more, and the number already read.
\<close>

definition pq_with :: "'c pq \<Rightarrow> 'x \<Rightarrow> ('c \<times> 'x) pq" where
  "pq_with pq x =
     (let on = (\<lambda>f cy. let (r, c) = f (fst cy) in (r, (c, snd cy))) in
      \<lparr>pq_connectdb = \<lambda>info. (let (up, c) = pq_connectdb pq info in (up, (c, x))), pq_exec = \<lambda>cmd. on (pq_exec pq cmd),
       pq_prepare = \<lambda>name sql n. on (pq_prepare pq name sql n), pq_exec_prepared = \<lambda>name ps fmt. on (pq_exec_prepared pq name ps fmt),
       pq_errmsg = \<lambda>cy. pq_errmsg pq (fst cy)\<rparr>)"

definition batches :: "('c \<times> nat list \<times> nat) pq_notify" where
  "batches = \<lparr>pq_socket = \<lambda>_. 5,
     pq_consume_input = \<lambda>(c, bs, q). (case bs of [] \<Rightarrow> (False, (c, [], q)) | b # bs' \<Rightarrow> (True, (c, bs', q + b))),
     pq_notifies = \<lambda>(c, bs, q). (case q of 0 \<Rightarrow> (False, (c, bs, 0)) | Suc q' \<Rightarrow> (True, (c, bs, q')))\<rparr>"

interpretation batch: notify_source "pq_with pg ([], 0)" batches "\<lambda>(c, bs, q). sum_list bs + q" "\<lambda>(c, bs, q). q"
  by unfold_locales (auto simp: batches_def pq_with_def Let_def split: list.splits nat.splits prod.splits)

text \<open>
  Claim C17: every notification is one post.  Whatever the process does until it ends, the value of its semaphore grows
  by exactly the number of notifications libpq has given it, and no other semaphore changes.  A wake-up for the
  socket whose input can be read always ends, with a post for every notification that has arrived by then, and the process waits again.
\<close>

theorem notif_posts_each_notification:
  assumes "notify_source pq nq due ready" "sems (n_ipc st) (n_sem st) \<noteq> None"
  shows "(\<forall>st'. notif_loop pq nq kn st = Some st' \<longrightarrow>
      sem_value (n_ipc st') (n_sem st) + due (conn (n_world st')) = sem_value (n_ipc st) (n_sem st) + due (conn (n_world st)) \<and>
      (\<forall>n. n \<noteq> n_sem st \<longrightarrow> sems (n_ipc st') n = sems (n_ipc st) n)) \<and>
    (\<forall>ev k c. k_epoll_wait kn (n_epoll st) 1 (-1) (n_kern st) = ((1, [(n_socket st, ev)]), k) \<longrightarrow>
      pq_consume_input nq (conn (n_world st)) = (True, c) \<longrightarrow>
      (\<exists>st'. notif_once pq nq kn st = Some (True, st') \<and> ready (conn (n_world st')) = 0 \<and>
         sem_value (n_ipc st') (n_sem st) = sem_value (n_ipc st) (n_sem st) + ready c))"
proof (intro conjI allI impI)
  fix st' assume l: "notif_loop pq nq kn st = Some st'"
  note p = notify_source.notif_loop_posts [OF assms(1) l assms(2), unfolded notify_source.posts_def [OF assms(1)]]
  show "sem_value (n_ipc st') (n_sem st) + due (conn (n_world st')) = sem_value (n_ipc st) (n_sem st) + due (conn (n_world st))"
    using p by simp
  show "sems (n_ipc st') n = sems (n_ipc st) n" if "n \<noteq> n_sem st" for n using p that by simp
next
  fix ev k c
  assume w: "k_epoll_wait kn (n_epoll st) 1 (-1) (n_kern st) = ((1, [(n_socket st, ev)]), k)"
    and c: "pq_consume_input nq (conn (n_world st)) = (True, c)"
  let ?st = "st\<lparr>n_kern := k, n_event := n_socket st, n_world := (n_world st)\<lparr>conn := c\<rparr>\<rparr>"
  have "sems (n_ipc ?st) (n_sem ?st) \<noteq> None" using assms(2) by simp
  from notify_source.drain_all [OF assms(1) this] obtain st' where
    d: "drain nq ?st = Some st'" "ready (conn (n_world st')) = 0" "sem_value (n_ipc st') (n_sem st) = sem_value (n_ipc st) (n_sem st) + ready c"
    by auto
  then have "notif_once pq nq kn st = Some (True, st')" using w c by (simp add: notif_once_def Let_def)
  with d show "\<exists>st'. notif_once pq nq kn st = Some (True, st') \<and> ready (conn (n_world st')) = 0 \<and>
      sem_value (n_ipc st') (n_sem st) = sem_value (n_ipc st) (n_sem st) + ready c" by blast
qed

text \<open>Two wake-ups with two and three notifications, then a wait that reports nothing.\<close>

definition demo_notif :: "(server \<times> nat list \<times> nat, feed) notif" where
  "demo_notif = \<lparr>n_world = \<lparr>conn = (demo_server, [2, 3], 0), syslog = []\<rparr>,
     n_kern = \<lparr>arrived = \<lambda>_. [], limits = [], waiting = [], local_addr = \<lambda>_. 0, polls = [[(5, EPOLLIN)], [(5, EPOLLIN)]], gone = []\<rparr>,
     n_ipc = no_ipc\<lparr>sems := [bytes ''sem_lock_sigr'' \<mapsto> 0]\<rparr>, n_sem = bytes ''sem_lock_sigr'', n_channel = bytes ''noti_1receiver'',
     n_socket = 5, n_epoll = 4, n_event = 5\<rparr>"

theorem notif_posts_each_notification_witness:
  "\<exists>st'. notif_once (pq_with pg ([], 0)) batches feed_kernel demo_notif = Some (True, st') \<and>
    sem_value (n_ipc st') (bytes ''sem_lock_sigr'') = 2"
proof -
  have s: "sems (n_ipc demo_notif) (n_sem demo_notif) \<noteq> None" by (simp add: demo_notif_def)
  have w: "k_epoll_wait feed_kernel (n_epoll demo_notif) 1 (-1) (n_kern demo_notif) =
      ((1, [(n_socket demo_notif, EPOLLIN)]), (n_kern demo_notif)\<lparr>polls := [[(5, EPOLLIN)]]\<rparr>)"
    by (simp add: demo_notif_def feed_kernel_def)
  have c: "pq_consume_input batches (conn (n_world demo_notif)) = (True, (demo_server, [3], 2))"
    by (simp add: demo_notif_def batches_def)
  have v: "sem_value (n_ipc demo_notif) (n_sem demo_notif) = 0" "n_sem demo_notif = bytes ''sem_lock_sigr''"
    by (simp_all add: demo_notif_def sem_value_def no_ipc_def)
  show ?thesis
    using notif_posts_each_notification [OF batch.notify_source_axioms s, of feed_kernel] w c v by fastforce
qed

text \<open>What the connection of \<open>notif\<close> has prepared when it goes on.\<close>

lemma initnotif_prepared:
  assumes "initnotif pg nq kn ok file st = Some (0, st')"
  shows "prepared (conn (n_world st')) = [(''store_log'', 1)]"
proof -
  have load: "r = Inl 0 \<Longrightarrow> False" if "read_config file buf fmt caps vars w = Some (r, w1)" for r buf fmt caps vars w w1
    using that by (auto simp: read_config_def bind_eq_Some_conv split: conf_file.splits if_splits)
  have conn: "pq_connectdb pg info = (True, new_server empty_tables [] [])" for info by (simp add: pg_def)
  let ?c = "new_server empty_tables [] []"
  have prep: "PQprepare pg name sql n (w\<lparr>conn := ?c\<rparr>) = (done_ok, w\<lparr>conn := ?c\<lparr>prepared := [(name, n)]\<rparr>\<rparr>)" for name sql n w
    by (simp add: PQprepare_def pg_def db_prepare_def next_fault_none new_server_def)
  have ex: "prepared (conn w') = prepared (conn w)" if "PQexec pg cmd w = (r, w')" for cmd w r w'
    using that next_fault_same by (auto simp: PQexec_def pg_def db_exec_def abort_def split: prod.splits if_splits option.splits)
  obtain r w where r: "read_config file (replicate 500 0) fmt_notif [20, 30, 30, 30] (replicate 4 (SStr [])) (n_world st) = Some (r, w)"
    using assms by (auto simp: initnotif_def bind_eq_Some_conv)
  then obtain vs where vs: "r = Inr vs" using assms load [OF r] by (cases r) (auto simp: initnotif_def)
  obtain command conninfo where cc: "sprintf_buf 100 (bytes ''LISTEN '' @ str_val (vs ! 3)) = Some command"
      "conn_command (str_val (vs ! 1)) (str_val (vs ! 2)) = Some conninfo"
    using assms r vs by (auto simp: initnotif_def bind_eq_Some_conv Let_def)
  let ?w = "w\<lparr>conn := ?c\<lparr>prepared := [(''store_log'', 1)]\<rparr>\<rparr>"
  obtain e k1 where e: "k_epoll_create1 kn (n_kern st) = (e, k1)" by (metis prod.exhaust)
  obtain r1 k2 where c: "k_epoll_ctl kn e CTL_ADD (pq_socket nq (conn ?w)) EPOLLIN k1 = (r1, k2)" by (metis prod.exhaust)
  obtain res2 w2 where l: "PQexec pg (text_of_bytes command) ?w = (res2, w2)" by (metis prod.exhaust)
  obtain r2 k where o: "sem_open ok (str_val (vs ! 0)) 0 (n_ipc st) = (r2, k)" by (metis prod.exhaust)
  have "prepared (conn w2) = [(''store_log'', 1)]" using ex [OF l] by simp
  moreover have "n_world st' = w2"
    using assms r vs cc e c l o
    by (auto simp: initnotif_def Let_def conn prep done_ok_def bind_eq_Some_conv split: if_splits)
  ultimately show ?thesis by simp
qed

text \<open>
  \<open>notif\<close> logs nothing in the database.  It prepares the statement \<open>store_log\<close>, and
  \<open>storelog\<close> executes \<open>storelog\<close>: after \<open>initnotif\<close> has succeeded, and on any server that has prepared no statement of that
  name, \<open>storelog\<close> adds no line to the table, and the line goes to syslog with the error message.
\<close>

theorem notif_logs_to_syslog:
  assumes "initnotif pg nq kn ok file st = Some (0, st') \<and> w = n_world st' \<or> (\<forall>n. (''storelog'', n) \<notin> set (prepared (conn w)))"
    and "storelog pg fmt args w = Some w'"
  shows "logs (conn w') = logs (conn w) \<and> tabs (conn w') = tabs (conn w) \<and>
    (\<exists>t. syslog w' = syslog w @ [bytes ''logging failed '' @ bytes ''ERROR:  command failed'' @ bytes '' , log '' @ t @ [10]])"
proof -
  have np: "(''storelog'', Suc 0) \<notin> set (prepared (conn w))" using assms(1) initnotif_prepared [of nq kn ok "file" st st'] by auto
  obtain f c where f: "next_fault (conn w) = (f, c)" by (cases "next_fault (conn w)")
  have "db_exec_prepared ''storelog'' [Text t] 0 (conn w) = (refused, c\<lparr>tx_failed := snapshot c \<noteq> None\<rparr>)" for t
    using np f next_fault_same [OF f] by (simp add: db_exec_prepared_def)
  then show ?thesis
    using assms(2) next_fault_same [OF f]
    by (auto simp: storelog_text PQexecPrepared_def pg_def refused_def log_syslog_def PQerrorMessage_def db_errmsg_def
        split: option.splits if_splits)
qed

theorem notif_logs_to_syslog_witness:
  "\<exists>w' t. storelog pg ''%s%s'' [vararg.VStr (bytes ''epoll wait failed for notifier listening on channel : ''), vararg.VStr (bytes ''noti_1receiver'')]
      \<lparr>conn = new_server empty_tables [(''store_log'', 1)] [], syslog = []\<rparr> = Some w' \<and>
    logs (conn w') = [] \<and> syslog w' = [bytes ''logging failed '' @ bytes ''ERROR:  command failed'' @ bytes '' , log '' @ t @ [10]]"
proof -
  let ?w = "\<lparr>conn = new_server empty_tables [(''store_log'', 1)] [], syslog = []\<rparr>"
  let ?args = "[vararg.VStr (bytes ''epoll wait failed for notifier listening on channel : ''), vararg.VStr (bytes ''noti_1receiver'')]"
  have "length (cstr (bytes s)) \<le> length s" for s using length_cstr_le [of "bytes s"] by simp
  from this [of "''epoll wait failed for notifier listening on channel : ''"] this [of "''noti_1receiver''"]
  have "\<exists>t. log_text ''%s%s'' ?args = Some t \<and> length t < 1000" by simp
  then obtain w' where w': "storelog pg ''%s%s'' ?args ?w = Some w'"
    by (cases "PQexecPrepared pg ''storelog'' [Text (the (log_text ''%s%s'' ?args))] 0 ?w") (auto simp: storelog_text)
  have n: "\<forall>n. (''storelog'', n) \<notin> set (prepared (conn ?w))" by (simp add: new_server_def)
  have "logs (conn ?w) = []" "syslog ?w = []" by (simp_all add: new_server_def)
  with notif_logs_to_syslog [OF disjI2 [OF n] w'] w' show ?thesis by auto
qed

end
