(* ===== verification/Launcher.thy ===== *)
theory Launcher
  imports Config
begin

text \<open>\<open>launcher.c\<close>, which starts the ten processes of a node.\<close>

text \<open>\<open>fork\<close> as the parent sees it, and whether \<open>execv\<close> finds the program in the child.\<close>

record 'o process_api =
  os_fork :: "'o \<Rightarrow> int \<times> 'o"
  os_execv :: "string \<Rightarrow> byte list list \<Rightarrow> 'o \<Rightarrow> bool"
  os_strerror :: "'o \<Rightarrow> byte list"

type_synonym launch_process = "string \<times> byte list list"

definition lps :: "byte list list \<Rightarrow> launch_process list" where
  "lps argv = [
     (''./processor_r'', [bytes ''processor_r'', argv ! 1]), (''./processor_s'', [bytes ''processor_s'', argv ! 2]),
     (''./receiver'', [bytes ''receiver'', argv ! 1]), (''./sender'', [bytes ''sender'', argv ! 2]),
     (''./initial_receiver'', [bytes ''initial_receiver'', argv ! 3]), (''./initial_sender'', [bytes ''initial_sender'', argv ! 4]),
     (''./job_launcher'', [bytes ''job_launcher'', argv ! 5]), (''./notif'', [bytes ''notif'', argv ! 6]),
     (''./notif'', [bytes ''notif'', argv ! 7]), (''./notif'', [bytes ''notif'', argv ! 8])]"

text \<open>The loop: the programs that run at its end, and the lines logged by the parent and the children that exit.\<close>

fun launch :: "'o process_api \<Rightarrow> launch_process list \<Rightarrow> 'o \<Rightarrow> launch_process list \<times> byte list list \<times> 'o" where
  "launch os [] s = ([], [], s)"
| "launch os ((path, args) # ps) s =
     (let (pid, s1) = os_fork os s; (running, lines, s2) = launch os ps s1 in
      if pid < 0 then (running, (bytes ''failed to fork '' @ os_strerror os s1) # lines, s2)
      else if os_execv os path args s1 then ((path, args) # running, lines, s2)
      else (running, (bytes ''failed execv '' @ hd args @ bytes '' with error  '' @ os_strerror os s1) # lines, s2))"

definition launcher_main :: "'o process_api \<Rightarrow> byte list list \<Rightarrow> 'o \<Rightarrow> int \<times> launch_process list \<times> byte list list \<times> 'o" where
  "launcher_main os argv s =
     (if length argv \<noteq> 9 then (-1, [], [bytes ''invalid arguments''], s)
      else let (running, lines, s1) = launch os (lps argv) s in (0, running, lines, s1))"

text \<open>Which of a list of processes get through \<open>fork\<close> and \<open>execv\<close>.\<close>

fun survivors :: "'o process_api \<Rightarrow> launch_process list \<Rightarrow> 'o \<Rightarrow> bool list" where
  "survivors os [] s = []"
| "survivors os ((path, args) # ps) s =
     (let (pid, s1) = os_fork os s in (0 \<le> pid \<and> os_execv os path args s1) # survivors os ps s1)"

lemma launch_survivors:
  "launch os ps s = (running, lines, s') \<Longrightarrow>
   running = List.map fst (filter snd (zip ps (survivors os ps s))) \<and> length running + length lines = length ps"
proof (induction ps arbitrary: s running lines)
  case (Cons p ps)
  obtain path args pid s1 where p: "p = (path, args)" "os_fork os s = (pid, s1)" by (metis prod.exhaust)
  obtain run1 lines1 s2 where l: "launch os ps s1 = (run1, lines1, s2)" by (metis prod.exhaust)
  from Cons.IH [of s1 run1 lines1] l Cons.prems p show ?case by (auto split: if_splits)
qed simp

text \<open>
  Claim C38: the launcher starts what can be started and goes on.  With eight file names it returns 0 whatever
  fails; the programs that run are those of its table whose \<open>fork\<close> and \<open>execv\<close> succeeded, in order, and there is a line
  in the log for each other.  When nothing fails all ten run, \<open>processor_r\<close> and \<open>receiver\<close> on one file, \<open>processor_s\<close> and
  \<open>sender\<close> on another.
\<close>

theorem launcher_starts_survivors:
  assumes "launcher_main os argv s = (r, running, lines, s')"
  shows "(if length argv = 9
    then r = 0 \<and> running = List.map fst (filter snd (zip (lps argv) (survivors os (lps argv) s))) \<and>
      length running + length lines = 10 \<and>
      (False \<notin> set (survivors os (lps argv) s) \<longrightarrow> running = lps argv \<and>
         (\<forall>a b f g. (''./processor_r'', [a, f]) \<in> set running \<longrightarrow> (''./receiver'', [b, g]) \<in> set running \<longrightarrow> f = g) \<and>
         (\<forall>a b f g. (''./processor_s'', [a, f]) \<in> set running \<longrightarrow> (''./sender'', [b, g]) \<in> set running \<longrightarrow> f = g))
    else r = -1 \<and> running = [] \<and> lines = [bytes ''invalid arguments''])"
proof (cases "length argv = 9")
  case True
  obtain run ls s1 where l: "launch os (lps argv) s = (run, ls, s1)" by (metis prod.exhaust)
  define ok where "ok = survivors os (lps argv) s"
  have r: "r = 0" "running = run" "lines = ls" using assms True l by (auto simp: launcher_main_def)
  have n: "length (lps argv) = 10" by (simp add: lps_def)
  have s: "run = List.map fst (filter snd (zip (lps argv) ok))" "length run + length ls = 10"
    unfolding ok_def using launch_survivors [OF l, unfolded n] by blast+
  have len: "length (survivors os ps s) = length ps" for ps
    by (induction os ps s rule: survivors.induct) (auto split: prod.splits)
  have all: "run = lps argv" if "False \<notin> set ok"
  proof -
    have "filter snd (zip (lps argv) ok) = zip (lps argv) ok"
      using that by (intro filter_True ballI) (metis prod.collapse set_zip_rightD)
    then show ?thesis using s(1) len [of "lps argv"] by (simp add: ok_def)
  qed
  have same: "(''./processor_r'', [a, f]) \<in> set (lps argv) \<Longrightarrow> (''./receiver'', [b, g]) \<in> set (lps argv) \<Longrightarrow> f = g"
    "(''./processor_s'', [a, f]) \<in> set (lps argv) \<Longrightarrow> (''./sender'', [b, g]) \<in> set (lps argv) \<Longrightarrow> f = g" for a b f g
    by (simp_all add: lps_def)
  show ?thesis using True r s all same unfolding ok_def by auto
next
  case False
  with assms show ?thesis by (simp add: launcher_main_def)
qed

text \<open>A system where the second \<open>fork\<close> fails.\<close>

definition demo_os :: "nat process_api" where
  "demo_os = \<lparr>os_fork = \<lambda>n. (if n = 1 then -1 else int n + 100, Suc n), os_execv = \<lambda>p as n. True, os_strerror = \<lambda>n. []\<rparr>"

theorem launcher_starts_survivors_witness:
  "\<exists>running lines s'. launcher_main demo_os (replicate 9 (bytes ''x.conf'')) 0 = (0, running, lines, s') \<and>
     length running = 9 \<and> length lines = 1 \<and> (''./processor_s'', [bytes ''processor_s'', bytes ''x.conf'']) \<notin> set running"
proof -
  define argv where "argv = replicate 9 (bytes ''x.conf'')"
  obtain r running lines s' where l: "launcher_main demo_os argv 0 = (r, running, lines, s')" by (metis prod.exhaust)
  have t: "lps argv = [(''./processor_r'', [bytes ''processor_r'', bytes ''x.conf'']), (''./processor_s'', [bytes ''processor_s'', bytes ''x.conf'']),
      (''./receiver'', [bytes ''receiver'', bytes ''x.conf'']), (''./sender'', [bytes ''sender'', bytes ''x.conf'']),
      (''./initial_receiver'', [bytes ''initial_receiver'', bytes ''x.conf'']), (''./initial_sender'', [bytes ''initial_sender'', bytes ''x.conf'']),
      (''./job_launcher'', [bytes ''job_launcher'', bytes ''x.conf'']), (''./notif'', [bytes ''notif'', bytes ''x.conf'']),
      (''./notif'', [bytes ''notif'', bytes ''x.conf'']), (''./notif'', [bytes ''notif'', bytes ''x.conf''])]"
    by (simp add: lps_def argv_def)
  have s: "survivors demo_os (lps argv) 0 = [True, False, True, True, True, True, True, True, True, True]"
    unfolding t by (simp add: demo_os_def)
  have "length argv = 9" by (simp add: argv_def)
  then have "r = 0" "running = List.map fst (filter snd (zip (lps argv) (survivors demo_os (lps argv) 0)))" "length running + length lines = 10"
    using launcher_starts_survivors [OF l] unfolding if_P [OF \<open>length argv = 9\<close>] by blast+
  then have "length running = 9" "length lines = 1" "(''./processor_s'', [bytes ''processor_s'', bytes ''x.conf'']) \<notin> set running" "r = 0"
    unfolding s unfolding t by simp_all
  then show ?thesis using l unfolding argv_def by blast
qed

end
