(* ===== verification/JobLauncher.thy ===== *)
theory JobLauncher
  imports Config
begin

text \<open>
  \<open>job_launcher.c\<close>: calls the database's function of worker queries again and again, with a pause between the calls.
  Time is in nanoseconds.
\<close>

section \<open>The code\<close>

record 'c launcher =
  j_world :: "'c world"
  j_now :: int
  tv_sec :: int
  tv_nsec :: int

definition j_log :: "'c pq \<Rightarrow> string \<Rightarrow> vararg list \<Rightarrow> 'c world \<Rightarrow> (int \<times> 'c world) option" where
  "j_log pq fmt args w = do { w1 \<leftarrow> storelog pq fmt args w; Some (-1, w1) }"

definition initnotif :: "'c pq \<Rightarrow> conf_file \<Rightarrow> 'c world \<Rightarrow> (int \<times> 'c world) option" where
  "initnotif pq file w0 = do {
     (r, w) \<leftarrow> read_config file (replicate 500 0) fmt_job [10, 30, 30] (replicate 3 (SStr [])) w0;
     case r of Inl e \<Rightarrow> Some (e, w)
     | Inr vs \<Rightarrow> do {
         let funcname = str_val (vs ! 0); let username = str_val (vs ! 1); let dbname = str_val (vs ! 2);
         func_command \<leftarrow> sprintf_buf 30 (bytes ''Select '' @ funcname @ bytes ''();'');
         conninfo \<leftarrow> conn_command username dbname;
         let (up, c) = pq_connectdb pq conninfo;
         let w1 = w\<lparr>conn := c\<rparr>;
         if \<not> up then
           Some (-1, log_syslog (bytes ''failed to create connection to database user '' @ username @ bytes '' dbname '' @ dbname @
              bytes '' error '' @ PQerrorMessage pq w1) w1)
         else do {
         let (res, w2) = PQprepare pq ''store_log'' ''INSERT INTO logs (log) VALUES ($1);'' 1 w1;
         if res_status res \<noteq> COMMAND_OK then
           Some (-1, log_syslog (bytes ''Preparation of statement failed: '' @ PQerrorMessage pq w2 @ [10]) w2)
         else do {
         let (res2, w3) = PQprepare pq ''run_jobs'' (text_of_bytes func_command) 0 w2;
         if res_status res2 \<noteq> COMMAND_OK then
           j_log pq ''%s%s'' [vararg.VStr (bytes ''preparation of statement run jobs failed : ''), vararg.VStr (PQerrorMessage pq w3)] w3
         else Some (0, w3) } } } }"

text \<open>How long \<open>nanosleep\<close> is asked to wait: it refuses a negative time and nanoseconds that make a second, and does not wait.\<close>

definition nanosleep :: "int \<Rightarrow> int \<Rightarrow> int" where
  "nanosleep sec nsec = (if 0 \<le> sec \<and> 0 \<le> nsec \<and> nsec < 10 ^ 9 then sec * 10 ^ 9 + nsec else 0)"

text \<open>One turn of \<open>while (1)\<close>, with the time of the call and whether it succeeded; \<open>spent\<close> is the time a turn takes beside the pause.\<close>

definition job_once :: "'c pq \<Rightarrow> ('c \<Rightarrow> nat) \<Rightarrow> 'c launcher \<Rightarrow> (int \<times> bool) \<times> 'c launcher" where
  "job_once pq spent st =
     (let t = j_now st + nanosleep (tv_sec st) (tv_nsec st);
          (res, w) = PQexecPrepared pq ''run_jobs'' [] 0 (j_world st);
          hasfailed = (res_status res \<noteq> TUPLES_OK)
      in ((t, \<not> hasfailed), st\<lparr>j_world := w, j_now := t + int (spent (conn (j_world st))), tv_sec := (if hasfailed then 5 else 2)\<rparr>))"

text \<open>The first \<open>n\<close> turns of the loop, which has no exit.\<close>

fun job_loop :: "'c pq \<Rightarrow> ('c \<Rightarrow> nat) \<Rightarrow> nat \<Rightarrow> 'c launcher \<Rightarrow> (int \<times> bool) list \<times> 'c launcher" where
  "job_loop pq spent 0 st = ([], st)"
| "job_loop pq spent (Suc n) st =
     (let (call, st1) = job_once pq spent st; (calls, st2) = job_loop pq spent n st1 in (call # calls, st2))"

text \<open>\<open>main\<close> with \<open>n\<close> turns of its loop.  \<open>tm.tv_sec\<close> is assigned twice; \<open>tv_nsec\<close> stays what \<open>st\<close> has.\<close>

definition job_launcher_main ::
  "'c pq \<Rightarrow> ('c \<Rightarrow> nat) \<Rightarrow> nat \<Rightarrow> nat \<Rightarrow> conf_file \<Rightarrow> 'c launcher \<Rightarrow> ((int + (int \<times> bool) list) \<times> 'c launcher) option" where
  "job_launcher_main pq spent n argc file st = do {
     let st1 = st\<lparr>tv_sec := 2\<rparr>;
     let st2 = st1\<lparr>tv_sec := 0\<rparr>;
     let w = (if argc \<noteq> 2 then log_syslog (bytes ''invlaid arguments'') (j_world st2) else j_world st2);
     (r, w1) \<leftarrow> initnotif pq file w;
     let st3 = st2\<lparr>j_world := w1\<rparr>;
     if r = -1 then Some (Inl (-1), st3)
     else do {
       let (calls, st4) = job_loop pq spent n st3;
       Some (Inr calls, st4) } }"


section \<open>The pauses\<close>

lemma length_job_loop: "job_loop pq spent n st = (calls, st') \<Longrightarrow> length calls = n"
  by (induction n arbitrary: st calls) (auto split: prod.splits)

lemma job_once_nsec: "job_once pq spent st = (call, st') \<Longrightarrow> tv_nsec st' = tv_nsec st"
  by (auto simp: job_once_def Let_def split: prod.splits)

lemma job_loop_times:
  "job_loop pq spent n st = (calls, st') \<Longrightarrow> 0 < n \<Longrightarrow>
   fst (calls ! 0) = j_now st + nanosleep (tv_sec st) (tv_nsec st) \<and>
   (\<forall>i. Suc i < n \<longrightarrow> fst (calls ! i) + nanosleep (if snd (calls ! i) then 2 else 5) (tv_nsec st) \<le> fst (calls ! Suc i))"
proof (induction n arbitrary: st calls)
  case (Suc n)
  obtain call st1 calls1 where c: "job_once pq spent st = (call, st1)" "job_loop pq spent n st1 = (calls1, st')" "calls = call # calls1"
    using Suc.prems by (auto split: prod.splits)
  have call: "fst call = j_now st + nanosleep (tv_sec st) (tv_nsec st)" "fst call \<le> j_now st1" "tv_sec st1 = (if snd call then 2 else 5)"
    using c(1) by (auto simp: job_once_def Let_def split: prod.splits)
  have first: "fst call + nanosleep (if snd call then 2 else 5) (tv_nsec st) \<le> fst (calls1 ! 0)" if "0 < n"
    using Suc.IH [OF c(2) that] call job_once_nsec [OF c(1)] by simp
  have "fst (calls ! i) + nanosleep (if snd (calls ! i) then 2 else 5) (tv_nsec st) \<le> fst (calls ! Suc i)" if "Suc i < Suc n" for i
  proof (cases i)
    case 0
    with that first c(3) show ?thesis by simp
  next
    case (Suc j)
    with that have j: "Suc j < n" by simp
    then have "0 < n" by simp
    from conjunct2 [OF Suc.IH [OF c(2) this]] j show ?thesis using job_once_nsec [OF c(1)] Suc c(3) by simp
  qed
  with call(1) c(3) show ?case by simp
qed simp

lemma job_loop_no_pause:
  "job_loop pq spent n st = (calls, st') \<Longrightarrow> (\<And>sec. nanosleep sec (tv_nsec st) = 0) \<Longrightarrow> \<forall>c. spent c = 0 \<Longrightarrow> i < n \<Longrightarrow>
   fst (calls ! i) = j_now st"
proof (induction n arbitrary: st calls i)
  case (Suc n)
  obtain call st1 calls1 where c: "job_once pq spent st = (call, st1)" "job_loop pq spent n st1 = (calls1, st')" "calls = call # calls1"
    using Suc.prems(1) by (auto split: prod.splits)
  have call: "fst call = j_now st" "j_now st1 = j_now st" "tv_nsec st1 = tv_nsec st"
    using c(1) Suc.prems(2,3) by (auto simp: job_once_def Let_def split: prod.splits)
  show ?case
    using Suc.IH [OF c(2) Suc.prems(2) [folded call(3)] Suc.prems(3)] Suc.prems(4) call c(3) by (cases i) auto
qed simp

text \<open>What the server is left with after \<open>n\<close> calls.\<close>

lemma job_loop_conn:
  "job_loop pq spent n st = (calls, st') \<Longrightarrow>
   conn (j_world st') = ((\<lambda>c. snd (pq_exec_prepared pq ''run_jobs'' [] 0 c)) ^^ n) (conn (j_world st))"
  by (induction n arbitrary: st calls)
    (auto simp: job_once_def PQexecPrepared_def Let_def funpow_swap1 simp del: funpow.simps(2) split: prod.splits
      simp add: funpow_Suc_right)


text \<open>\<open>conf/job_launcher1.conf\<close>, and a server that fails in the second call and counts the calls.\<close>

definition job_launcher1_conf :: "byte list" where
  "job_launcher1_conf = render (directives fmt_job) [SStr (bytes ''run_jobs''), SStr (bytes ''shrikant''), SStr (bytes ''shrikant1'')]"

definition demo_runs :: "nat pq" where
  "demo_runs = \<lparr>pq_connectdb = \<lambda>info. (info = bytes ''user=shrikant dbname=shrikant1'', 0),
     pq_exec = \<lambda>cmd c. (\<lparr>res_status = COMMAND_OK, res_rows = []\<rparr>, c),
     pq_prepare = \<lambda>name sql n c. (\<lparr>res_status = (if name = ''run_jobs'' \<and> sql \<noteq> ''Select run_jobs();'' then FATAL_ERROR else COMMAND_OK), res_rows = []\<rparr>, c),
     pq_exec_prepared = \<lambda>name ps fmt c. (\<lparr>res_status = (if c = 1 then FATAL_ERROR else TUPLES_OK), res_rows = []\<rparr>, Suc c),
     pq_errmsg = \<lambda>c. []\<rparr>"

definition demo_launcher :: "int \<Rightarrow> nat launcher" where
  "demo_launcher nsec = \<lparr>j_world = \<lparr>conn = 0, syslog = []\<rparr>, j_now = 0, tv_sec = 0, tv_nsec = nsec\<rparr>"

lemma job_launcher1_runs:
  "\<exists>st'. job_launcher_main demo_runs (\<lambda>c. 0) 3 2 (File job_launcher1_conf) (demo_launcher nsec) =
     Some (Inr (fst (job_loop demo_runs (\<lambda>c. 0) 3 (demo_launcher nsec))), st')"
proof -
  have f: "fits (directives fmt_job) [10, 30, 30] [SStr (bytes ''run_jobs''), SStr (bytes ''shrikant''), SStr (bytes ''shrikant1'')]"
    and l: "length (render (directives fmt_job) [SStr (bytes ''run_jobs''), SStr (bytes ''shrikant''), SStr (bytes ''shrikant1'')] @ []) < 500"
    and q: "text_of_bytes (bytes ''Select '' @ bytes ''run_jobs'' @ bytes ''();'') = ''Select run_jobs();''"
    and b: "sprintf_buf 30 (bytes ''Select '' @ bytes ''run_jobs'' @ bytes ''();'') = Some (bytes ''Select '' @ bytes ''run_jobs'' @ bytes ''();'')"
    and u: "conn_command (bytes ''shrikant'') (bytes ''shrikant1'') = Some (bytes ''user=shrikant dbname=shrikant1'')"
    by code_simp+
  have m: "(fmt_job, [10, 30, 30], 500) \<in> set config_readers" by (simp add: config_readers_def)
  have r: "read_config (File job_launcher1_conf) (replicate 500 0) fmt_job [10, 30, 30] (replicate 3 (SStr [])) w =
      Some (Inr [SStr (bytes ''run_jobs''), SStr (bytes ''shrikant''), SStr (bytes ''shrikant1'')], w)" for w :: "nat world"
    using read_config_text [OF m f, of "replicate 3 (SStr [])" "[]" w] l by (simp add: job_launcher1_conf_def)
  have i: "initnotif demo_runs (File job_launcher1_conf) (j_world (demo_launcher nsec)) = Some (0, \<lparr>conn = 0, syslog = []\<rparr>)"
    using r [of "j_world (demo_launcher nsec)"] b u q
    by (simp add: initnotif_def str_val_def demo_runs_def PQprepare_def demo_launcher_def)
  show ?thesis using i by (simp add: job_launcher_main_def demo_launcher_def split: prod.splits)
qed


end
