(* ===== verification/UserProgram.thy ===== *)
theory UserProgram
  imports Config ProcessorS
begin

text \<open>
  \<open>user_program.c\<close>: the menu a user imports files, sends them, looks at the jobs and changes priorities with.  The
  input is the list of bytes not read yet, the output the bytes printed so far.
\<close>

section \<open>Input and output\<close>

record 'c user =
  u_world :: "'c world"
  u_in :: "byte list"
  u_out :: "byte list"

definition say :: "byte list \<Rightarrow> 'c user \<Rightarrow> 'c user" where
  "say t st = st\<lparr>u_out := u_out st @ t\<rparr>"

lemma say_simps [simp]: "u_in (say t st) = u_in st" "u_world (say t st) = u_world st"
  by (simp_all add: say_def)

text \<open>\<open>fgets(buf, n, stdin)\<close>: what it stores before its NUL, and what is left; a null pointer at the end of the input.\<close>

definition fgets :: "nat \<Rightarrow> byte list \<Rightarrow> (byte list \<times> byte list) option" where
  "fgets n inp =
     (if inp = [] then None
      else let t = take (n - 1) inp; l = takeWhile (\<lambda>b. b \<noteq> 10) t; line = (if length l < length t then l @ [10] else l) in
        Some (line, drop (length line) inp))"

text \<open>An array of \<open>n\<close> cleared bytes with a text at its start.\<close>

definition array :: "nat \<Rightarrow> byte list \<Rightarrow> byte list" where
  "array n t = t @ replicate (n - length t) 0"

definition get_input :: "byte list \<Rightarrow> nat \<Rightarrow> 'c user \<Rightarrow> int \<times> byte list \<times> 'c user" where
  "get_input prompt bsize st =
     (let st1 = say prompt st in
      case fgets bsize (u_in st1) of
        Some (line, rest) \<Rightarrow> (0, array bsize line, st1\<lparr>u_in := rest\<rparr>)
      | None \<Rightarrow> (-1, array bsize [], say (bytes ''Invalid Input'' @ [10]) st1))"

text \<open>\<open>len = strlen(s); if (s[len-1] == '\n') s[len-1] = '\0';\<close>, which looks before the array when the text is empty.\<close>

definition strip_newline :: "byte list \<Rightarrow> byte list option" where
  "strip_newline buf = do {
     s \<leftarrow> c_string buf;
     if s = [] then None else Some (if last s = 10 then buf[length s - 1 := 0] else buf) }"


section \<open>The statements\<close>

definition upbufsize :: nat where "upbufsize = 260"

definition dbs_user :: "db_statement list" where
  "dbs_user = [
    (''import_file'', ''INSERT INTO files(file_id, file_name, file_data) VALUES(GEN_RANDOM_UUID(), $1, lo_import($2));'', 2),
    (''check_file_existence'', ''SELECT 1 FROM files WHERE file_name = $1;'', 1),
    (''create_job_for_sending'', ''INSERT INTO job_scheduler(jobdata, jstate, jtype, jsource, jobid, jparent_jobid, jdestination, jpriority) VALUES($1, 'S', lpad('6', 5, ' '), (select jsource from job_scheduler where jparent_jobid = jobid), GEN_RANDOM_UUID(), (select jobid from job_scheduler where jparent_jobid = jobid), lpad($2, 5, ' '), 5);'', 2),
    (''show_stats'', ''SELECT * FROM show_stats;'', 0),
    (''show_jobs_info'', ''SELECT * FROM show_jobs_info;'', 0),
    (''update_job_priority'', ''UPDATE job_scheduler SET jpriority = $2 WHERE jparent_jobid = $1::uuid OR jobid = $1::uuid;'', 2),
    (''get_files_info'', ''SELECT * FROM show_files_info;'', 0)]"

lemma stmt_name_dbs_user [simp]:
  "stmt_name dbs_user 0 = ''import_file''" "stmt_name dbs_user (Suc 0) = ''check_file_existence''"
  "stmt_name dbs_user 2 = ''create_job_for_sending''" "stmt_name dbs_user 3 = ''show_stats''" "stmt_name dbs_user 4 = ''show_jobs_info''"
  "stmt_name dbs_user 5 = ''update_job_priority''" "stmt_name dbs_user 6 = ''get_files_info''"
  by (simp_all add: stmt_name_def dbs_user_def)

definition run_prepared :: "'c pq \<Rightarrow> nat \<Rightarrow> param list \<Rightarrow> 'c user \<Rightarrow> pgresult \<times> 'c user" where
  "run_prepared pq i ps st = (let (res, w) = PQexecPrepared pq (stmt_name dbs_user i) ps 0 (u_world st) in (res, st\<lparr>u_world := w\<rparr>))"

text \<open>The path loses its last character; the array it is copied to is as large as the one it comes from.\<close>

definition import_file :: "'c pq \<Rightarrow> byte list \<Rightarrow> 'c user \<Rightarrow> (int \<times> 'c user) option" where
  "import_file pq file_path st = do {
     s \<leftarrow> c_string file_path;
     if s = [] \<or> length s > upbufsize then None else do {
     file_name \<leftarrow> c_string (take (length s) (file_path[length s - 1 := 0]));
     let (res, st1) = run_prepared pq 0 [Text file_name, Text file_name] st;
     if res_status res \<noteq> COMMAND_OK then
       Some (-1, say (bytes ''failed to store file '' @ file_name @ bytes '', error : '' @ PQerrorMessage pq (u_world st1) @ [10]) st1)
     else Some (0, say (bytes ''File '' @ file_name @ bytes '' succesfully stored in database'' @ [10]) st1) } }"

definition send_file :: "'c pq \<Rightarrow> byte list \<Rightarrow> byte list \<Rightarrow> 'c user \<Rightarrow> (int \<times> 'c user) option" where
  "send_file pq file_name0 destination0 st = do {
     file_name1 \<leftarrow> strip_newline file_name0;
     destination1 \<leftarrow> strip_newline destination0;
     file_name \<leftarrow> c_string file_name1;
     destination \<leftarrow> c_string destination1;
     let (res, st1) = run_prepared pq 1 [Text file_name] st;
     if res_status res \<noteq> TUPLES_OK then
       Some (-1, say (bytes ''failed to get file info '' @ file_name @ bytes '', error : '' @ PQerrorMessage pq (u_world st1) @ [10]) st1)
     else if PQntuples res < 1 then
       Some (-1, say (bytes ''file doesn't exists in database'' @ [10]) st1)
     else do {
     let (res2, st2) = run_prepared pq 2 [Text file_name, Text destination] st1;
     if res_status res2 \<noteq> COMMAND_OK then
       Some (-1, say (bytes ''failed to create job for file sending '' @ file_name @ bytes '', error : '' @ PQerrorMessage pq (u_world st2) @ [10]) st2)
     else Some (0, say (bytes ''Job succesfully created for '' @ file_name @ [10]) st2) } }"

definition export_file :: "byte list \<Rightarrow> 'c user \<Rightarrow> (int \<times> 'c user) option" where
  "export_file path st = do { p \<leftarrow> c_string path; Some (0, say (bytes ''not implemented '' @ p @ [10]) st) }"

text \<open>\<open>strncpy(pjobid, jobid, sizeof(pjobid))\<close> leaves no NUL behind 37 characters or more.\<close>

definition update_job_priority :: "'c pq \<Rightarrow> byte list \<Rightarrow> byte list \<Rightarrow> 'c user \<Rightarrow> (int \<times> 'c user) option" where
  "update_job_priority pq jobid0 jobpriority0 st = do {
     jobid1 \<leftarrow> strip_newline jobid0;
     jobpriority1 \<leftarrow> strip_newline jobpriority0;
     jobid \<leftarrow> c_string jobid1;
     jobpriority \<leftarrow> c_string jobpriority1;
     pjobid \<leftarrow> c_string (take 37 (array 37 jobid));
     pjobpriority \<leftarrow> strncpy_exact (replicate upbufsize 0) jobpriority (length jobpriority);
     p \<leftarrow> c_string pjobpriority;
     let (res, st1) = run_prepared pq 5 [Text pjobid, Text p] st;
     if res_status res \<noteq> COMMAND_OK then
       Some (-1, say (bytes ''failed to update job priority error : '' @ PQerrorMessage pq (u_world st1) @ [10]) st1)
     else Some (0, say (bytes ''successfully update job priority'' @ [10]) st1) }"


section \<open>The three tables\<close>

text \<open>\<open>%-10s\<close> and \<open>%37s\<close>: blanks to the width, after or before the text.\<close>

datatype column = L nat | R nat

fun pad :: "column \<Rightarrow> byte list \<Rightarrow> byte list" where
  "pad (L n) t = t @ replicate (n - length t) 32"
| "pad (R n) t = replicate (n - length t) 32 @ t"

definition table_line :: "column list \<Rightarrow> byte list list \<Rightarrow> byte list" where
  "table_line cs fs = concat (map2 (\<lambda>c f. 32 # pad c f @ bytes '' |'') cs fs) @ [10]"

definition row_fields :: "pgresult \<Rightarrow> nat \<Rightarrow> nat \<Rightarrow> byte list list option" where
  "row_fields res n i = those (List.map (\<lambda>j. map_option cstr (PQgetvalue res i j)) [0 ..< n])"

text \<open>The \<open>show_\<close> functions are copies of one another: number of the statement, text of a failure, columns of the head and of a row, width.\<close>

definition show_table ::
  "'c pq \<Rightarrow> nat \<Rightarrow> string \<Rightarrow> (column \<times> column \<times> string) list \<Rightarrow> nat \<Rightarrow> 'c user \<Rightarrow> (int \<times> 'c user) option" where
  "show_table pq stmt failure columns width st = do {
     let (res, st1) = run_prepared pq stmt [] st;
     if res_status res \<noteq> TUPLES_OK then
       Some (-1, say (bytes failure @ PQerrorMessage pq (u_world st1) @ [10]) st1)
     else if PQntuples res < 1 then Some (-1, say (bytes ''got no jobs'' @ [10]) st1)
     else do {
     let line = replicate width 45 @ [10];
     rows \<leftarrow> those (List.map (row_fields res (length columns)) [0 ..< PQntuples res]);
     Some (0, say (line @ table_line (List.map fst columns) (List.map (\<lambda>(_, _, h). bytes h) columns) @ line @
       concat (List.map (table_line (List.map (fst \<circ> snd) columns)) rows) @ line) st1) } }"

definition show_stats :: "'c pq \<Rightarrow> 'c user \<Rightarrow> (int \<times> 'c user) option" where
  "show_stats pq = show_table pq 3 ''failed to show stats error : ''
     [(L 10, L 10, ''total_jobs''), (L 10, L 10, ''jstate''), (L 10, L 10, ''jpriority''), (L 15, L 15, ''jdestination''), (L 10, L 10, ''jtype'')] 70"

definition show_jobs_info :: "'c pq \<Rightarrow> 'c user \<Rightarrow> (int \<times> 'c user) option" where
  "show_jobs_info pq = show_table pq 4 ''failed to show job info : ''
     [(L 37, R 37, ''jobid''), (L 70, L 70, ''file_name''), (L 10, L 10, ''jstate''), (L 10, L 10, ''jpriority''), (L 15, L 15, ''jdestination'')] 157"

definition show_files_info :: "'c pq \<Rightarrow> 'c user \<Rightarrow> (int \<times> 'c user) option" where
  "show_files_info pq = show_table pq 6 ''failed to show files info : ''
     [(L 37, L 37, ''files_id''), (L 70, L 70, ''file_name''), (L 20, L 20, ''file_data_oid''), (L 50, L 50, ''time_of_insertion'')] 189"


section \<open>The menu\<close>

definition menu_text :: "byte list" where
  "menu_text = [10] @ concat (List.map (\<lambda>l. bytes l @ [10])
     [''Enter 1 to import a file into database'', ''Enter 2 to send a file'', ''Enter 3 to export a file from database'',
      ''Enter 4 to show stats'', ''Enter 5 to show job info'', ''Enter 6 to Update job priority'', ''Enter 7 to show files present'',
      ''Enter 8 to close the program''])"

text \<open>Two lines of input and what is done with them; a \<open>break\<close> when there is none.\<close>

definition with_input :: "string \<Rightarrow> (byte list \<Rightarrow> 'c user \<Rightarrow> 'c user option) \<Rightarrow> 'c user \<Rightarrow> 'c user option" where
  "with_input prompt f st =
     (let (r, buf, st1) = get_input (bytes prompt @ [10]) upbufsize st in if r = -1 then Some st1 else f buf st1)"

text \<open>
  One turn of the loop, and whether the program goes on.  \<open>fflush(stdin)\<close> is undefined in C; \<open>flush\<close> says what it leaves
  of the input.
\<close>

definition menu_once :: "'c pq \<Rightarrow> (byte list \<Rightarrow> byte list) \<Rightarrow> 'c user \<Rightarrow> (bool \<times> 'c user) option" where
  "menu_once pq flush st0 =
     (let st1 = say menu_text st0; st2 = st1\<lparr>u_in := flush (u_in st1)\<rparr>;
          (choice1, st) = (case fgets 3 (u_in st2) of Some (t, rest) \<Rightarrow> (array 3 t, st2\<lparr>u_in := rest\<rparr>) | None \<Rightarrow> (array 3 [], st2));
          c = choice1 ! 0; go = map_option (\<lambda>s. (True, s)); fin = map_option (\<lambda>(r :: int, s). s)
      in if c = 56 then Some (False, st)
         else if c = 49 then go (with_input ''Enter absolute file path'' (\<lambda>b s. fin (import_file pq b s)) st)
         else if c = 50 then go (with_input ''Enter file name'' (\<lambda>b. with_input ''Enter destination'' (\<lambda>d s. fin (send_file pq b d s))) st)
         else if c = 51 then go (with_input ''Enter absolute file path'' (\<lambda>b s. fin (export_file b s)) st)
         else if c = 52 then go (fin (show_stats pq st))
         else if c = 53 then go (fin (show_jobs_info pq st))
         else if c = 54 then go (with_input ''Enter jobid id'' (\<lambda>b. with_input ''Enter job priority'' (\<lambda>d s. fin (update_job_priority pq b d s))) st)
         else if c = 55 then go (fin (show_files_info pq st))
         else Some (True, say (bytes ''Invalid Input'' @ [10]) st))"

partial_function (option) menu :: "'c pq \<Rightarrow> (byte list \<Rightarrow> byte list) \<Rightarrow> 'c user \<Rightarrow> 'c user option" where
  "menu pq flush st = do {
     (on, st1) \<leftarrow> menu_once pq flush st;
     if on then menu pq flush st1 else Some st1 }"


section \<open>\<open>main\<close>\<close>

text \<open>Connecting and preparing as in the other programs, with messages on the terminal.\<close>

definition connect_to_database_u :: "'c pq \<Rightarrow> byte list \<Rightarrow> 'c user \<Rightarrow> int \<times> 'c user" where
  "connect_to_database_u pq conninfo st =
     (let (up, c) = pq_connectdb pq conninfo; st1 = st\<lparr>u_world := (u_world st)\<lparr>conn := c\<rparr>\<rparr> in
      if \<not> up then (-1, say (bytes ''Connection to database failed: '' @ PQerrorMessage pq (u_world st1) @ [10]) st1) else (0, st1))"

fun prepare_statements_u :: "'c pq \<Rightarrow> db_statement list \<Rightarrow> 'c user \<Rightarrow> int \<times> 'c user" where
  "prepare_statements_u pq [] st = (0, st)"
| "prepare_statements_u pq ((name, sql, n) # dbs) st =
     (let (r, w) = PQprepare pq name sql n (u_world st); st1 = st\<lparr>u_world := w\<rparr> in
      if res_status r \<noteq> COMMAND_OK
      then (-1, say (bytes ''Preparation of statement failed: '' @ PQerrorMessage pq w @ [10]) st1)
      else prepare_statements_u pq dbs st1)"

text \<open>\<open>main\<close>; \<open>user\<close> and \<open>db\<close> are what its two arrays hold before \<open>sscanf\<close>.\<close>

definition user_program_main ::
  "'c pq \<Rightarrow> (byte list \<Rightarrow> byte list) \<Rightarrow> byte list \<Rightarrow> byte list \<Rightarrow> nat \<Rightarrow> conf_file \<Rightarrow> 'c user \<Rightarrow> (int \<times> 'c user) option" where
  "user_program_main pq flush user db argc file st =
     (if argc \<noteq> 2 then Some (-1, say (bytes ''invalid arguments'' @ [10]) st)
      else case file of
        Missing \<Rightarrow> Some (-1, say (bytes ''failed to open config file'' @ [10]) st)
      | Unreadable \<Rightarrow> Some (-1, say (bytes ''failed to read config file'') st)
      | File content \<Rightarrow>
          if content = [] then Some (-1, say (bytes ''failed to read config file'') st)
          else do {
            vs \<leftarrow> sscanf fmt_user [30, 30] (read_into (replicate upbufsize 0) content) [SStr user, SStr db];
            cmd \<leftarrow> conn_command (str_val (vs ! 0)) (str_val (vs ! 1));
            let (r1, st1) = connect_to_database_u pq cmd st;
            if r1 = -1 then Some (-1, st1) else do {
            let (r2, st2) = prepare_statements_u pq dbs_user st1;
            if r2 = -1 then Some (-1, st2) else do {
            st3 \<leftarrow> menu pq flush st2;
            Some (0, st3) } } })"


section \<open>A line typed by the user\<close>

text \<open>A text without newline or NUL that the arrays hold, as \<open>get_input\<close> stores the line.\<close>

definition typeable :: "byte list \<Rightarrow> bool" where
  "typeable t \<longleftrightarrow> 0 \<notin> set t \<and> 10 \<notin> set t \<and> length t < 259"

lemma c_string_array: "0 \<notin> set t \<Longrightarrow> length t < n \<Longrightarrow> c_string (array n t) = Some t"
  by (simp add: c_string_def array_def cstr_append_replicate)

lemma strip_typed:
  assumes "typeable t"
  shows "strip_newline (array upbufsize (t @ [10])) = Some (array upbufsize t)"
proof -
  have "c_string (array upbufsize (t @ [10])) = Some (t @ [10])"
    using assms by (intro c_string_array) (auto simp: typeable_def upbufsize_def)
  moreover have "(array upbufsize (t @ [10]))[length t := 0] = array upbufsize t"
    using assms by (simp add: array_def typeable_def upbufsize_def list_update_append Cons_replicate_eq)
  ultimately show ?thesis by (simp add: strip_newline_def)
qed

lemma c_string_typed: "typeable t \<Longrightarrow> c_string (array upbufsize t) = Some t"
  by (intro c_string_array) (auto simp: typeable_def upbufsize_def)

lemma get_input_line:
  assumes "typeable t" "u_in st = t @ 10 # rest"
  shows "get_input prompt upbufsize st =
    (0, array upbufsize (t @ [10]), (say prompt st)\<lparr>u_in := rest\<rparr>)"
proof -
  have "fgets upbufsize (t @ 10 # rest) = Some (t @ [10], rest)"
  proof -
    have "259 - length t = Suc (258 - length t)" using assms(1) by (auto simp: typeable_def)
    then have k: "take 259 (t @ 10 # rest) = t @ 10 # take (258 - length t) rest"
      using assms(1) by (simp add: typeable_def)
    have "\<And>x. takeWhile (\<lambda>b. b \<noteq> 10) (t @ 10 # x) = t"
      using assms(1) by (subst takeWhile_append2) (auto simp: typeable_def)
    with k show ?thesis by (simp add: fgets_def upbufsize_def Let_def)
  qed
  then show ?thesis using assms(2) by (simp add: get_input_def say_def)
qed


section \<open>Sending a file\<close>

lemma run_prepared_pg:
  assumes "run_prepared pg i ps st = (res, st1)" "snapshot (conn (u_world st)) = None"
  shows "snapshot (conn (u_world st1)) = None \<and> u_in st1 = u_in st \<and> u_out st1 = u_out st \<and>
    tabs (conn (u_world st1)) = (if res_status res = FATAL_ERROR then tabs (conn (u_world st))
      else sql_effect (stmt_name dbs_user i) ps (tabs (conn (u_world st)))) \<and>
    (res_status res \<noteq> FATAL_ERROR \<longrightarrow> sql_ok (stmt_name dbs_user i) ps (tabs (conn (u_world st))) \<and>
      res_rows res = sql_rows (stmt_name dbs_user i) ps (tabs (conn (u_world st))) \<and>
      res_status res = (if is_query (stmt_name dbs_user i) then TUPLES_OK else COMMAND_OK))"
proof -
  obtain w where w: "PQexecPrepared pg (stmt_name dbs_user i) ps 0 (u_world st) = (res, w)" "st1 = st\<lparr>u_world := w\<rparr>"
    using assms(1) by (auto simp: run_prepared_def split: prod.splits)
  have "sql_ok (stmt_name dbs_user i) ps (tabs (conn (u_world st))) \<and> res_rows res = sql_rows (stmt_name dbs_user i) ps (tabs (conn (u_world st))) \<and>
      res_status res = (if is_query (stmt_name dbs_user i) then TUPLES_OK else COMMAND_OK)" if "res_status res \<noteq> FATAL_ERROR"
    using w(1) that by (auto simp: PQexecPrepared_def pg_def db_exec_prepared_def refused_def split: prod.splits if_splits)
  with db.autocommit_step [OF w(1)] w(2) assms(2) show ?thesis by simp
qed

definition user_names :: "(string \<times> nat) set" where
  "user_names = set (List.map (\<lambda>(n, sql, k). (n, k)) dbs_user)"

lemma run_prepared_healthy:
  assumes "healthy user_names (conn (u_world st))" "(stmt_name dbs_user i, length ps) \<in> user_names"
    and "sql_ok (stmt_name dbs_user i) ps (tabs (conn (u_world st)))" "stmt_name dbs_user i \<noteq> ''storelog''"
  shows "run_prepared pg i ps st =
    (\<lparr>res_status = (if is_query (stmt_name dbs_user i) then TUPLES_OK else COMMAND_OK),
      res_rows = sql_rows (stmt_name dbs_user i) ps (tabs (conn (u_world st)))\<rparr>,
     st\<lparr>u_world := (u_world st)\<lparr>conn := (conn (u_world st))\<lparr>tabs := sql_effect (stmt_name dbs_user i) ps (tabs (conn (u_world st)))\<rparr>\<rparr>\<rparr>)"
proof -
  have "(stmt_name dbs_user i, length ps) \<in> set (prepared (conn (u_world st)))" using assms(1,2) by (auto simp: healthy_def)
  then show ?thesis
    using run_healthy [of "conn (u_world st)" "stmt_name dbs_user i" ps 0 "syslog (u_world st)"] assms
    by (cases "u_world st") (simp add: run_prepared_def healthy_def)
qed

lemma user_names:
  "user_names = {(''import_file'', 2), (''check_file_existence'', 1), (''create_job_for_sending'', 2), (''show_stats'', 0),
     (''show_jobs_info'', 0), (''update_job_priority'', 2), (''get_files_info'', 0)}"
  by (simp add: user_names_def dbs_user_def)

lemma run_query:
  assumes "healthy user_names (conn (u_world st))" "(stmt_name dbs_user i, length ps) \<in> user_names" "is_query (stmt_name dbs_user i)"
    and "sql_ok (stmt_name dbs_user i) ps (tabs (conn (u_world st)))" "stmt_name dbs_user i \<noteq> ''storelog'' \<and> stmt_name dbs_user i \<noteq> ''pr_getcomms''"
  shows "run_prepared pg i ps st =
    (\<lparr>res_status = TUPLES_OK, res_rows = sql_rows (stmt_name dbs_user i) ps (tabs (conn (u_world st)))\<rparr>, st)"
proof -
  have "sql_effect (stmt_name dbs_user i) ps t = t" for t using db.select_effect assms(3,5) by blast
  then show ?thesis using run_prepared_healthy [OF assms(1,2,4)] assms(3,5) by simp
qed

lemma run_command:
  assumes "healthy user_names (conn (u_world st))" "(stmt_name dbs_user i, length ps) \<in> user_names" "\<not> is_query (stmt_name dbs_user i)"
    and "sql_ok (stmt_name dbs_user i) ps (tabs (conn (u_world st)))" "stmt_name dbs_user i \<noteq> ''storelog''"
  shows "\<exists>rows. run_prepared pg i ps st = (\<lparr>res_status = COMMAND_OK, res_rows = rows\<rparr>,
    st\<lparr>u_world := (u_world st)\<lparr>conn := (conn (u_world st))\<lparr>tabs := sql_effect (stmt_name dbs_user i) ps (tabs (conn (u_world st)))\<rparr>\<rparr>\<rparr>)"
  using run_prepared_healthy [OF assms(1,2,4,5)] assms(3) by (intro exI) simp

lemma send_file_outcome:
  assumes "typeable f" "typeable d" "snapshot (conn (u_world st)) = None"
  shows "\<exists>r st'. send_file pg (array upbufsize (f @ [10])) (array upbufsize (d @ [10])) st = Some (r, st') \<and>
    snapshot (conn (u_world st')) = None \<and> u_in st' = u_in st \<and>
    (r = 0 \<and> f \<in> file_name ` set (files (tabs (conn (u_world st)))) \<and>
       (\<exists>data. bytea_in f = Some data \<and> tabs (conn (u_world st')) = insert_send_job data d (tabs (conn (u_world st)))) \<or>
     r = -1 \<and> tabs (conn (u_world st')) = tabs (conn (u_world st))) \<and>
    (healthy user_names (conn (u_world st)) \<and> f \<in> file_name ` set (files (tabs (conn (u_world st)))) \<and>
       length (root_jobs (tabs (conn (u_world st)))) = 1 \<and> bytea_in f \<noteq> None \<longrightarrow> r = 0)"
proof -
  let ?t = "tabs (conn (u_world st))"
  let ?run = "send_file pg (array upbufsize (f @ [10])) (array upbufsize (d @ [10])) st"
  obtain res st1 where q: "run_prepared pg 1 [Text f] st = (res, st1)" by (metis prod.exhaust)
  obtain res2 st2 where i: "run_prepared pg 2 [Text f, Text d] st1 = (res2, st2)" by (metis prod.exhaust)
  note q1 = run_prepared_pg [OF q assms(3)]
  note i1 = run_prepared_pg [OF i conjunct1 [OF q1]]
  have t1: "tabs (conn (u_world st1)) = ?t" using q1 by (simp add: sql_effect_def)
  have found: "f \<in> file_name ` set (files ?t)" if "res_status res = TUPLES_OK" "\<not> PQntuples res < 1"
  proof -
    have "length (res_rows res) \<noteq> 0" "res_rows res = sql_rows ''check_file_existence'' [Text f] ?t"
      using q1 that by (auto simp: PQntuples_def)
    then show ?thesis by (auto simp: sql_rows_def split: if_splits)
  qed
  have full: "?run = (if res_status res \<noteq> TUPLES_OK then Some (-1, say (bytes ''failed to get file info '' @ f @ bytes '', error : '' @ PQerrorMessage pg (u_world st1) @ [10]) st1)
      else if PQntuples res < 1 then Some (-1, say (bytes ''file doesn't exists in database'' @ [10]) st1)
      else if res_status res2 \<noteq> COMMAND_OK then
        Some (-1, say (bytes ''failed to create job for file sending '' @ f @ bytes '', error : '' @ PQerrorMessage pg (u_world st2) @ [10]) st2)
      else Some (0, say (bytes ''Job succesfully created for '' @ f @ [10]) st2))"
    using assms(1,2) q i by (simp add: send_file_def strip_typed c_string_typed)
  have works: "res_status res = TUPLES_OK \<and> \<not> PQntuples res < 1 \<and> res_status res2 = COMMAND_OK"
    if h: "healthy user_names (conn (u_world st))" "f \<in> file_name ` set (files ?t)" "length (root_jobs ?t) = 1" "bytea_in f \<noteq> None"
  proof -
    have r: "res = \<lparr>res_status = TUPLES_OK, res_rows = sql_rows ''check_file_existence'' [Text f] ?t\<rparr>" "st1 = st"
      using run_query [OF h(1), of 1 "[Text f]"] q by (auto simp: user_names sql_ok_def is_query_def)
    have "\<exists>rows st'. run_prepared pg 2 [Text f, Text d] st = (\<lparr>res_status = COMMAND_OK, res_rows = rows\<rparr>, st')"
      using run_command [OF h(1), of 2 "[Text f, Text d]"] h(3,4) by (auto simp: user_names sql_ok_def is_query_def)
    with i r have "res_status res2 = COMMAND_OK" by auto
    moreover have "sql_rows ''check_file_existence'' [Text f] ?t \<noteq> []" using h(2) by (auto simp: sql_rows_def)
    ultimately show ?thesis using r by (cases "sql_rows ''check_file_existence'' [Text f] ?t") (simp_all add: PQntuples_def)
  qed
  have ins: "\<exists>data. bytea_in f = Some data \<and> tabs (conn (u_world st2)) = insert_send_job data d ?t" if "res_status res2 = COMMAND_OK"
    using i1 that t1 by (auto simp: sql_ok_def sql_effect_def is_query_def)
  have keep: "tabs (conn (u_world st2)) = ?t" if "res_status res2 \<noteq> COMMAND_OK"
    using i1 that t1 by (auto simp: is_query_def)
  have out: "u_in st1 = u_in st" "snapshot (conn (u_world st1)) = None" "u_in st2 = u_in st" "snapshot (conn (u_world st2)) = None"
    using q1 i1 by simp_all
  let ?c = "healthy user_names (conn (u_world st)) \<and> f \<in> file_name ` set (files ?t) \<and> length (root_jobs ?t) = 1 \<and> bytea_in f \<noteq> None"
  consider (refused) "res_status res \<noteq> TUPLES_OK" | (unknown) "res_status res = TUPLES_OK" "PQntuples res < 1"
    | (failed) "res_status res = TUPLES_OK" "\<not> PQntuples res < 1" "res_status res2 \<noteq> COMMAND_OK"
    | (created) "res_status res = TUPLES_OK" "\<not> PQntuples res < 1" "res_status res2 = COMMAND_OK" by blast
  then show ?thesis
  proof cases
    case refused
    with works have "\<not> ?c" by blast
    with refused full t1 out show ?thesis by (simp add: say_def)
  next
    case unknown
    with works have "\<not> ?c" by blast
    with unknown full t1 out show ?thesis by (simp add: say_def)
  next
    case failed
    with works have "\<not> ?c" by blast
    with failed full keep out show ?thesis by (simp add: say_def)
  next
    case created
    with full found ins out show ?thesis by (simp add: say_def)
  qed
qed

text \<open>
  Claim C14: \<open>send_file\<close> creates one job or changes nothing, whichever statement the server refuses: it returns 0 exactly
  when a job for the destination, cut or padded to five characters, was added, and only for a file the database has; otherwise it returns
  -1 and the tables are as before.  With nothing refused, the file there and one root job it returns 0 for every name
  that reads as \<open>bytea\<close>.
\<close>

theorem send_file_creates_one_job:
  assumes "typeable f" "typeable d" "snapshot (conn (u_world st)) = None"
  shows "\<exists>r st'. send_file pg (array upbufsize (f @ [10])) (array upbufsize (d @ [10])) st = Some (r, st') \<and>
    snapshot (conn (u_world st')) = None \<and> u_in st' = u_in st \<and>
    (r = 0 \<and> f \<in> file_name ` set (files (tabs (conn (u_world st)))) \<and>
       (\<exists>data. bytea_in f = Some data \<and> tabs (conn (u_world st')) = insert_send_job data d (tabs (conn (u_world st)))) \<or>
     r = -1 \<and> tabs (conn (u_world st')) = tabs (conn (u_world st))) \<and>
    (healthy user_names (conn (u_world st)) \<and> f \<in> file_name ` set (files (tabs (conn (u_world st)))) \<and>
       length (root_jobs (tabs (conn (u_world st)))) = 1 \<and> bytea_in f \<noteq> None \<longrightarrow> r = 0)"
  by (rule send_file_outcome [OF assms])

text \<open>\<open>demo_tables\<close> with one file imported and one the server could import.\<close>

definition user_tables :: tables where
  "user_tables = demo_tables\<lparr>files := [\<lparr>file_id = replicate 36 99, file_name = bytes ''/tmp/a'', file_data_oid = bytes ''16384'',
     time_of_insertion = bytes ''2023-03-01''\<rparr>], server_files := [bytes ''/tmp/a'', bytes ''/tmp/b'']\<rparr>"

definition demo_user :: "byte list \<Rightarrow> server user" where
  "demo_user inp = \<lparr>u_world = \<lparr>conn = new_server user_tables (List.map (\<lambda>(n, sql, k). (n, k)) dbs_user) [], syslog = []\<rparr>,
     u_in = inp, u_out = []\<rparr>"

lemma demo_user_simps:
  "tabs (conn (u_world (demo_user inp))) = user_tables" "u_in (demo_user inp) = inp" "snapshot (conn (u_world (demo_user inp))) = None"
  "healthy user_names (conn (u_world (demo_user inp)))"
  by (simp_all add: demo_user_def new_server_def healthy_def user_names_def)

lemma user_tables_root: "length (root_jobs user_tables) = 1"
  by (simp add: user_tables_def demo_tables_def root_jobs_def demo_root_def demo_job_def demo_uuid_def)

theorem send_file_creates_one_job_witness:
  "\<exists>st'. send_file pg (array upbufsize (bytes ''/tmp/a'' @ [10])) (array upbufsize (bytes ''M4'' @ [10])) (demo_user []) = Some (0, st') \<and>
     length (job_scheduler (tabs (conn (u_world st')))) = 3"
proof -
  have t: "typeable (bytes ''/tmp/a'')" "typeable (bytes ''M4'')" by code_simp+
  have b: "bytea_in (bytes ''/tmp/a'') \<noteq> None" by code_simp
  have f: "bytes ''/tmp/a'' \<in> file_name ` set (files user_tables)" by (simp add: user_tables_def)
  have n: "length (job_scheduler user_tables) = 2" by (simp add: user_tables_def demo_tables_def)
  from send_file_creates_one_job [OF t, of "demo_user []"] b f user_tables_root n show ?thesis
    by (auto simp: demo_user_simps insert_send_job_def)
qed


section \<open>A session\<close>

lemma fgets_choice: "b \<noteq> 10 \<Longrightarrow> fgets 3 (b # 10 # rest) = Some ([b, 10], rest)"
  by (simp add: fgets_def Let_def)

lemma array_choice: "array n (b # t) ! 0 = b"
  by (simp add: array_def)

lemma import_file_healthy:
  assumes "typeable path" "healthy user_names (conn (u_world st))" "path \<in> set (server_files (tabs (conn (u_world st))))"
    and "path \<notin> file_name ` set (files (tabs (conn (u_world st))))"
  shows "\<exists>out. import_file pg (array upbufsize (path @ [10])) st = Some (0,
    st\<lparr>u_world := (u_world st)\<lparr>conn := (conn (u_world st))\<lparr>tabs := insert_file path (tabs (conn (u_world st)))\<rparr>\<rparr>, u_out := out\<rparr>)"
proof -
  have "c_string (array upbufsize (path @ [10])) = Some (path @ [10])"
    using assms(1) by (intro c_string_array) (auto simp: typeable_def upbufsize_def)
  moreover have "take (Suc (length path)) ((array upbufsize (path @ [10]))[length path := 0]) = path @ [0]"
    by (simp add: array_def list_update_append)
  moreover have "c_string (path @ [0]) = Some path"
    using assms(1) by (simp add: c_string_def typeable_def cstr_append_nul)
  moreover have "length path < upbufsize" using assms(1) by (simp add: typeable_def upbufsize_def)
  moreover have "\<exists>rows. run_prepared pg 0 [Text path, Text path] st = (\<lparr>res_status = COMMAND_OK, res_rows = rows\<rparr>,
      st\<lparr>u_world := (u_world st)\<lparr>conn := (conn (u_world st))\<lparr>tabs := insert_file path (tabs (conn (u_world st)))\<rparr>\<rparr>\<rparr>)"
    using run_command [OF assms(2), of 0 "[Text path, Text path]"] assms(3,4) by (auto simp: user_names sql_ok_def is_query_def sql_effect_def)
  ultimately show ?thesis by (auto simp: import_file_def say_def)
qed

text \<open>
  Claim C15: importing a file and sending it, as a user types it.  With a server that refuses nothing, a path it can read that is not
  imported yet, and one root job, the lines \<open>1\<close>, the path, \<open>2\<close>, the path, the destination, \<open>8\<close> make the program import the
  file under its full path, create exactly one job for it, and end, leaving the input after the \<open>8\<close>.
\<close>

theorem menu_imports_and_sends:
  assumes "typeable path" "typeable d" "healthy user_names (conn (u_world st))" "tabs (conn (u_world st)) = t"
    and "path \<in> set (server_files t)" "path \<notin> file_name ` set (files t)" "length (root_jobs t) = 1" "bytea_in path = Some data"
    and "u_in st = [49, 10] @ path @ [10, 50, 10] @ path @ [10] @ d @ [10, 56, 10] @ rest"
  shows "\<exists>st'. menu pg (\<lambda>i. i) st = Some st' \<and> u_in st' = rest \<and>
    tabs (conn (u_world st')) = insert_send_job data d (insert_file path t)"
proof -
  let ?in1 = "path @ 10 # d @ 10 # 56 # 10 # rest"
  have in0: "u_in st = 49 # 10 # path @ 10 # 50 # 10 # ?in1" using assms(9) by simp
  let ?b = "\<lambda>x. array upbufsize (x @ [10])"
  let ?st1 = "(say menu_text st)\<lparr>u_in := path @ 10 # 50 # 10 # ?in1\<rparr>"
  obtain out where imp: "import_file pg (?b path) ((say (bytes ''Enter absolute file path'' @ [10]) ?st1)\<lparr>u_in := 50 # 10 # ?in1\<rparr>) =
      Some (0, st\<lparr>u_in := 50 # 10 # ?in1, u_world := (u_world st)\<lparr>conn := (conn (u_world st))\<lparr>tabs := insert_file path t\<rparr>\<rparr>, u_out := out\<rparr>)"
    using import_file_healthy [OF assms(1), of "(say (bytes ''Enter absolute file path'' @ [10]) ?st1)\<lparr>u_in := 50 # 10 # ?in1\<rparr>"]
      assms(3,4,5,6) by (auto simp: say_def)
  define st2 where "st2 = st\<lparr>u_in := 50 # 10 # ?in1, u_world := (u_world st)\<lparr>conn := (conn (u_world st))\<lparr>tabs := insert_file path t\<rparr>\<rparr>, u_out := out\<rparr>"
  have turn1: "menu_once pg (\<lambda>i. i) st = Some (True, st2)"
    using imp get_input_line [OF assms(1), of ?st1 "50 # 10 # ?in1" "bytes ''Enter absolute file path'' @ [10]"] in0
    by (simp add: menu_once_def with_input_def fgets_choice array_choice say_def Let_def st2_def)
  define st3 where "st3 = (say (bytes ''Enter file name'' @ [10]) ((say menu_text st2)\<lparr>u_in := ?in1\<rparr>))\<lparr>u_in := d @ 10 # 56 # 10 # rest\<rparr>"
  define st4 where "st4 = (say (bytes ''Enter destination'' @ [10]) st3)\<lparr>u_in := 56 # 10 # rest\<rparr>"
  have t2: "tabs (conn (u_world st4)) = insert_file path t" "snapshot (conn (u_world st4)) = None" "healthy user_names (conn (u_world st4))" "u_in st4 = 56 # 10 # rest"
    using assms(3) by (simp_all add: st4_def st3_def st2_def say_def healthy_def)
  have "path \<in> file_name ` set (files (insert_file path t))" "length (root_jobs (insert_file path t)) = 1"
    using assms(7) by (simp_all add: insert_file_def root_jobs_def)
  then obtain st5 where send: "send_file pg (?b path) (?b d) st4 = Some (0, st5)" "u_in st5 = 56 # 10 # rest"
      "tabs (conn (u_world st5)) = insert_send_job data d (insert_file path t)"
    using send_file_outcome [OF assms(1,2) t2(2)] t2 assms(8) by auto
  have in2: "u_in st2 = 50 # 10 # ?in1" by (simp add: st2_def)
  have turn2: "menu_once pg (\<lambda>i. i) st2 = Some (True, st5)"
    using send(1) get_input_line [OF assms(1), of "(say menu_text st2)\<lparr>u_in := ?in1\<rparr>" "d @ 10 # 56 # 10 # rest" "bytes ''Enter file name'' @ [10]"]
      get_input_line [OF assms(2), of st3 "56 # 10 # rest" "bytes ''Enter destination'' @ [10]"]
    by (simp add: menu_once_def with_input_def fgets_choice array_choice Let_def in2 flip: st3_def st4_def) (simp add: st3_def)
  have turn3: "menu_once pg (\<lambda>i. i) st5 = Some (False, (say menu_text st5)\<lparr>u_in := rest\<rparr>)"
    using send(2) by (simp add: menu_once_def fgets_choice array_choice Let_def say_def)
  have "menu pg (\<lambda>i. i) st = Some ((say menu_text st5)\<lparr>u_in := rest\<rparr>)"
    by (simp add: menu.simps [of pg "\<lambda>i. i" st] menu.simps [of pg "\<lambda>i. i" st2] menu.simps [of pg "\<lambda>i. i" st5] turn1 turn2 turn3)
  then show ?thesis using send(3) by (simp add: say_def)
qed

theorem menu_imports_and_sends_witness:
  "\<exists>st'. menu pg (\<lambda>i. i) (demo_user ([49, 10] @ bytes ''/tmp/b'' @ [10, 50, 10] @ bytes ''/tmp/b'' @ [10] @ bytes ''M4'' @ [10, 56, 10] @ [])) =
     Some st' \<and> length (files (tabs (conn (u_world st')))) = 2 \<and> length (job_scheduler (tabs (conn (u_world st')))) = 3"
proof -
  have t: "typeable (bytes ''/tmp/b'')" "typeable (bytes ''M4'')" by code_simp+
  have b: "bytea_in (bytes ''/tmp/b'') = Some (bytes ''/tmp/b'')" by code_simp
  have f: "bytes ''/tmp/b'' \<in> set (server_files user_tables)" "bytes ''/tmp/b'' \<notin> file_name ` set (files user_tables)"
    by (simp_all add: user_tables_def)
  have n: "length (job_scheduler user_tables) = 2" "length (files user_tables) = 1" by (simp_all add: user_tables_def demo_tables_def)
  from menu_imports_and_sends [OF t demo_user_simps(4) demo_user_simps(1) f user_tables_root b demo_user_simps(2) [where inp = "[49, 10] @ bytes ''/tmp/b'' @ [10, 50, 10] @ bytes ''/tmp/b'' @ [10] @ bytes ''M4'' @ [10, 56, 10] @ []"]]
  obtain st' where "menu pg (\<lambda>i. i) (demo_user ([49, 10] @ bytes ''/tmp/b'' @ [10, 50, 10] @ bytes ''/tmp/b'' @ [10] @ bytes ''M4'' @ [10, 56, 10] @ [])) = Some st'"
    "tabs (conn (u_world st')) = insert_send_job (bytes ''/tmp/b'') (bytes ''M4'') (insert_file (bytes ''/tmp/b'') user_tables)" by blast
  with n show ?thesis by (intro exI [of _ st']) (simp add: insert_send_job_def insert_file_def)
qed


section \<open>The end of the program\<close>

definition eats :: "'c user \<Rightarrow> 'c user \<Rightarrow> bool" where
  "eats st st' \<longleftrightarrow> set (u_in st') \<subseteq> set (u_in st)"

lemma eats_same: "u_in st' = u_in st \<Longrightarrow> eats st st'"
  by (simp add: eats_def)

lemma import_file_in: "import_file pq b st = Some (r, st') \<Longrightarrow> u_in st' = u_in st"
  by (auto simp: import_file_def run_prepared_def split_beta Let_def bind_eq_Some_conv split: if_splits)

lemma send_file_in: "send_file pq b d st = Some (r, st') \<Longrightarrow> u_in st' = u_in st"
  by (auto simp: send_file_def run_prepared_def split_beta Let_def bind_eq_Some_conv split: if_splits)

lemma export_file_in: "export_file b st = Some (r, st') \<Longrightarrow> u_in st' = u_in st"
  by (auto simp: export_file_def run_prepared_def split_beta Let_def bind_eq_Some_conv split: if_splits)

lemma update_job_priority_in: "update_job_priority pq b d st = Some (r, st') \<Longrightarrow> u_in st' = u_in st"
  by (auto simp: update_job_priority_def run_prepared_def split_beta Let_def bind_eq_Some_conv split: if_splits)

lemma show_table_in: "show_table pq i e cs n st = Some (r, st') \<Longrightarrow> u_in st' = u_in st"
  by (auto simp: show_table_def run_prepared_def split_beta Let_def bind_eq_Some_conv split: if_splits)

lemma fgets_split:
  assumes "fgets n inp = Some (line, rest)"
  shows "inp = line @ rest"
proof -
  let ?t = "take (n - 1) inp"
  let ?l = "takeWhile (\<lambda>b. b \<noteq> 10) ?t"
  have rest: "rest = drop (length line) inp" and line: "line = (if length ?l < length ?t then ?l @ [10] else ?l)"
    using assms by (auto simp: fgets_def Let_def split: if_splits)
  have "line = take (length line) ?t"
  proof (cases "length ?l < length ?t")
    case True
    then have "?t ! length ?l = 10" using nth_length_takeWhile by blast
    then have "?l @ [10] = take (Suc (length ?l)) ?t"
      using take_Suc_conv_app_nth [OF True] takeWhile_eq_take [of "\<lambda>b. b \<noteq> 10" ?t] by simp
    with True line show ?thesis by simp
  next
    case False
    with line have "line = ?l" by (simp only: if_False)
    then show ?thesis using takeWhile_eq_take by metis
  qed
  then have "line = take (length line) inp" by (metis take_take length_take min.absorb_iff2 min.commute take_all_iff linorder_linear)
  with rest show ?thesis by (metis append_take_drop_id)
qed

lemma fgets_suffix: "fgets n inp = Some (line, rest) \<Longrightarrow> set rest \<subseteq> set inp"
  using fgets_split by fastforce

lemma get_input_eats: "get_input p n st = (r, b, st') \<Longrightarrow> eats st st'"
  using fgets_suffix by (fastforce simp: get_input_def eats_def Let_def split: option.splits prod.splits)

lemma with_input_eats:
  assumes "with_input p f st = Some st'" "\<And>b s s'. f b s = Some s' \<Longrightarrow> eats s s'"
  shows "eats st st'"
proof -
  obtain r b st1 where g: "get_input (bytes p @ [10]) upbufsize st = (r, b, st1)" by (metis prod.exhaust)
  then have "eats st st1" by (rule get_input_eats)
  moreover have "eats st1 st'" using assms g by (cases "r = -1") (auto simp: with_input_def eats_def)
  ultimately show ?thesis by (auto simp: eats_def)
qed

lemmas user_calls_in = import_file_in send_file_in export_file_in update_job_priority_in show_table_in

lemma menu_once_eats:
  assumes "menu_once pq flush st = Some (on, st')" "\<And>x. set (flush x) \<subseteq> set x"
  shows "eats st st' \<and> (on \<or> 56 \<in> set (u_in st))"
proof -
  define st2 where "st2 = (say menu_text st)\<lparr>u_in := flush (u_in (say menu_text st))\<rparr>"
  define pr where "pr = (case fgets 3 (u_in st2) of Some (t, rest) \<Rightarrow> (array 3 t, st2\<lparr>u_in := rest\<rparr>) | None \<Rightarrow> (array 3 [], st2))"
  obtain choice st3 where pr2: "pr = (choice, st3)" by (cases pr)
  have e: "eats st st2" using assms(2) by (simp add: st2_def eats_def)
  have e3: "eats st st3"
    using pr2 e fgets_suffix unfolding pr_def by (fastforce simp: eats_def split: option.splits prod.splits)
  have c: "56 \<in> set (u_in st)" if "choice ! 0 = 56"
  proof -
    have "56 \<in> set (u_in st2)"
    proof (cases "fgets 3 (u_in st2)")
      case None
      with pr2 that show ?thesis by (auto simp: pr_def array_def)
    next
      case (Some lr)
      then obtain line rest where l: "fgets 3 (u_in st2) = Some (line, rest)" "choice = array 3 line" using pr2 by (cases lr) (auto simp: pr_def)
      have "56 \<in> set line" using l(2) that by (cases line) (auto simp: array_def)
      moreover have "set line \<subseteq> set (u_in st2)"
        using fgets_split [OF l(1)] by simp
      ultimately show ?thesis by blast
    qed
    with e show ?thesis by (auto simp: eats_def)
  qed
  let ?go = "map_option (\<lambda>s. (True, s))" and ?fin = "map_option (\<lambda>(r :: int, s). s)"
  have step: "menu_once pq flush st =
     (let c = choice ! 0 in
      if c = 56 then Some (False, st3)
      else if c = 49 then ?go (with_input ''Enter absolute file path'' (\<lambda>b s. ?fin (import_file pq b s)) st3)
      else if c = 50 then ?go (with_input ''Enter file name'' (\<lambda>b. with_input ''Enter destination'' (\<lambda>d s. ?fin (send_file pq b d s))) st3)
      else if c = 51 then ?go (with_input ''Enter absolute file path'' (\<lambda>b s. ?fin (export_file b s)) st3)
      else if c = 52 then ?go (?fin (show_stats pq st3))
      else if c = 53 then ?go (?fin (show_jobs_info pq st3))
      else if c = 54 then ?go (with_input ''Enter jobid id'' (\<lambda>b. with_input ''Enter job priority'' (\<lambda>d s. ?fin (update_job_priority pq b d s))) st3)
      else if c = 55 then ?go (?fin (show_files_info pq st3))
      else Some (True, say (bytes ''Invalid Input'' @ [10]) st3))"
    using pr2 unfolding pr_def st2_def by (simp only: menu_once_def Let_def prod.case)
  have turn: "eats st3 st'" if "with_input p f st3 = Some st'" "\<And>b s s'. f b s = Some s' \<Longrightarrow> eats s s'" for p f
    using with_input_eats [OF that] .
  have call: "eats s s'" if "?fin g = Some s'" "\<And>r s'. g = Some (r, s') \<Longrightarrow> u_in s' = u_in s" for g :: "(int \<times> 'a user) option" and s s'
    using that by (auto simp: eats_def)
  have one: "eats st3 st'" if "with_input p (\<lambda>b s. ?fin (f b s)) st3 = Some st'" "\<And>b s r s'. f b s = Some (r, s') \<Longrightarrow> u_in s' = u_in s" for p f
    using with_input_eats [OF that(1)] call that(2) by blast
  have two: "eats st3 st'" if "with_input p (\<lambda>b. with_input p' (\<lambda>d s. ?fin (f b d s))) st3 = Some st'"
      "\<And>b d s r s'. f b d s = Some (r, s') \<Longrightarrow> u_in s' = u_in s" for p p' f
    by (rule with_input_eats [OF that(1)], erule with_input_eats) (use call that(2) in blast)
  have "eats st3 st' \<and> (on \<or> choice ! 0 = 56)"
    using assms(1) unfolding step Let_def
    by (auto simp: eats_same show_stats_def show_jobs_info_def show_files_info_def split: if_splits
        dest: show_table_in
        dest!: one [of _ "import_file pq", OF _ import_file_in] one [of _ export_file, OF _ export_file_in]
          two [of _ _ "send_file pq", OF _ send_file_in] two [of _ _ "update_job_priority pq", OF _ update_job_priority_in])
  with e3 c show ?thesis by (auto simp: eats_def)
qed




section \<open>A priority that is no number\<close>

lemma update_job_priority_pg:
  assumes "update_job_priority pg (array upbufsize (u @ [10])) (array upbufsize (p @ [10])) st = Some (0, st')"
    and "typeable u" "typeable p" "snapshot (conn (u_world st)) = None"
  shows "snapshot (conn (u_world st')) = None \<and> length u = 36 \<and> tabs (conn (u_world st')) = (tabs (conn (u_world st)))
    \<lparr>job_scheduler := where_set (\<lambda>j. jparent_jobid j = u \<or> jobid j = u) (\<lambda>j. j\<lparr>jpriority := p\<rparr>) (job_scheduler (tabs (conn (u_world st))))\<rparr>"
proof -
  have z: "0 \<notin> set u" "0 \<notin> set p" "length p < 259" using assms(2,3) by (auto simp: typeable_def)
  have len: "length u < 37"
  proof (rule ccontr)
    assume "\<not> length u < 37"
    then have "take 37 (array 37 u) = take 37 u" by (simp add: array_def)
    moreover have "0 \<notin> set (take 37 u)" using z(1) by (meson in_set_takeD)
    ultimately have "c_string (take 37 (array 37 u)) = None" by (simp add: c_string_def)
    then show False using assms(1-3) by (simp add: update_job_priority_def strip_typed c_string_typed)
  qed
  then have c: "c_string (take 37 (array 37 u)) = Some u" using z(1) c_string_array [of u 37] by (simp add: array_def)
  have d: "strncpy_exact (replicate upbufsize 0) p (length p) = Some (array upbufsize p)"
    using z(3) by (simp add: strncpy_exact_def array_def upbufsize_def)
  obtain res st1 where r: "run_prepared pg 5 [Text u, Text p] st = (res, st1)" by (metis prod.exhaust)
  have ok: "res_status res = COMMAND_OK" "st' = say (bytes ''successfully update job priority'' @ [10]) st1"
    using assms(1-3) r c d by (auto simp: update_job_priority_def strip_typed c_string_typed split: if_splits)
  show ?thesis using run_prepared_pg [OF r assms(4)] ok by (simp add: sql_effect_def sql_ok_def)
qed

lemma no_priority_no_data:
  assumes "\<not> int_priorities (tabs (conn w))"
  shows "\<not> retrieved pg key w fd uuid data"
proof -
  obtain rb w1 where b: "PQexec pg ''BEGIN'' w = (rb, w1)" by (metis prod.exhaust)
  have "tabs (conn w1) = tabs (conn w)"
    using b by (auto simp: PQexec_def pg_def db_exec_def Let_def split: prod.splits if_splits)
  then have "res_status (fst (PQexecPrepared pg ''s_get_info'' [] 0 w1)) = FATAL_ERROR"
    using assms by (auto simp: PQexecPrepared_def pg_def db_exec_prepared_def sql_ok_def refused_def split: prod.splits)
  then show ?thesis using b by (auto simp: retrieved_def split: prod.splits)
qed

lemma no_priority_no_turn:
  assumes "\<not> int_priorities (tabs (conn w))" "snapshot (conn w) = None" "give_data_to_sender pg (s, w) = Some (s', w')"
  shows "tabs (conn w') = tabs (conn w) \<and> snapshot (conn w') = None \<and> sem_lock_sigs s' = sem_lock_sigs s \<and>
    contents DPARTITION_SIZE 3 (datas_block s') = contents DPARTITION_SIZE 3 (datas_block s)"
proof -
  obtain l s1 where l: "sem_lock_datas s = Suc l" and
    c: "ProcessorS.give_data_locked pg (s\<lparr>sem_lock_datas := l\<rparr>, w) = Some (s1, w')" and s': "s' = s1\<lparr>sem_lock_datas := Suc (sem_lock_datas s1)\<rparr>"
    using assms(3) by (cases "sem_lock_datas s") (auto simp: give_data_to_sender_def bind_eq_Some_conv sem_wait_def sem_post_def)
  have n: "map_option fst (snapshot (conn w)) = None" using assms(2) by simp
  from db.give_data_outcome [OF c n] no_priority_no_data [OF assms(1)] s' show ?thesis by auto
qed

lemma unreadable_priority:
  assumes "tabs (conn w) = t\<lparr>job_scheduler := where_set (\<lambda>j. jparent_jobid j = u \<or> jobid j = u) (\<lambda>j. j\<lparr>jpriority := p\<rparr>) (job_scheduler t)\<rparr>"
    and "(sc, js) \<in> set (ready_jobs t)" "jobid js = u \<or> jparent_jobid js = u" "\<not> int_text p"
  shows "\<not> int_priorities (tabs (conn w))"
proof -
  have "(sc, js\<lparr>jpriority := p\<rparr>) \<in> set (ready_jobs (tabs (conn w)))"
    using assms(2,3) by (fastforce simp: assms(1) ready_jobs_def where_set_def)
  with assms(4) show ?thesis by (force simp: int_priorities_def list_all_iff)
qed

text \<open>
  Claim C13: a priority that is no number stops the node from sending.  When the user gives one, the empty line included, to a job and one of
  its parts is ready to be sent, every later \<open>s_get_info\<close> fails on \<open>jpriority::INT\<close>: whatever the server does, in any number of
  turns \<open>give_data_to_sender\<close> hands over no job of the database, neither that one nor any other, and wakes nobody.
\<close>

theorem priority_text_stops_sending:
  assumes "typeable u" "typeable p" "\<not> int_text p" "snapshot (conn (u_world st)) = None"
    and "update_job_priority pg (array upbufsize (u @ [10])) (array upbufsize (p @ [10])) st = Some (0, st')"
    and "(sc, js) \<in> set (ready_jobs (tabs (conn (u_world st))))" "jobid js = u \<or> jparent_jobid js = u"
    and "tabs (conn w) = tabs (conn (u_world st'))" "snapshot (conn w) = None"
    and "(\<lambda>x y. give_data_to_sender pg x = Some y)\<^sup>*\<^sup>* (s, w) (s', w')"
  shows "tabs (conn w') = tabs (conn w) \<and> sem_lock_sigs s' = sem_lock_sigs s \<and>
    contents DPARTITION_SIZE 3 (datas_block s') = contents DPARTITION_SIZE 3 (datas_block s)"
proof -
  note upd = update_job_priority_pg [OF assms(5,1,2,4)]
  have bad: "\<not> int_priorities (tabs (conn w))"
    by (rule unreadable_priority [OF _ assms(6,7,3)]) (use upd assms(8) in simp)
  have "tabs (conn w') = tabs (conn w) \<and> snapshot (conn w') = None \<and> sem_lock_sigs s' = sem_lock_sigs s \<and>
    contents DPARTITION_SIZE 3 (datas_block s') = contents DPARTITION_SIZE 3 (datas_block s)"
    using assms(10)
  proof (induction rule: rtranclp_induct2)
    case refl
    show ?case using assms(9) by simp
  next
    case (step s1 w1 s2 w2)
    with no_priority_no_turn [of w1 s1 s2 w2] bad show ?case by simp
  qed
  then show ?thesis by blast
qed

lemma retrive_refused:
  assumes h: "healthy s_names c" and bad: "\<not> int_priorities (tabs c)"
  shows "\<exists>l'. retrive_data_from_database pg blk p \<lparr>conn = c, syslog = l\<rparr> = Some (-1, blk, \<lparr>conn = c, syslog = l'\<rparr>)"
proof -
  let ?c1 = "c\<lparr>snapshot := Some (tabs c, logs c), tx_failed := False\<rparr>"
  let ?c2 = "c\<lparr>snapshot := Some (tabs c, logs c), tx_failed := True\<rparr>"
  note tx = tx_healthy [OF h]
  have q: "PQexecPrepared pg ''s_get_info'' [] 0 \<lparr>conn = ?c1, syslog = l\<rparr> = (refused, \<lparr>conn = ?c2, syslog = l\<rparr>)"
    using h bad by (simp add: PQexecPrepared_def pg_def db_exec_prepared_def next_fault_none healthy_def sql_ok_def)
  let ?m = "bytes ''failed to retrive info from db : ''" and ?e = "bytes ''ERROR:  command failed''"
  have e: "PQerrorMessage pg w = ?e" for w by (simp add: PQerrorMessage_def pg_def db_errmsg_def)
  have "length (cstr ?m @ cstr ?e) < 1000" using length_cstr_le [of ?m] length_cstr_le [of ?e] by simp
  moreover have "PQexecPrepared pg ''storelog'' ps 0 \<lparr>conn = ?c2, syslog = l\<rparr> = (refused, \<lparr>conn = ?c2, syslog = l\<rparr>)" for ps
    using h by (simp add: PQexecPrepared_def pg_def db_exec_prepared_def next_fault_none healthy_def)
  ultimately obtain l' where s: "storelog pg ''%s%s'' [vararg.VStr ?m, vararg.VStr ?e] \<lparr>conn = ?c2, syslog = l\<rparr> = Some \<lparr>conn = ?c2, syslog = l'\<rparr>"
    by (simp add: storelog_text refused_def log_syslog_def)
  have "PQexec pg ''ROLLBACK'' \<lparr>conn = ?c2, syslog = l'\<rparr> = (done_ok, \<lparr>conn = c, syslog = l'\<rparr>)"
    using h by (simp add: PQexec_def pg_def db_exec_def healthy_def next_fault_none abort_def)
  then show ?thesis using s
    by (simp add: retrive_data_from_database_def fail_in_tx_def rollback_def tx(1) q done_ok_def refused_def e)
qed

text \<open>The user types \<open>high\<close> for the root job, of which \<open>demo_job\<close> is a part.\<close>

theorem priority_text_stops_sending_witness:
  "\<exists>st' s' w'. update_job_priority pg (array upbufsize (replicate 36 98 @ [10])) (array upbufsize (bytes ''high'' @ [10])) (demo_user []) = Some (0, st') \<and>
     give_data_to_sender pg (idle_shared, \<lparr>conn = demo_server\<lparr>tabs := tabs (conn (u_world st'))\<rparr>, syslog = []\<rparr>) = Some (s', w') \<and>
     sem_lock_sigs s' = 0"
proof -
  have t: "typeable (replicate 36 98)" "typeable (bytes ''high'')" "\<not> int_text (bytes ''high'')" by code_simp+
  let ?t = "user_tables\<lparr>job_scheduler := where_set (\<lambda>j. jparent_jobid j = replicate 36 98 \<or> jobid j = replicate 36 98)
    (\<lambda>j. j\<lparr>jpriority := bytes ''high''\<rparr>) (job_scheduler user_tables)\<rparr>"
  obtain st' where u: "update_job_priority pg (array upbufsize (replicate 36 98 @ [10])) (array upbufsize (bytes ''high'' @ [10])) (demo_user []) = Some (0, st')"
  proof -
    have "c_string (take 37 (array 37 (replicate 36 98))) = Some (replicate 36 98)"
      and "strncpy_exact (replicate upbufsize 0) (bytes ''high'') (length (bytes ''high'')) = Some (array upbufsize (bytes ''high''))" by code_simp+
    moreover have "\<exists>rows st'. run_prepared pg 5 [Text (replicate 36 98), Text (bytes ''high'')] (demo_user []) = (\<lparr>res_status = COMMAND_OK, res_rows = rows\<rparr>, st')"
      using run_command [OF demo_user_simps(4), of 5 "[Text (replicate 36 98), Text (bytes ''high'')]" "[]"]
      by (auto simp: user_names sql_ok_def is_query_def)
    ultimately show ?thesis using that t by (auto simp: update_job_priority_def strip_typed c_string_typed)
  qed
  have r: "(demo_conn, demo_job) \<in> set (ready_jobs (tabs (conn (u_world (demo_user [])))))"
    using demo_ready by (simp add: demo_user_simps user_tables_def ready_jobs_def)
  have j: "jobid demo_job = replicate 36 98 \<or> jparent_jobid demo_job = replicate 36 98" by (simp add: demo_job_def)
  let ?w = "\<lparr>conn = demo_server\<lparr>tabs := tabs (conn (u_world st'))\<rparr>, syslog = []\<rparr>"
  have n: "tabs (conn ?w) = tabs (conn (u_world st'))" "snapshot (conn ?w) = None" by (simp_all add: demo_server_def new_server_def)
  have "\<not> int_priorities (tabs (conn ?w))"
    using unreadable_priority [OF _ r j t(3), of ?w] update_job_priority_pg [OF u t(1,2) demo_user_simps(3)] by simp
  moreover have "healthy s_names (conn ?w)" using demo_healthy by (simp add: healthy_def)
  ultimately have "\<exists>l. retrive_data_from_database pg blk q ?w = Some (-1, blk, ?w\<lparr>syslog := l\<rparr>)" for blk q
    using retrive_refused [of "conn ?w" blk q "[]"] by simp
  then obtain l where "retrive_data_from_database pg (mset_bytes (\<lambda>_. 0) (slot_addr DPARTITION_SIZE 0) 0 DPARTITION_SIZE)
      (slot_addr DPARTITION_SIZE 0) ?w = Some (-1, mset_bytes (\<lambda>_. 0) (slot_addr DPARTITION_SIZE 0) 0 DPARTITION_SIZE, ?w\<lparr>syslog := l\<rparr>)"
    by blast
  then have "\<exists>s' w'. give_data_to_sender pg (idle_shared, ?w) = Some (s', w')"
    using first_slot_free by (simp add: give_data_to_sender_def ProcessorS.give_data_locked_def idle_shared_def sem_wait_def Let_def)
  then obtain s' w' where g: "give_data_to_sender pg (idle_shared, ?w) = Some (s', w')" by blast
  then have "(\<lambda>x y. give_data_to_sender pg x = Some y)\<^sup>*\<^sup>* (idle_shared, ?w) (s', w')" by blast
  from priority_text_stops_sending [OF t demo_user_simps(3) u r j n this] have "sem_lock_sigs s' = 0" by (simp add: idle_shared_def)
  with u g show ?thesis by blast
qed

end
