(* ===== verification/Spec2Isabelle.thy ===== *)
theory Spec2Isabelle
  imports Hashtable Partition SharedMemory Messages Channel Libpq Database ProcessorS ProcessorR Sender Receiver InitialSender InitialReceiver SendingSide Handshake Config Startup Notif Launcher JobLauncher UserProgram
begin

text \<open>
  The file sharing system: a node takes jobs out of a PostgreSQL database, cuts files into messages
  and moves them to other nodes over TCP.  On each node the work is done by separate processes written
  in C that meet in two places only: the database, and System V segments divided into slots, guarded
  and signalled by POSIX semaphores.

  \<^bold>\<open>The program and the theories.\<close>
  The directory of the sources is \<open>src\<close>.

  \<^item> \<open>CPrelude\<close>: bytes, 32-bit integers, NUL-terminated arrays, \<open>sprintf("%d")\<close> and \<open>atoi\<close>, reading and
    writing a segment, semaphores as counters.  A C function is a function into \<open>option\<close>; \<open>None\<close> is
    undefined behaviour (a write past an array, a missing NUL), a wait that is not answered, or a loop that
    does not return.
  \<^item> \<open>Hashtable\<close> (\<open>hashtable.c\<close>): the table the receiver keeps the agreed message sizes in, with its
    nodes, chains and pool as an explicit heap.  Lemmas: well-formedness, the binding lists as
    abstraction, conservation of the nodes, what \<open>hput\<close>, \<open>hget\<close> and \<open>hdel\<close> do to the bindings, and what a
    recycled node does to a key.
  \<^item> \<open>Partition\<close> (\<open>partition.c\<close>): the bitmap of 80 slots at the start of every block; least free or used
    slot, exact effect of flipping a bit and of the bulk operations.  \<open>SharedMemory\<close> (\<open>shared_memory.c\<close>):
    key, size and attachment of a segment.  \<open>Messages\<close> (the structs of \<open>include/partition.h\<close>): byte layouts,
    with a codec contract each struct satisfies.
  \<^item> \<open>Channel\<close>: a block seen as a multiset of messages, which is what its two users rely on: the contract
    \<open>mailbox\<close> for one direction and \<open>duplex\<close> for the two halves of a communication block.
  \<^item> \<open>Libpq\<close>: the client library as a record of functions, the contract \<open>pg_server\<close> (transactions), and the
    code every process repeats: \<open>storelog\<close>, \<open>connect_to_database\<close>, \<open>prepare_statements\<close>, \<open>rollback\<close>, \<open>commit\<close>.
    \<open>Database\<close>: the tables and the rows and effect of each prepared statement, as a server \<open>pg\<close>
    that satisfies \<open>pg_server\<close>.
  \<^item> \<open>ProcessorS\<close> (\<open>processor_s.c\<close>) and \<open>Sender\<close> (\<open>sender.c\<close>): the sending side.  The processor claims the
    ready job with the highest priority in a transaction and puts it in the data block, hands over instructions to open and
    close connections, and stores the reports of the sender; the sender carries out instructions,
    sends the data and answers with a report.  \<open>SendingSide\<close> runs the two at the same time.
  \<^item> \<open>Receiver\<close> (\<open>receiver.c\<close>) and \<open>ProcessorR\<close> (\<open>processor_r.c\<close>): the receiving side.  The receiver cuts
    the bytes of each connection into messages of the size agreed with the peer's address; the
    processor stores messages and connection events and supplies the sizes.
  \<^item> \<open>InitialSender\<close> (\<open>initial_sender.c\<close>) and \<open>InitialReceiver\<close> (\<open>initial_receiver.c\<close>): the first message, of
    147 bytes, by which two systems agree on a size.  \<open>Handshake\<close>: what the processes do together, from one
    database to the other, and from the database to the receiver's table.
  \<^item> \<open>Config\<close>: the configuration files of \<open>conf\<close> and the \<open>read\<close> and \<open>sscanf\<close> every \<open>main\<close> starts with, for each of its
    formats.  \<open>Startup\<close>: the rest of each \<open>main\<close> before its loop (connecting, preparing, semaphores, segments, resets)
    over the kernel's semaphores and segments the processes share (\<open>ipc\<close>), with \<open>start_process\<close> as the code the mains have
    in common and a \<open>program\<close> for what differs.
  \<^item> \<open>Notif\<close> (\<open>notif.c\<close>): notifications of the server become posts of the semaphore another process sleeps on.
    \<open>Launcher\<close> (\<open>launcher.c\<close>): starting the ten processes.  \<open>JobLauncher\<close> (\<open>job_launcher.c\<close>): the calls of the database's
    worker function and the pauses between them.  \<open>UserProgram\<close> (\<open>user_program.c\<close>): the menu, its input and output,
    and what its statements do to the tables the other processes work on.

  \<^bold>\<open>State.\<close>
  The semaphores and blocks two processes share are the records \<open>s_shared\<close> and \<open>r_shared\<close>; a process's own
  globals are in its record (\<open>rcv\<close>, \<open>server_info\<close>, \<open>is_info\<close>, \<open>ir_info\<close>); the connection to the server and
  the system log are \<open>world\<close>.  Functions whose locals are read before they are written take the bytes of
  the stack as an argument (\<open>frame\<close>, \<open>junk\<close>); \<open>InitialSender\<close> takes the room of the array \<open>status_param\<close> as
  \<open>cap\<close>, whose value in the source is \<open>status_param_size\<close> = 2.

  \<^bold>\<open>What the theorems show.\<close>
  The transaction of \<open>processor_s\<close> is all or nothing, and a message is put in the block exactly when its
  job is marked; each message in a block is stored, sent or answered at most once, with the ways it
  can get lost stated; the receiver cuts a stream as a reference function does; the sender's loop
  delivers what \<open>send\<close> took; with both processes of the sending side interleaved at every semaphore
  operation, no two of them are in the same critical section, and a process that waits has a reason.
  The two programs of the sending side start in either order on the same configuration and meet in the state that
  model begins in, but for the values of the signals, which are those of the process that started first.  A configuration written in the
  format of a program is read back; a file without a last newline makes \<open>sender\<close> read the stack behind it.  A notification is one post.
  A file the user imports and sends becomes one job, and a priority typed as text stops the node from sending.
  Further theorems give the type invariant of the receiver, the round trip of the handshake,
  the outcomes of errors, and, where the code does not do what its comments say, the inputs that show it.

  \<^bold>\<open>Loops.\<close>
  Loops over bits, nodes and retries are structural recursions on their bounds (80 slots, the length of a key,
  at most 3 attempts).  The read, send and accept loops and the main loops are \<open>partial_function (option)\<close>, so that not returning is \<open>None\<close>;
  that a loop returns is part of the conclusions about it, except where the theorem says it does
  not.  The main loops of the processors, the sender and the initial processes have no exit, and the theorems are about one turn of them; the theory
  \<open>SendingSide\<close> is about all reachable states, and \<open>job_loop\<close> runs the loop of the job launcher for any number of turns.  The loop of the menu
  and that of \<open>notif\<close> have exits and are partial functions; that the menu does not end without an \<open>8\<close> is a theorem.

  \<^bold>\<open>What is assumed of code that is not in the repository.\<close>
  \<open>pg_server\<close>: a transaction is taken back by ROLLBACK and kept by COMMIT, a failed statement changes
  nothing; \<open>pg\<close> satisfies it.  \<open>stream_net\<close>: \<open>send\<close> appends a prefix of the buffer to the connection.
  \<open>stream_source\<close>: \<open>read\<close> returns a non-empty piece of what is pending, or nothing.  \<open>listener\<close>: \<open>accept\<close> takes the oldest
  pending connection.  \<open>notify_source\<close>: libpq gives out each notification once.  Each has an instance (\<open>db\<close>, \<open>tcp\<close>, \<open>feed\<close>, \<open>batch\<close>) the
  witnesses run on.  \<open>sysv\<close> and \<open>sem_open\<close> are the documented behaviour of System V segments and named semaphores: a segment is created
  zero, a semaphore gets its value when it is created.  What \<open>fflush(stdin)\<close> leaves of the input, which C does not define, is the
  argument \<open>flush\<close> of the menu.

  \<^bold>\<open>Not modelled.\<close>
  What the mains do after their loops (closing the connection, the semaphores and the segments), which for all but \<open>receiver\<close> and
  \<open>notif\<close> is never reached.  The copies of \<open>connect_to_database\<close> and \<open>prepare_statements\<close> in \<open>sender.c\<close>, \<open>processor_r.c\<close>, \<open>receiver.c\<close>,
  \<open>initial_sender.c\<close> and \<open>initial_receiver.c\<close> are the functions of \<open>Libpq\<close>, which take the array of statements as an argument.  The
  functions and triggers of \<open>db/build_schema.sql\<close> run in the server; only its views and the statements the programs execute are in
  \<open>Database\<close>.
\<close>

end
